(* ===== verification/BM_Prelude.thy ===== *)
theory BM_Prelude
  imports Main "HOL-Library.Word"
begin

text \<open>
  Shared material: the C integer types of the port as words, the flat byte-addressed memory
  of a BareMetal application, little-endian encodings of integers, the C string routines the
  port calls, and linear searches over fixed tables.
\<close>

unbundle bit_operations_syntax

section \<open>C integers\<close>

type_synonym u8 = "8 word"
type_synonym u16 = "16 word"
type_synonym u32 = "32 word"
type_synonym u64 = "64 word"

text \<open>Addresses are 64-bit, and a \<^verbatim>\<open>long\<close> is a 64-bit word read with \<^const>\<open>sint\<close>.\<close>

type_synonym addr = u64
type_synonym slong = u64
type_synonym memory = "addr \<Rightarrow> u8"

named_theorems mem_simps \<open>reads of the flat memory after writes\<close>
named_theorems codec_simps \<open>round trips of byte encodings\<close>
named_theorems len_simps \<open>lengths of encodings and tables\<close>

lemma unat_of_nat_small [simp]:
  "n < 2 ^ LENGTH('a) \<Longrightarrow> unat (of_nat n :: 'a::len word) = n"
  by (simp add: unat_of_nat take_bit_nat_eq_self)

lemma unat_less_len: "unat (x :: 'a::len word) < 2 ^ LENGTH('a)"
  by (rule unsigned_less)

lemma unat_u64_less: "unat (x :: u64) < 2 ^ 64"
  using unat_less_len [of x] by simp

lemma unat_u16_less: "unat (x :: u16) < 65536"
  using unat_less_len [of x] by simp

lemma unat_plus_small:
  "unat (a :: 'a::len word) + unat b < 2 ^ LENGTH('a) \<Longrightarrow> unat (a + b) = unat a + unat b"
  by (simp add: unat_word_ariths)

lemma unat_minus_small:
  "b \<le> (a :: 'a::len word) \<Longrightarrow> unat (a - b) = unat a - unat b"
  by (rule unat_sub)

lemma unat_neg: "x \<noteq> 0 \<Longrightarrow> unat (- x :: 'a::len word) = 2 ^ LENGTH('a) - unat x"
proof -
  assume ne: "x \<noteq> 0"
  have l: "unat (- 1 - x) = 2 ^ LENGTH('a) - 1 - unat x"
    by (simp only: unat_minus_small word_order.extremum)
      (simp add: unsigned_minus_1_eq_mask mask_eq_exp_minus_1)
  have e: "- x = (- 1 - x) + 1" by simp
  have b: "0 < unat x" "unat x < 2 ^ LENGTH('a)" using ne unat_less_len [of x] by (simp_all add: unat_gt_0)
  have "unat (- 1 - x) + unat (1 :: 'a word) = 2 ^ LENGTH('a) - unat x"
    unfolding l unat_1 using b by linarith
  then show ?thesis
    unfolding e using b by (subst unat_plus_small) linarith+
qed

lemma word_eq_bits: "x = y \<longleftrightarrow> (\<forall>n < LENGTH('a). bit x n = bit y n)" for x y :: "'a::len word"
  by (auto intro: bit_word_eqI)

lemma and_not_mask: "(x :: 'a::len word) AND NOT (mask n) = push_bit n (drop_bit n x)"
  by (rule bit_eqI) (auto simp: bit_simps)

lemma unat_and_not_mask:
  fixes x :: "'a::len word"
  shows "unat (x AND NOT (mask n)) = unat x - unat x mod 2 ^ n"
proof -
  have e: "x AND NOT (mask n) = x - take_bit n x"
    unfolding and_not_mask using bits_ident [of n x] by (simp add: algebra_simps)
  have t: "unat (take_bit n x) = unat x mod 2 ^ n"
    by (simp only: unsigned_take_bit_eq) (simp only: take_bit_eq_mod)
  have "take_bit n x \<le> x" unfolding word_le_nat_alt t by simp
  then show ?thesis unfolding e by (simp add: unat_minus_small t)
qed

lemma sint_small: "unat (x :: u64) < 2 ^ 63 \<Longrightarrow> sint x = int (unat x)"
proof -
  assume a: "unat x < 2 ^ 63"
  have "sint x = signed_take_bit 63 (uint x)"
    by (simp add: sint_uint)
  also have "\<dots> = uint x"
  proof (rule signed_take_bit_int_eq_self)
    show "- (2 ^ 63) \<le> uint x" by (rule order_trans [OF _ uint_nonnegative]) simp
    have "int (unat x) < int (2 ^ 63)" using a by (subst of_nat_less_iff)
    then show "uint x < 2 ^ 63" by simp
  qed
  finally show ?thesis by simp
qed

lemma sint_pos_iff: "unat (n :: u64) < 2 ^ 63 \<Longrightarrow> 0 < sint n \<longleftrightarrow> n \<noteq> 0"
  by (simp only: sint_small of_nat_0_less_iff unat_gt_0)

lemma sint_nonneg_unat:
  assumes "0 \<le> sint (x :: u64)"
  shows "sint x = int (unat x)" "unat x < 2 ^ 63"
proof -
  have lt: "sint x < 2 ^ 63" using sint_lt [of x] by simp
  have "uint x = sint x"
    using uint_sint [of x] assms lt by (simp add: take_bit_int_eq_self)
  then show eq: "sint x = int (unat x)" by simp
  show "unat x < 2 ^ 63" using lt unfolding eq by (simp only: of_nat_less_numeral_power_cancel_iff)
qed

lemma unat_mult_small:
  "unat (a :: 'a::len word) * unat b < 2 ^ LENGTH('a) \<Longrightarrow> unat (a * b) = unat a * unat b"
  by (simp add: unat_word_ariths)

section \<open>Flat memory\<close>

definition mem_read :: "memory \<Rightarrow> addr \<Rightarrow> nat \<Rightarrow> u8 list" where
  "mem_read m a n = map (\<lambda>i. m (a + of_nat i)) [0..<n]"

fun mem_write :: "memory \<Rightarrow> addr \<Rightarrow> u8 list \<Rightarrow> memory" where
  "mem_write m a [] = m"
| "mem_write m a (b # bs) = mem_write (m(a := b)) (a + 1) bs"

lemma length_mem_read [simp, len_simps]: "length (mem_read m a n) = n"
  by (simp add: mem_read_def)

lemma nth_mem_read [simp]: "i < n \<Longrightarrow> mem_read m a n ! i = m (a + of_nat i)"
  by (simp add: mem_read_def)

lemma mem_write_append:
  "mem_write m a (xs @ ys) = mem_write (mem_write m a xs) (a + of_nat (length xs)) ys"
  by (induction xs arbitrary: m a) (simp_all add: algebra_simps)

text \<open>The value of a byte after a write, by its offset \<open>x - a\<close> from the start of the block.\<close>

lemma mem_write_at:
  assumes "length bs \<le> 2 ^ 64"
  shows "mem_write m a bs x = (if unat (x - a) < length bs then bs ! unat (x - a) else m x)"
  using assms
proof (induction bs arbitrary: m a)
  case Nil
  then show ?case by simp
next
  case (Cons b bs)
  have IH: "mem_write (m(a := b)) (a + 1) bs x =
    (if unat (x - (a + 1)) < length bs then bs ! unat (x - (a + 1)) else (m(a := b)) x)"
    using Cons by simp
  show ?case
  proof (cases "x = a")
    case True
    have "unat (- 1 :: u64) = 2 ^ 64 - 1"
      by (simp add: unsigned_minus_1_eq_mask mask_eq_exp_minus_1)
    then have "\<not> unat (x - (a + 1)) < length bs"
      using True Cons.prems by simp
    then show ?thesis using IH True by simp
  next
    case False
    then have ne: "x - a \<noteq> 0" by simp
    have "unat (x - (a + 1)) = unat (x - a) - 1"
      using ne by (metis diff_diff_eq unat_minus_one)
    moreover have "unat (x - a) > 0"
      using ne by (metis gr0I unat_eq_zero)
    ultimately show ?thesis using IH False
      by (auto simp: nth_Cons split: nat.splits)
  qed
qed

lemma mem_write_outside [mem_simps]:
  "length bs \<le> 2 ^ 64 \<Longrightarrow> length bs \<le> unat (x - a) \<Longrightarrow> mem_write m a bs x = m x"
  by (simp add: mem_write_at)

lemma mem_read_write_same [mem_simps]:
  assumes "length bs \<le> 2 ^ 64"
  shows "mem_read (mem_write m a bs) a (length bs) = bs"
proof (rule nth_equalityI)
  fix i assume "i < length (mem_read (mem_write m a bs) a (length bs))"
  then have "i < length bs" by simp
  moreover from this have "unat (of_nat i :: u64) = i"
    using assms by (intro unat_of_nat_small) simp
  ultimately show "mem_read (mem_write m a bs) a (length bs) ! i = bs ! i"
    using assms by (simp add: mem_write_at)
qed simp

lemma mem_read_Suc: "mem_read m a (Suc n) = m a # mem_read m (a + 1) n"
  unfolding mem_read_def by (subst upt_rec) (simp add: map_Suc_upt [symmetric] comp_def algebra_simps del: upt_Suc map_Suc_upt)

lemma mem_read_add: "mem_read m a (i + j) = mem_read m a i @ mem_read m (a + of_nat i) j"
  by (induction i arbitrary: a) (simp_all add: mem_read_Suc mem_read_def [of _ _ 0] algebra_simps)

text \<open>
  Two regions of the memory that do not meet.  Addresses wrap around, so that each start is outside
  the other region.
\<close>

definition sep :: "addr \<Rightarrow> nat \<Rightarrow> addr \<Rightarrow> nat \<Rightarrow> bool" where
  "sep a n b k \<longleftrightarrow> n = 0 \<or> k = 0 \<or> n \<le> unat (b - a) \<and> k \<le> unat (a - b)"

lemma sep_sym: "sep a n b k \<longleftrightarrow> sep b k a n"
  by (auto simp: sep_def)

lemma sep_offset:
  assumes "sep a n b k" "i < n" "0 < k"
  shows "k \<le> unat (a + of_nat i - b)"
proof -
  have h: "n \<le> unat (b - a)" "k \<le> unat (a - b)" using assms by (auto simp: sep_def)
  have ne: "a - b \<noteq> 0" using h(2) assms(3) by auto
  have "unat (- (a - b)) = 2 ^ 64 - unat (a - b)"
    using unat_neg [OF ne] by simp
  then have "unat (a - b) + i < 2 ^ 64"
    using h(1) assms(2) unat_u64_less [of "a - b"] by simp
  then have "unat ((a - b) + of_nat i) = unat (a - b) + i"
    by (subst unat_plus_small) simp_all
  then show ?thesis using h(2) by (simp add: algebra_simps)
qed

lemma mem_read_write_sep [mem_simps]:
  assumes "sep a n b (length bs)" "length bs \<le> 2 ^ 64"
  shows "mem_read (mem_write m b bs) a n = mem_read m a n"
proof (cases "bs = []")
  case False
  then show ?thesis
    using assms sep_offset [OF assms(1)] by (intro nth_equalityI) (simp_all add: mem_write_outside)
qed simp

lemma mem_read_write_in:
  assumes "i + length bs + r < 2 ^ 64"
  shows "mem_read (mem_write m (a + of_nat i) bs) a (i + length bs + r)
    = mem_read m a i @ bs @ mem_read m (a + of_nat (i + length bs)) r"
proof -
  let ?m = "mem_write m (a + of_nat i) bs" and ?b = "a + of_nat i :: addr" and ?c = "a + of_nat (i + length bs) :: addr"
  have neg: "unat (- (of_nat n) :: u64) = 2 ^ 64 - n" if "n < 2 ^ 64" "0 < n" for n
    using that unat_neg [of "of_nat n :: u64"] by (simp add: unat_eq_0 [symmetric])
  have "sep a i ?b (length bs)"
    using assms neg [of i] by (auto simp: sep_def)
  moreover have "sep ?c r ?b (length bs)"
    using assms neg [of "length bs"] by (cases "bs = []") (auto simp: sep_def)
  ultimately show ?thesis
    using assms by (simp add: mem_read_add mem_read_write_sep mem_read_write_same add.assoc)
qed

lemma mem_write_twice:
  "length bs = length cs \<Longrightarrow> length bs \<le> 2 ^ 64 \<Longrightarrow> mem_write (mem_write m a bs) a cs = mem_write m a cs"
  by (auto simp: mem_write_at)

section \<open>Little-endian integers\<close>

definition le_bytes :: "nat \<Rightarrow> 'a::len word \<Rightarrow> u8 list" where
  "le_bytes n w = map (\<lambda>i. ucast (drop_bit (8 * i) w)) [0..<n]"

fun of_le_bytes :: "u8 list \<Rightarrow> 'a::len word" where
  "of_le_bytes [] = 0"
| "of_le_bytes (b # bs) = ucast b OR push_bit 8 (of_le_bytes bs)"

lemma length_le_bytes [simp, len_simps]: "length (le_bytes n w) = n"
  by (simp add: le_bytes_def)

lemma le_bytes_Suc: "le_bytes (Suc n) w = ucast w # le_bytes n (drop_bit 8 w)"
  unfolding le_bytes_def
  by (subst upt_rec) (simp add: map_Suc_upt [symmetric] add.commute del: upt_Suc map_Suc_upt)

lemma of_le_bytes_le_bytes_take:
  "of_le_bytes (le_bytes n (w :: 'a::len word)) = take_bit (8 * n) w"
proof (induction n arbitrary: w)
  case 0
  then show ?case by (simp add: le_bytes_def)
next
  case (Suc n)
  show ?case
    unfolding le_bytes_Suc of_le_bytes.simps Suc.IH
    by (rule bit_word_eqI) (auto simp: bit_simps not_less)
qed

lemma of_le_bytes_le_bytes [simp, codec_simps]:
  "LENGTH('a) \<le> 8 * n \<Longrightarrow> of_le_bytes (le_bytes n (w :: 'a::len word)) = w"
  by (simp add: of_le_bytes_le_bytes_take take_bit_word_eq_self)

lemma le_bytes_of_le_bytes [codec_simps]:
  assumes "8 * length bs \<le> LENGTH('a)"
  shows "le_bytes (length bs) (of_le_bytes bs :: 'a::len word) = bs"
  using assms
proof (induction bs)
  case Nil
  then show ?case by (simp add: le_bytes_def)
next
  case (Cons b bs)
  have *: "drop_bit 8 (ucast b OR push_bit 8 (of_le_bytes bs) :: 'a word) =
      take_bit (LENGTH('a) - 8) (of_le_bytes bs)"
    by (rule bit_word_eqI) (auto simp: bit_simps dest: bit_imp_le_length)
  have low: "ucast (ucast b OR push_bit 8 (of_le_bytes bs) :: 'a word) = b"
    using Cons.prems by (intro bit_word_eqI) (auto simp: bit_simps)
  have "le_bytes (length bs) (take_bit (LENGTH('a) - 8) (of_le_bytes bs) :: 'a word) =
      le_bytes (length bs) (of_le_bytes bs :: 'a word)"
    unfolding le_bytes_def
  proof (rule map_cong [OF refl])
    fix i assume "i \<in> set [0..<length bs]"
    then show "(ucast (drop_bit (8 * i) (take_bit (LENGTH('a) - 8) (of_le_bytes bs) :: 'a word)) :: u8)
        = ucast (drop_bit (8 * i) (of_le_bytes bs :: 'a word))"
      using Cons.prems by (intro bit_word_eqI) (auto simp: bit_simps)
  qed
  then show ?case using Cons
    by (simp only: list.size add_0_right add_Suc_right le_bytes_Suc of_le_bytes.simps * low) simp
qed

section \<open>Linear search over a table\<close>

text \<open>The loops \<^verbatim>\<open>for (i = 0; i < N; i++) if (P(t[i])) return i; return -1;\<close>.\<close>

fun first_idx :: "('a \<Rightarrow> bool) \<Rightarrow> 'a list \<Rightarrow> nat option" where
  "first_idx P [] = None"
| "first_idx P (x # xs) = (if P x then Some 0 else map_option Suc (first_idx P xs))"

lemma first_idx_None_iff: "first_idx P xs = None \<longleftrightarrow> (\<forall>x \<in> set xs. \<not> P x)"
  by (induction xs) auto

lemma first_idx_Some_iff:
  "first_idx P xs = Some i \<longleftrightarrow> i < length xs \<and> P (xs ! i) \<and> (\<forall>j < i. \<not> P (xs ! j))"
proof (induction xs arbitrary: i)
  case Nil
  then show ?case by simp
next
  case (Cons x xs)
  show ?case
    by (cases i) (auto simp: Cons.IH All_less_Suc2)
qed

lemma first_idx_SomeD:
  "first_idx P xs = Some i \<Longrightarrow> i < length xs"
  "first_idx P xs = Some i \<Longrightarrow> P (xs ! i)"
  by (simp_all add: first_idx_Some_iff)

end
