(* ===== verification/BM_Cstring.thy ===== *)
theory BM_Cstring
  imports BM_Prelude
begin

text \<open>
  The string routines of musl (\<^verbatim>\<open>src/app/musl-1.2.6/src/string\<close>) that the BMFS code calls:
  \<open>strnlen\<close>, \<open>strncmp\<close> and \<open>strchr\<close>. A string is a byte sequence \<open>nat \<Rightarrow> u8\<close>; a string in the
  flat memory is \<open>at m p\<close>. The abstract value of a string read up to \<open>n\<close> bytes is \<open>cstr f n\<close>,
  the bytes before the first NUL.
\<close>

definition at :: "memory \<Rightarrow> addr \<Rightarrow> nat \<Rightarrow> u8" where
  "at m p i = m (p + of_nat i)"

lemma map_at_upt: "map (at m p) [0..<n] = mem_read m p n"
  by (simp add: mem_read_def at_def)

definition cstr :: "(nat \<Rightarrow> u8) \<Rightarrow> nat \<Rightarrow> u8 list" where
  "cstr f n = takeWhile (\<lambda>b. b \<noteq> 0) (map f [0..<n])"

text \<open>\<^verbatim>\<open>strnlen\<close> returns the index \<^verbatim>\<open>memchr(s, 0, n)\<close> finds, or \<open>n\<close>.\<close>

fun strnlen_from :: "(nat \<Rightarrow> u8) \<Rightarrow> nat \<Rightarrow> nat \<Rightarrow> nat" where
  "strnlen_from f i 0 = i"
| "strnlen_from f i (Suc n) = (if f i = 0 then i else strnlen_from f (Suc i) n)"

definition strnlen :: "(nat \<Rightarrow> u8) \<Rightarrow> nat \<Rightarrow> nat" where
  "strnlen f n = strnlen_from f 0 n"

text \<open>\<^verbatim>\<open>strncmp\<close>: the loop after \<^verbatim>\<open>if (!n--) return 0\<close>, then \<^verbatim>\<open>*l - *r\<close>.\<close>

fun strncmp_loop :: "(nat \<Rightarrow> u8) \<Rightarrow> (nat \<Rightarrow> u8) \<Rightarrow> nat \<Rightarrow> nat \<Rightarrow> int" where
  "strncmp_loop l r i 0 = uint (l i) - uint (r i)"
| "strncmp_loop l r i (Suc n) =
     (if l i \<noteq> 0 \<and> r i \<noteq> 0 \<and> l i = r i then strncmp_loop l r (Suc i) n
      else uint (l i) - uint (r i))"

definition strncmp :: "(nat \<Rightarrow> u8) \<Rightarrow> (nat \<Rightarrow> u8) \<Rightarrow> nat \<Rightarrow> int" where
  "strncmp l r n = (if n = 0 then 0 else strncmp_loop l r 0 (n - 1))"

text \<open>
  \<^verbatim>\<open>strchr\<close> scans to the character or the NUL. The scan takes fuel; None is a scan that has
  seen neither. A caller that knows a NUL below \<open>n\<close> gets the same answer with any fuel from
  \<open>n + 1\<close> (lemma \<open>strchr_fuel\<close>).
\<close>

fun strchr_from :: "(nat \<Rightarrow> u8) \<Rightarrow> u8 \<Rightarrow> nat \<Rightarrow> nat \<Rightarrow> nat option option" where
  "strchr_from f c i 0 = None"
| "strchr_from f c i (Suc n) =
     (if f i = c then Some (Some i) else if f i = 0 then Some None else strchr_from f c (Suc i) n)"

definition strchr :: "nat \<Rightarrow> (nat \<Rightarrow> u8) \<Rightarrow> u8 \<Rightarrow> nat option option" where
  "strchr fuel f c = strchr_from f c 0 fuel"

section \<open>What they compute\<close>

lemma cstr_Suc: "cstr f (Suc n) = (if f 0 = 0 then [] else f 0 # cstr (\<lambda>i. f (Suc i)) n)"
  unfolding cstr_def
  by (subst upt_rec) (simp add: map_Suc_upt [symmetric] comp_def del: upt_Suc map_Suc_upt)

lemma cstr_0 [simp]: "cstr f 0 = []"
  by (simp add: cstr_def)

lemma strnlen_from_cstr: "strnlen_from f i n = i + length (cstr (\<lambda>j. f (i + j)) n)"
  by (induction n arbitrary: i) (simp_all add: cstr_Suc)

lemma strnlen_cstr: "strnlen f n = length (cstr f n)"
  by (simp add: strnlen_def strnlen_from_cstr)

lemma length_cstr_le: "length (cstr f n) \<le> n"
  unfolding cstr_def using length_takeWhile_le [of _ "map f [0..<n]"] by simp

lemma cstr_take: "cstr f n = map f [0..<length (cstr f n)]"
proof -
  have "cstr f n = take (length (cstr f n)) (map f [0..<n])"
    unfolding cstr_def by (simp add: takeWhile_eq_take [symmetric] flip: takeWhile_eq_take)
  then show ?thesis
    using length_cstr_le [of f n] by (simp add: take_map)
qed

lemma cstr_nonzero: "0 \<notin> set (cstr f n)"
  unfolding cstr_def using set_takeWhileD by fastforce

lemma cstr_end: "length (cstr f n) < n \<Longrightarrow> f (length (cstr f n)) = 0"
  unfolding cstr_def
  using nth_length_takeWhile [of "\<lambda>b. b \<noteq> 0" "map f [0..<n]"] by simp

lemma byte_eq_iffs: "uint (a :: u8) = uint b \<longleftrightarrow> a = b" "uint a = 0 \<longleftrightarrow> a = 0"
  by (simp_all add: word_uint_eq_iff)

lemma strncmp_loop_0_iff:
  "strncmp_loop l r i n = 0 \<longleftrightarrow> cstr (\<lambda>j. l (i + j)) (Suc n) = cstr (\<lambda>j. r (i + j)) (Suc n)"
proof (induction n arbitrary: i)
  case 0
  then show ?case
    by (auto simp: cstr_Suc byte_eq_iffs)
next
  case (Suc n)
  have "cstr (\<lambda>j. f (i + j)) (Suc (Suc n)) =
      (if f i = 0 then [] else f i # cstr (\<lambda>j. f (Suc i + j)) (Suc n))" for f :: "nat \<Rightarrow> u8"
    by (subst cstr_Suc) simp
  then show ?case using Suc.IH [of "Suc i"] by (auto simp: byte_eq_iffs)
qed

text \<open>\<^verbatim>\<open>strncmp(l, r, n) == 0\<close> is equality of the two strings cut at \<open>n\<close>.\<close>

lemma strncmp_0_iff: "strncmp l r n = 0 \<longleftrightarrow> cstr l n = cstr r n"
  by (cases n) (simp_all add: strncmp_def strncmp_loop_0_iff [where i = 0, simplified])

lemma strchr_from_terminated:
  "k < n \<Longrightarrow> f (i + k) = 0 \<Longrightarrow> \<forall>j < k. f (i + j) \<noteq> 0 \<Longrightarrow> c \<noteq> 0 \<Longrightarrow>
    strchr_from f c i n =
      Some (map_option (\<lambda>j. i + j) (first_idx (\<lambda>b. b = c) (map (\<lambda>j. f (i + j)) [0..<k])))"
proof (induction n arbitrary: i k)
  case 0
  then show ?case by simp
next
  case (Suc n)
  show ?case
  proof (cases k)
    case 0
    then show ?thesis using Suc.prems by simp
  next
    case (Suc k')
    have nz: "f i \<noteq> 0" using Suc.prems(3) Suc by force
    have IH: "strchr_from f c (Suc i) n =
      Some (map_option (\<lambda>j. Suc i + j) (first_idx (\<lambda>b. b = c) (map (\<lambda>j. f (Suc i + j)) [0..<k'])))"
      using Suc.prems Suc by (intro Suc.IH) auto
    have "map (\<lambda>j. f (i + j)) [0..<Suc k'] = f i # map (\<lambda>j. f (Suc i + j)) [0..<k']"
      by (subst upt_rec) (simp add: map_Suc_upt [symmetric] comp_def del: upt_Suc map_Suc_upt)
    then show ?thesis
      using IH nz Suc by (simp add: option.map_comp comp_def del: upt_Suc)
  qed
qed

lemma strchr_terminated:
  assumes "length (cstr f n) < n" and "n \<le> fuel" and "c \<noteq> 0"
  shows "strchr fuel f c = Some (first_idx (\<lambda>b. b = c) (cstr f n))"
proof -
  let ?k = "length (cstr f n)"
  have "\<forall>j < ?k. f j \<noteq> 0"
    using cstr_nonzero [of f n] cstr_take [of f n]
    by (metis (no_types, lifting) add_0 diff_zero length_upt nth_map nth_mem nth_upt)
  then have "strchr fuel f c =
      Some (map_option (\<lambda>j. 0 + j) (first_idx (\<lambda>b. b = c) (map (\<lambda>j. f (0 + j)) [0..<?k])))"
    unfolding strchr_def using assms cstr_end [OF assms(1)]
    by (intro strchr_from_terminated) auto
  also have "map (\<lambda>j. f (0 + j)) [0..<?k] = cstr f n"
    using cstr_take [of f n] by simp
  finally show ?thesis by (simp add: option.map_ident)
qed

lemma strchr_fuel:
  "length (cstr f n) < n \<Longrightarrow> n \<le> fuel \<Longrightarrow> c \<noteq> 0 \<Longrightarrow> strchr fuel f c = strchr n f c"
  by (simp add: strchr_terminated)

text \<open>Two strings stored in a field of \<open>n\<close> bytes and padded with NULs.\<close>

lemma cstr_nth_pad:
  assumes "0 \<notin> set s" and "length s \<le> n"
  shows "cstr (\<lambda>i. (s @ replicate (n - length s) 0) ! i) n = s"
proof -
  have "map (\<lambda>i. (s @ replicate (n - length s) 0) ! i) [0..<n] = s @ replicate (n - length s) 0"
    using assms by (intro nth_equalityI) auto
  then show ?thesis
    using assms unfolding cstr_def by (simp add: takeWhile_append)
qed

end
