(* ===== verification/BM_Kernel.thy ===== *)
theory BM_Kernel
  imports BM_Prelude
begin

text \<open>
  The BareMetal kernel as the application sees it (\<^verbatim>\<open>src/app/libBareMetal.h\<close> and
  \<^verbatim>\<open>libBareMetal.c\<close>). The kernel itself is not part of the repository: it is reached by calls
  through the fixed table at \<^verbatim>\<open>0x00100010\<close>. It is a parameter, a record of functions on an
  opaque kernel state \<open>'k\<close>, and what the port relies on is stated as the predicates
  \<open>nvs_ok\<close> (storage). A small simulated kernel shows that they can hold.
\<close>

section \<open>The call table\<close>

record 'k kernel =
  k_input :: "'k \<Rightarrow> u8 \<times> 'k"
  k_output :: "u8 list \<Rightarrow> 'k \<Rightarrow> 'k"
  k_net_tx :: "u8 list \<Rightarrow> u64 \<Rightarrow> 'k \<Rightarrow> 'k"
  k_net_rx :: "u64 \<Rightarrow> 'k \<Rightarrow> u8 list \<times> 'k"
  k_nvs_read :: "u64 \<Rightarrow> u64 \<Rightarrow> u64 \<Rightarrow> 'k \<Rightarrow> u8 list \<times> u64 \<times> 'k"
  k_nvs_write :: "u8 list \<Rightarrow> u64 \<Rightarrow> u64 \<Rightarrow> u64 \<Rightarrow> 'k \<Rightarrow> u64 \<times> 'k"
  k_system :: "u64 \<Rightarrow> u64 \<Rightarrow> u64 \<Rightarrow> 'k \<Rightarrow> u64 \<times> 'k"

text \<open>The machine: flat memory and kernel state. Every component extends this record.\<close>

record 'k machine =
  mem :: memory
  kern :: 'k

text \<open>Function codes of \<^verbatim>\<open>b_system\<close>.\<close>

definition TIMECOUNTER :: u64 where "TIMECOUNTER = 0x00"
definition FREE_MEMORY :: u64 where "FREE_MEMORY = 0x01"
definition WALLCLOCK :: u64 where "WALLCLOCK = 0x02"
definition NET_STATUS :: u64 where "NET_STATUS = 0x30"
definition SHUTDOWN :: u64 where "SHUTDOWN = 0x7F"

lemmas system_codes = TIMECOUNTER_def FREE_MEMORY_def WALLCLOCK_def NET_STATUS_def SHUTDOWN_def

section \<open>The wrappers\<close>

definition b_input :: "'k kernel \<Rightarrow> ('k, 'z) machine_scheme \<Rightarrow> u8 \<times> ('k, 'z) machine_scheme" where
  "b_input K s = (let (c, k) = k_input K (kern s) in (c, s\<lparr>kern := k\<rparr>))"

definition b_output :: "'k kernel \<Rightarrow> addr \<Rightarrow> u64 \<Rightarrow> ('k, 'z) machine_scheme \<Rightarrow> ('k, 'z) machine_scheme" where
  "b_output K str nbr s = s\<lparr>kern := k_output K (mem_read (mem s) str (unat nbr)) (kern s)\<rparr>"

text \<open>The frame buffer of \<^verbatim>\<open>b_net_tx\<close> and the data of the storage calls are C objects of the
  caller (a static buffer or a table), passed as their bytes.\<close>

definition b_net_tx :: "'k kernel \<Rightarrow> u8 list \<Rightarrow> u64 \<Rightarrow> ('k, 'z) machine_scheme \<Rightarrow> ('k, 'z) machine_scheme" where
  "b_net_tx K frame iid s = s\<lparr>kern := k_net_tx K frame iid (kern s)\<rparr>"

definition b_net_rx :: "'k kernel \<Rightarrow> u64 \<Rightarrow> ('k, 'z) machine_scheme \<Rightarrow> u8 list \<times> ('k, 'z) machine_scheme" where
  "b_net_rx K iid s = (let (f, k) = k_net_rx K iid (kern s) in (f, s\<lparr>kern := k\<rparr>))"

definition b_nvs_read :: "'k kernel \<Rightarrow> u64 \<Rightarrow> u64 \<Rightarrow> u64 \<Rightarrow> ('k, 'z) machine_scheme \<Rightarrow> u8 list \<times> u64 \<times> ('k, 'z) machine_scheme" where
  "b_nvs_read K start num drv s =
     (let (d, n, k) = k_nvs_read K start num drv (kern s) in (d, n, s\<lparr>kern := k\<rparr>))"

definition b_nvs_write :: "'k kernel \<Rightarrow> u8 list \<Rightarrow> u64 \<Rightarrow> u64 \<Rightarrow> u64 \<Rightarrow> ('k, 'z) machine_scheme \<Rightarrow> u64 \<times> ('k, 'z) machine_scheme" where
  "b_nvs_write K d start num drv s =
     (let (n, k) = k_nvs_write K d start num drv (kern s) in (n, s\<lparr>kern := k\<rparr>))"

definition b_system :: "'k kernel \<Rightarrow> u64 \<Rightarrow> u64 \<Rightarrow> u64 \<Rightarrow> ('k, 'z) machine_scheme \<Rightarrow> u64 \<times> ('k, 'z) machine_scheme" where
  "b_system K f v1 v2 s = (let (r, k) = k_system K f v1 v2 (kern s) in (r, s\<lparr>kern := k\<rparr>))"

text \<open>What a device read leaves in a buffer: the bytes delivered, then what was there.\<close>

definition overlay :: "'a list \<Rightarrow> 'a list \<Rightarrow> 'a list" where
  "overlay old new = new @ drop (length new) old"

lemma overlay_full [simp]: "length new = length old \<Longrightarrow> overlay old new = new"
  by (simp add: overlay_def)

lemma length_overlay: "length new \<le> length old \<Longrightarrow> length (overlay old new) = length old"
  by (simp add: overlay_def)

section \<open>What the port relies on\<close>

text \<open>
  Storage: drive 0 is an array of \<open>nsec\<close> sectors of 4096 bytes (at most \<open>2 ^ 51\<close>, so that a byte
  position fits a 64-bit \<^verbatim>\<open>long\<close>); \<open>sec k n\<close> is the content of
  sector \<open>n\<close> in the kernel state \<open>k\<close>. A one-sector read delivers that content and leaves every
  sector as it was; a one-sector write replaces that sector and no other.
\<close>

definition nvs_ok :: "'k kernel \<Rightarrow> ('k \<Rightarrow> u64 \<Rightarrow> u8 list) \<Rightarrow> nat \<Rightarrow> bool" where
  "nvs_ok K sec nsec \<longleftrightarrow> nsec \<le> 2 ^ 51 \<and>
     (\<forall>k n. unat n < nsec \<longrightarrow> length (sec k n) = 4096) \<and>
     (\<forall>k n. unat n < nsec \<longrightarrow> fst (k_nvs_read K n 1 0 k) = sec k n) \<and>
     (\<forall>k n. unat n < nsec \<longrightarrow> sec (snd (snd (k_nvs_read K n 1 0 k))) = sec k) \<and>
     (\<forall>k n d. unat n < nsec \<longrightarrow> length d = 4096 \<longrightarrow>
        sec (snd (k_nvs_write K d n 1 0 k)) = (sec k)(n := d))"

lemma nvs_ok_length: "nvs_ok K sec nsec \<Longrightarrow> unat n < nsec \<Longrightarrow> length (sec k n) = 4096"
  by (simp add: nvs_ok_def)

lemma b_nvs_read_ok:
  assumes "nvs_ok K sec nsec" and "unat n < nsec" and "b_nvs_read K n 1 0 s = (d, r, s')"
  shows "d = sec (kern s) n" "length d = 4096" "sec (kern s') = sec (kern s)"
    "s' = s\<lparr>kern := kern s'\<rparr>"
  using assms by (auto simp: b_nvs_read_def nvs_ok_def split: prod.splits)
    (metis fst_conv snd_conv)+

lemma b_nvs_write_ok:
  assumes "nvs_ok K sec nsec" and "unat n < nsec" and "length d = 4096"
    and "b_nvs_write K d n 1 0 s = (r, s')"
  shows "sec (kern s') = (sec (kern s))(n := d)" "s' = s\<lparr>kern := kern s'\<rparr>"
  using assms by (auto simp: b_nvs_write_def nvs_ok_def split: prod.splits)
    (metis snd_conv)+

section \<open>A simulated kernel\<close>

text \<open>It satisfies the laws above, and serves the witnesses.\<close>

record sim =
  sim_sec :: "u64 \<Rightarrow> u8 list"
  sim_in :: "u8 list"
  sim_out :: "u8 list"
  sim_clock :: u64
  sim_tick :: u64
  sim_rx :: "u8 list list"
  sim_tx :: "u8 list list"

text \<open>The sectors of the simulated disk, padded or cut to 4096 bytes.\<close>

definition sim_view :: "sim \<Rightarrow> u64 \<Rightarrow> u8 list" where
  "sim_view k n = take 4096 (sim_sec k n @ replicate 4096 0)"

definition sim_kernel :: "sim kernel" where
  "sim_kernel = \<lparr>
     k_input = (\<lambda>k. case sim_in k of [] \<Rightarrow> (0, k) | c # cs \<Rightarrow> (c, k\<lparr>sim_in := cs\<rparr>)),
     k_output = (\<lambda>bs k. k\<lparr>sim_out := sim_out k @ bs\<rparr>),
     k_net_tx = (\<lambda>f iid k. k\<lparr>sim_tx := sim_tx k @ [f]\<rparr>),
     k_net_rx = (\<lambda>iid k. case sim_rx k of [] \<Rightarrow> ([], k) | f # fs \<Rightarrow> (f, k\<lparr>sim_rx := fs\<rparr>)),
     k_nvs_read = (\<lambda>n num drv k. (sim_view k n, num, k)),
     k_nvs_write = (\<lambda>d n num drv k. (num, k\<lparr>sim_sec := (sim_sec k)(n := d)\<rparr>)),
     k_system = (\<lambda>f v1 v2 k.
       if f = TIMECOUNTER then (sim_clock k, k\<lparr>sim_clock := sim_clock k + sim_tick k\<rparr>)
       else if f = FREE_MEMORY then (2, k)
       else if f = WALLCLOCK then (1700000000, k)
       else if f = NET_STATUS then (0x0011223344556677, k)
       else (0, k))\<rparr>"

definition sim_blank :: sim where
  "sim_blank = \<lparr>sim_sec = (\<lambda>_. replicate 4096 0), sim_in = [], sim_out = [],
     sim_clock = 0, sim_tick = 0, sim_rx = [], sim_tx = []\<rparr>"

lemma sim_view_blank: "sim_view sim_blank = (\<lambda>_. replicate 4096 0)"
  by (rule ext) (simp add: sim_view_def sim_blank_def)

lemma sim_nvs_ok: "nsec \<le> 2 ^ 51 \<Longrightarrow> nvs_ok sim_kernel sim_view nsec"
  unfolding nvs_ok_def by (auto simp: sim_kernel_def sim_view_def fun_eq_iff)

end
