(* ===== verification/BM_Bmfs.thy ===== *)
theory BM_Bmfs
  imports BM_Cstring BM_Kernel
begin

text \<open>
  BMFS, the flat file system of \<^verbatim>\<open>src/app/bmfs.c\<close>: the on-disk directory (64 entries of 64
  bytes in sector 1), the table of 8 open files, and the operations \<open>open\<close>, \<open>read\<close>,
  \<open>write\<close>, \<open>close\<close>, \<open>lseek\<close>, \<open>fstat\<close>, \<open>fstatat\<close> and \<open>unlink\<close> over the kernel's one-sector
  reads and writes. This theory holds the model; its properties are in the theories
  \<open>BM_Bmfs_Codec\<close>, \<open>BM_Bmfs_IO\<close> and \<open>BM_Bmfs_Dir\<close>.
\<close>

section \<open>Error numbers and open flags\<close>

abbreviation (input) ENOENT :: u64 where "ENOENT \<equiv> 2"
abbreviation (input) EEXIST :: u64 where "EEXIST \<equiv> 17"
abbreviation (input) EINVAL :: u64 where "EINVAL \<equiv> 22"
abbreviation (input) EMFILE :: u64 where "EMFILE \<equiv> 24"
abbreviation (input) ENOSPC :: u64 where "ENOSPC \<equiv> 28"

abbreviation (input) O_CREAT :: u32 where "O_CREAT \<equiv> 0x40"
abbreviation (input) O_EXCL :: u32 where "O_EXCL \<equiv> 0x80"
abbreviation (input) O_TRUNC :: u32 where "O_TRUNC \<equiv> 0x200"
abbreviation (input) O_APPEND :: u32 where "O_APPEND \<equiv> 0x400"

section \<open>Constants and data\<close>

definition BMFS_DRIVE :: u64 where "BMFS_DRIVE = 0"
definition BMFS_SECTOR_BYTES :: u64 where "BMFS_SECTOR_BYTES = 4096"
definition BMFS_BLOCK_SECTORS :: u64 where "BMFS_BLOCK_SECTORS = 512"
definition BMFS_BLOCK_BYTES :: u64 where "BMFS_BLOCK_BYTES = BMFS_BLOCK_SECTORS * BMFS_SECTOR_BYTES"
definition BMFS_DIR_SECTOR :: u64 where "BMFS_DIR_SECTOR = 1"
definition BMFS_DIR_ENTRIES :: nat where "BMFS_DIR_ENTRIES = 64"
definition BMFS_FIRST_DATA_BLOCK :: u64 where "BMFS_FIRST_DATA_BLOCK = 1"
definition BMFS_DEFAULT_BLOCKS :: u64 where "BMFS_DEFAULT_BLOCKS = 1"
definition BMFS_FD_BASE :: u64 where "BMFS_FD_BASE = 3"
definition BMFS_MAX_OPEN :: nat where "BMFS_MAX_OPEN = 8"

lemmas bmfs_consts = BMFS_DRIVE_def BMFS_SECTOR_BYTES_def BMFS_BLOCK_SECTORS_def
  BMFS_BLOCK_BYTES_def BMFS_DIR_SECTOR_def BMFS_DIR_ENTRIES_def BMFS_FIRST_DATA_BLOCK_def
  BMFS_DEFAULT_BLOCKS_def BMFS_FD_BASE_def BMFS_MAX_OPEN_def

record bmfs_dirent =
  d_name :: "u8 list"
  d_start_block :: u64
  d_reserved_blocks :: u64
  d_size :: u64
  d_unused :: u64

record bmfs_file =
  f_used :: bool
  f_dirty :: bool
  f_append :: bool
  f_dir_index :: nat
  f_start_block :: u64
  f_reserved_blocks :: u64
  f_size :: u64
  f_pos :: u64

record 'k bmfs = "'k machine" +
  dir :: "bmfs_dirent list"
  dir_loaded :: bool
  files :: "bmfs_file list"
  scratch :: "u8 list"

text \<open>The layout of a directory entry and of the directory sector.\<close>

definition encode_dirent :: "bmfs_dirent \<Rightarrow> u8 list" where
  "encode_dirent e = d_name e @ le_bytes 8 (d_start_block e) @ le_bytes 8 (d_reserved_blocks e) @
     le_bytes 8 (d_size e) @ le_bytes 8 (d_unused e)"

definition decode_dirent :: "u8 list \<Rightarrow> bmfs_dirent" where
  "decode_dirent bs = \<lparr>d_name = take 32 bs,
     d_start_block = of_le_bytes (take 8 (drop 32 bs)),
     d_reserved_blocks = of_le_bytes (take 8 (drop 40 bs)),
     d_size = of_le_bytes (take 8 (drop 48 bs)),
     d_unused = of_le_bytes (take 8 (drop 56 bs))\<rparr>"

definition encode_dir :: "bmfs_dirent list \<Rightarrow> u8 list" where
  "encode_dir es = concat (map encode_dirent es)"

definition decode_dir :: "u8 list \<Rightarrow> bmfs_dirent list" where
  "decode_dir bs = map (\<lambda>i. decode_dirent (take 64 (drop (64 * i) bs))) [0..<BMFS_DIR_ENTRIES]"

text \<open>An entry all of whose bytes are zero (\<^verbatim>\<open>memset(e, 0, sizeof(*e))\<close>).\<close>

definition empty_dirent :: bmfs_dirent where
  "empty_dirent = \<lparr>d_name = replicate 32 0, d_start_block = 0, d_reserved_blocks = 0,
     d_size = 0, d_unused = 0\<rparr>"

section \<open>The directory\<close>

definition dir_load :: "'k kernel \<Rightarrow> ('k, 'z) bmfs_scheme \<Rightarrow> ('k, 'z) bmfs_scheme" where
  "dir_load K s =
     (if dir_loaded s then s
      else let (d, _, s1) = b_nvs_read K BMFS_DIR_SECTOR 1 BMFS_DRIVE s
           in s1\<lparr>dir := decode_dir (overlay (encode_dir (dir s1)) d), dir_loaded := True\<rparr>)"

definition dir_flush :: "'k kernel \<Rightarrow> ('k, 'z) bmfs_scheme \<Rightarrow> ('k, 'z) bmfs_scheme" where
  "dir_flush K s = snd (b_nvs_write K (encode_dir (dir s)) BMFS_DIR_SECTOR 1 BMFS_DRIVE s)"

text \<open>A directory entry is in use when its name does not start with a NUL.\<close>

definition d_live :: "bmfs_dirent \<Rightarrow> bool" where
  "d_live e \<longleftrightarrow> d_name e ! 0 \<noteq> 0"

definition dir_find :: "bmfs_dirent list \<Rightarrow> (nat \<Rightarrow> u8) \<Rightarrow> nat option" where
  "dir_find d name = first_idx (\<lambda>e. d_live e \<and> strncmp (\<lambda>i. d_name e ! i) name 32 = 0) d"

definition dir_find_free_slot :: "bmfs_dirent list \<Rightarrow> nat option" where
  "dir_find_free_slot d = first_idx (\<lambda>e. d_name e ! 0 = 0) d"

fun next_free_loop :: "bmfs_dirent list \<Rightarrow> u64 \<Rightarrow> u64" where
  "next_free_loop [] nxt = nxt"
| "next_free_loop (e # es) nxt =
     (if d_name e ! 0 = 0 then next_free_loop es nxt
      else let end = d_start_block e + d_reserved_blocks e
           in next_free_loop es (if nxt < end then end else nxt))"

definition dir_next_free_block :: "bmfs_dirent list \<Rightarrow> u64" where
  "dir_next_free_block d = next_free_loop d BMFS_FIRST_DATA_BLOCK"

definition bmfs_name :: "memory \<Rightarrow> addr \<Rightarrow> addr" where
  "bmfs_name m path = (if m path = 0x2F then path + 1 else path)"

section \<open>Descriptors\<close>

definition bmfs_is_fd :: "slong \<Rightarrow> ('k, 'z) bmfs_scheme \<Rightarrow> bool" where
  "bmfs_is_fd fd s \<longleftrightarrow> sint BMFS_FD_BASE \<le> sint fd \<and> sint fd < sint BMFS_FD_BASE + int BMFS_MAX_OPEN \<and>
     f_used (files s ! unat (fd - BMFS_FD_BASE))"

text \<open>
  The operations index the table with \<^verbatim>\<open>fd - BMFS_FD_BASE\<close> without a check; None is an access
  outside the table, which C leaves undefined.
\<close>

definition fd_index :: "slong \<Rightarrow> nat option" where
  "fd_index fd = (if unat (fd - BMFS_FD_BASE) < BMFS_MAX_OPEN then Some (unat (fd - BMFS_FD_BASE)) else None)"

definition upd_file :: "nat \<Rightarrow> (bmfs_file \<Rightarrow> bmfs_file) \<Rightarrow> ('k, 'z) bmfs_scheme \<Rightarrow> ('k, 'z) bmfs_scheme" where
  "upd_file i g s = s\<lparr>files := (files s)[i := g (files s ! i)]\<rparr>"

section \<open>open\<close>

text \<open>The entry written for a new file, and the table slot filled at the end of \<open>open\<close>.\<close>

definition new_dirent :: "memory \<Rightarrow> addr \<Rightarrow> nat \<Rightarrow> bmfs_dirent list \<Rightarrow> bmfs_dirent" where
  "new_dirent m name len d = \<lparr>d_name = mem_read m name len @ replicate (32 - len) 0,
     d_start_block = dir_next_free_block d, d_reserved_blocks = BMFS_DEFAULT_BLOCKS,
     d_size = 0, d_unused = 0\<rparr>"

definition open_file :: "u32 \<Rightarrow> nat \<Rightarrow> bmfs_dirent \<Rightarrow> bmfs_file" where
  "open_file flags di e =
     (let app = (flags AND O_APPEND \<noteq> 0) in
      \<lparr>f_used = True, f_dirty = False, f_append = app, f_dir_index = di,
       f_start_block = d_start_block e, f_reserved_blocks = d_reserved_blocks e,
       f_size = d_size e, f_pos = (if app then d_size e else 0)\<rparr>)"

definition open_entry :: "'k kernel \<Rightarrow> u32 \<Rightarrow> nat \<Rightarrow> nat \<Rightarrow> ('k, 'z) bmfs_scheme \<Rightarrow> slong \<times> ('k, 'z) bmfs_scheme" where
  "open_entry K flags slot di s =
     (let s1 = (if flags AND O_TRUNC \<noteq> 0
                then dir_flush K (s\<lparr>dir := (dir s)[di := (dir s ! di)\<lparr>d_size := 0\<rparr>]\<rparr>) else s)
      in (BMFS_FD_BASE + of_nat slot,
          s1\<lparr>files := (files s1)[slot := open_file flags di (dir s1 ! di)]\<rparr>))"

text \<open>
  While the new entry is filled in, its name is already in place when \<open>dir_next_free_block\<close>
  runs, with start block and reservation still 0: it contributes the end \<open>0\<close>.
\<close>

definition bmfs_open :: "'k kernel \<Rightarrow> addr \<Rightarrow> u32 \<Rightarrow> u32 \<Rightarrow> ('k, 'z) bmfs_scheme \<Rightarrow> slong \<times> ('k, 'z) bmfs_scheme" where
  "bmfs_open K path flags mode s =
     (let name = bmfs_name (mem s) path;
          len = strnlen (at (mem s) name) 32
      in if len = 0 \<or> len \<ge> 32 \<or> strchr 32 (at (mem s) name) 0x2F \<noteq> Some None then (- ENOENT, s)
      else let s1 = dir_load K s
      in case first_idx (\<lambda>f. \<not> f_used f) (files s1) of
        None \<Rightarrow> (- EMFILE, s1)
      | Some slot \<Rightarrow>
          (case dir_find (dir s1) (at (mem s1) name) of
            None \<Rightarrow>
              if flags AND O_CREAT = 0 then (- ENOENT, s1)
              else (case dir_find_free_slot (dir s1) of
                None \<Rightarrow> (- ENOSPC, s1)
              | Some di \<Rightarrow>
                  let d0 = (dir s1)[di := empty_dirent\<lparr>d_name := mem_read (mem s1) name len @ replicate (32 - len) 0\<rparr>];
                      s2 = dir_flush K (s1\<lparr>dir := d0[di := new_dirent (mem s1) name len d0]\<rparr>)
                  in open_entry K flags slot di s2)
          | Some di \<Rightarrow>
              if flags AND O_CREAT \<noteq> 0 \<and> flags AND O_EXCL \<noteq> 0 then (- EEXIST, s1)
              else open_entry K flags slot di s1))"

section \<open>Reading and writing\<close>

text \<open>The bytes moved in one turn of either loop: up to the end of the sector.\<close>

definition io_chunk :: "u64 \<Rightarrow> u64 \<Rightarrow> u64" where
  "io_chunk base remaining =
     (let chunk = BMFS_SECTOR_BYTES - base mod BMFS_SECTOR_BYTES
      in if remaining < chunk then remaining else chunk)"

lemma io_chunk_unat:
  "unat (io_chunk base r) = min (4096 - unat base mod 4096) (unat r)"
proof -
  have le: "base mod 4096 \<le> 4096"
    by (simp add: word_le_nat_alt unat_mod)
  have "unat (4096 - base mod 4096) = 4096 - unat base mod 4096"
    using unat_minus_small [OF le] by (simp add: unat_mod)
  then show ?thesis
    by (auto simp: io_chunk_def bmfs_consts Let_def word_less_nat_alt min_def)
qed

lemma io_chunk_le: "io_chunk base r \<le> r"
  by (simp add: word_le_nat_alt io_chunk_unat)

lemma io_chunk_pos: "r \<noteq> 0 \<Longrightarrow> 0 < unat (io_chunk base r)"
  using mod_less_divisor [of 4096 "unat base"] by (simp add: io_chunk_unat unat_gt_0)

function pread_loop :: "'k kernel \<Rightarrow> addr \<Rightarrow> u64 \<Rightarrow> u64 \<Rightarrow> ('k, 'z) bmfs_scheme \<Rightarrow> ('k, 'z) bmfs_scheme" where
  "pread_loop K dst base remaining s =
     (if remaining = 0 then s
      else let sector = base div BMFS_SECTOR_BYTES;
               sector_off = base mod BMFS_SECTOR_BYTES;
               chunk = io_chunk base remaining;
               (d, _, s1) = b_nvs_read K sector 1 BMFS_DRIVE s;
               s2 = s1\<lparr>scratch := overlay (scratch s1) d\<rparr>;
               s3 = s2\<lparr>mem := mem_write (mem s2) dst
                         (take (unat chunk) (drop (unat sector_off) (scratch s2)))\<rparr>
           in pread_loop K (dst + chunk) (base + chunk) (remaining - chunk) s3)"
  by pat_completeness auto
termination
  by (relation "measure (\<lambda>(K, dst, base, remaining, s). unat remaining)")
    (use io_chunk_pos io_chunk_le in \<open>auto simp: unat_minus_small unat_gt_0\<close>)

function pwrite_loop :: "'k kernel \<Rightarrow> addr \<Rightarrow> u64 \<Rightarrow> u64 \<Rightarrow> ('k, 'z) bmfs_scheme \<Rightarrow> ('k, 'z) bmfs_scheme" where
  "pwrite_loop K src base remaining s =
     (if remaining = 0 then s
      else let sector = base div BMFS_SECTOR_BYTES;
               sector_off = base mod BMFS_SECTOR_BYTES;
               chunk = io_chunk base remaining;
               s1 = (if chunk < BMFS_SECTOR_BYTES
                     then let (d, _, s') = b_nvs_read K sector 1 BMFS_DRIVE s
                          in s'\<lparr>scratch := overlay (scratch s') d\<rparr>
                     else s);
               data = mem_read (mem s1) src (unat chunk);
               s2 = s1\<lparr>scratch := take (unat sector_off) (scratch s1) @ data @
                          drop (unat sector_off + unat chunk) (scratch s1)\<rparr>;
               s3 = snd (b_nvs_write K (scratch s2) sector 1 BMFS_DRIVE s2)
           in pwrite_loop K (src + chunk) (base + chunk) (remaining - chunk) s3)"
  by pat_completeness auto
termination
  by (relation "measure (\<lambda>(K, src, base, remaining, s). unat remaining)")
    (use io_chunk_pos io_chunk_le in \<open>auto simp: unat_minus_small unat_gt_0\<close>)

declare pread_loop.simps [simp del] pwrite_loop.simps [simp del]

definition bmfs_pread :: "'k kernel \<Rightarrow> nat \<Rightarrow> addr \<Rightarrow> u64 \<Rightarrow> u64 \<Rightarrow> ('k, 'z) bmfs_scheme \<Rightarrow> slong \<times> ('k, 'z) bmfs_scheme" where
  "bmfs_pread K i buf len off s =
     (let f = files s ! i
      in if f_size f \<le> off then (0, s)
         else let len' = (if f_size f < off + len then f_size f - off else len)
              in (len', pread_loop K buf (f_start_block f * BMFS_BLOCK_BYTES + off) len' s))"

definition bmfs_pwrite :: "'k kernel \<Rightarrow> nat \<Rightarrow> addr \<Rightarrow> u64 \<Rightarrow> u64 \<Rightarrow> ('k, 'z) bmfs_scheme \<Rightarrow> slong \<times> ('k, 'z) bmfs_scheme" where
  "bmfs_pwrite K i buf len off s =
     (let f = files s ! i;
          cap = f_reserved_blocks f * BMFS_BLOCK_BYTES
      in if cap \<le> off then (- ENOSPC, s)
         else let len' = (if cap < off + len then cap - off else len)
         in if len' = 0 then (- ENOSPC, s)
         else let s1 = pwrite_loop K buf (f_start_block f * BMFS_BLOCK_BYTES + off) len' s;
                  s2 = (if f_size f < off + len'
                        then upd_file i (\<lambda>f. f\<lparr>f_size := off + len', f_dirty := True\<rparr>) s1 else s1)
         in (len', s2))"

text \<open>\<^verbatim>\<open>if (n > 0) f->pos += n\<close>.\<close>

definition advance :: "nat \<Rightarrow> slong \<Rightarrow> ('k, 'z) bmfs_scheme \<Rightarrow> ('k, 'z) bmfs_scheme" where
  "advance i n s = (if 0 < sint n then upd_file i (\<lambda>f. f\<lparr>f_pos := f_pos f + n\<rparr>) s else s)"

definition bmfs_read :: "'k kernel \<Rightarrow> slong \<Rightarrow> addr \<Rightarrow> u64 \<Rightarrow> ('k, 'z) bmfs_scheme \<Rightarrow> (slong \<times> ('k, 'z) bmfs_scheme) option" where
  "bmfs_read K fd buf len s =
     (case fd_index fd of None \<Rightarrow> None
      | Some i \<Rightarrow> let (n, s1) = bmfs_pread K i buf len (f_pos (files s ! i)) s
                  in Some (n, advance i n s1))"

definition bmfs_write :: "'k kernel \<Rightarrow> slong \<Rightarrow> addr \<Rightarrow> u64 \<Rightarrow> ('k, 'z) bmfs_scheme \<Rightarrow> (slong \<times> ('k, 'z) bmfs_scheme) option" where
  "bmfs_write K fd buf len s =
     (case fd_index fd of None \<Rightarrow> None
      | Some i \<Rightarrow>
          let s0 = (if f_append (files s ! i)
                    then upd_file i (\<lambda>f. f\<lparr>f_pos := f_size f\<rparr>) s else s);
              (n, s1) = bmfs_pwrite K i buf len (f_pos (files s0 ! i)) s0
          in Some (n, advance i n s1))"

section \<open>close, lseek, stat, unlink\<close>

definition bmfs_close :: "'k kernel \<Rightarrow> slong \<Rightarrow> ('k, 'z) bmfs_scheme \<Rightarrow> (slong \<times> ('k, 'z) bmfs_scheme) option" where
  "bmfs_close K fd s =
     (case fd_index fd of None \<Rightarrow> None
      | Some i \<Rightarrow>
          let f = files s ! i;
              s1 = (if f_dirty f
                    then dir_flush K (s\<lparr>dir := (dir s)[f_dir_index f :=
                           (dir s ! f_dir_index f)\<lparr>d_size := f_size f\<rparr>]\<rparr>)
                    else s)
          in Some (0, upd_file i (\<lambda>f. f\<lparr>f_used := False\<rparr>) s1))"

text \<open>A signed overflow of \<^verbatim>\<open>base + offset\<close> is undefined in C: None.\<close>

definition bmfs_lseek :: "slong \<Rightarrow> slong \<Rightarrow> u32 \<Rightarrow> ('k, 'z) bmfs_scheme \<Rightarrow> (slong \<times> ('k, 'z) bmfs_scheme) option" where
  "bmfs_lseek fd offset whence s =
     (case fd_index fd of None \<Rightarrow> None
      | Some i \<Rightarrow>
          let f = files s ! i
          in if whence \<notin> {0, 1, 2} then Some (- EINVAL, s)
             else let base = (if whence = 0 then 0 else if whence = 1 then f_pos f else f_size f);
                      np = base + offset
                  in if sint np \<noteq> sint base + sint offset then None
                     else if sint np < 0 then Some (- EINVAL, s)
                     else Some (np, upd_file i (\<lambda>f. f\<lparr>f_pos := np\<rparr>) s))"

record linux_kstat =
  st_dev :: u64
  st_ino :: u64
  st_nlink :: u64
  st_mode :: u32
  st_uid :: u32
  st_gid :: u32
  st_pad0 :: u32
  st_rdev :: u64
  st_size :: u64
  st_blksize :: u64
  st_blocks :: u64
  st_times :: "u64 list"
  st_unused :: "u64 list"

definition zero_kstat :: linux_kstat where
  "zero_kstat = \<lparr>st_dev = 0, st_ino = 0, st_nlink = 0, st_mode = 0, st_uid = 0, st_gid = 0,
     st_pad0 = 0, st_rdev = 0, st_size = 0, st_blksize = 0, st_blocks = 0,
     st_times = replicate 6 0, st_unused = replicate 3 0\<rparr>"

definition encode_kstat :: "linux_kstat \<Rightarrow> u8 list" where
  "encode_kstat t = le_bytes 8 (st_dev t) @ le_bytes 8 (st_ino t) @ le_bytes 8 (st_nlink t) @
     le_bytes 4 (st_mode t) @ le_bytes 4 (st_uid t) @ le_bytes 4 (st_gid t) @ le_bytes 4 (st_pad0 t) @
     le_bytes 8 (st_rdev t) @ le_bytes 8 (st_size t) @ le_bytes 8 (st_blksize t) @
     le_bytes 8 (st_blocks t) @ concat (map (le_bytes 8) (st_times t)) @
     concat (map (le_bytes 8) (st_unused t))"

abbreviation (input) S_IFREG :: u32 where "S_IFREG \<equiv> 0x8000"

definition bmfs_fstat_fd :: "slong \<Rightarrow> addr \<Rightarrow> ('k, 'z) bmfs_scheme \<Rightarrow> (slong \<times> ('k, 'z) bmfs_scheme) option" where
  "bmfs_fstat_fd fd stbuf s =
     (case fd_index fd of None \<Rightarrow> None
      | Some i \<Rightarrow>
          let f = files s ! i;
              st = zero_kstat\<lparr>st_mode := S_IFREG OR 0x1A4, st_size := f_size f,
                     st_blksize := BMFS_SECTOR_BYTES,
                     st_blocks := (f_reserved_blocks f * BMFS_BLOCK_BYTES) div 512\<rparr>
          in Some (0, s\<lparr>mem := mem_write (mem s) stbuf (encode_kstat st)\<rparr>))"

definition bmfs_fstatat :: "'k kernel \<Rightarrow> addr \<Rightarrow> addr \<Rightarrow> ('k, 'z) bmfs_scheme \<Rightarrow> slong \<times> ('k, 'z) bmfs_scheme" where
  "bmfs_fstatat K path kstbuf s =
     (let name = bmfs_name (mem s) path;
          s1 = dir_load K s
      in case dir_find (dir s1) (at (mem s1) name) of
        None \<Rightarrow> (- ENOENT, s1)
      | Some di \<Rightarrow>
          let e = dir s1 ! di;
              st = zero_kstat\<lparr>st_mode := S_IFREG OR 0x1A4, st_nlink := 1, st_ino := of_nat (di + 1),
                     st_size := d_size e, st_blksize := BMFS_SECTOR_BYTES,
                     st_blocks := (d_reserved_blocks e * BMFS_BLOCK_BYTES) div 512\<rparr>
          in (0, s1\<lparr>mem := mem_write (mem s1) kstbuf (encode_kstat st)\<rparr>))"

definition bmfs_unlink :: "'k kernel \<Rightarrow> addr \<Rightarrow> ('k, 'z) bmfs_scheme \<Rightarrow> slong \<times> ('k, 'z) bmfs_scheme" where
  "bmfs_unlink K path s =
     (let name = bmfs_name (mem s) path;
          s1 = dir_load K s
      in case dir_find (dir s1) (at (mem s1) name) of
        None \<Rightarrow> (- ENOENT, s1)
      | Some di \<Rightarrow> (0, dir_flush K (s1\<lparr>dir := (dir s1)[di := empty_dirent]\<rparr>)))"

end
