(* ===== verification/BM_Heap.thy ===== *)
theory BM_Heap
  imports BM_Bmfs
begin

text \<open>
  The heap of \<^verbatim>\<open>src/app/posix_shim.c\<close>: one arena from the end of the image to the top of the
  memory the kernel reports, from which \<^verbatim>\<open>brk\<close> and anonymous \<^verbatim>\<open>mmap\<close> both take.
\<close>

section \<open>The arena\<close>

abbreviation (input) ENOMEM :: u64 where "ENOMEM \<equiv> 12"
abbreviation (input) ENODEV :: u64 where "ENODEV \<equiv> 19"
abbreviation (input) MAP_ANONYMOUS :: u64 where "MAP_ANONYMOUS \<equiv> 0x20"

text \<open>
  The linker symbols: \<^verbatim>\<open>__image_base\<close> is fixed by \<^verbatim>\<open>c.ld\<close>, \<^verbatim>\<open>__bss_stop\<close> depends on the program
  and is a parameter.
\<close>

definition image_base :: addr where
  "image_base = 0xFFFF800000000000"

record 'k heap = "'k bmfs" +
  heap_cur :: addr
  heap_end :: addr

definition heap_init :: "'k kernel \<Rightarrow> addr \<Rightarrow> ('k, 'z) heap_scheme \<Rightarrow> ('k, 'z) heap_scheme" where
  "heap_init K bss_stop s =
     (if heap_cur s \<noteq> 0 then s
      else let (app_ram_mib, s1) = b_system K FREE_MEMORY 0 0 s
           in s1\<lparr>heap_cur := bss_stop, heap_end := image_base + app_ram_mib * 1024 * 1024\<rparr>)"

definition sys_brk :: "'k kernel \<Rightarrow> addr \<Rightarrow> slong \<Rightarrow> ('k, 'z) heap_scheme \<Rightarrow> slong \<times> ('k, 'z) heap_scheme" where
  "sys_brk K bss_stop addr s =
     (let s1 = heap_init K bss_stop s;
          s2 = (if bss_stop \<le> addr \<and> addr \<le> heap_end s1 then s1\<lparr>heap_cur := addr\<rparr> else s1)
      in (heap_cur s2, s2))"

definition heap_alloc :: "'k kernel \<Rightarrow> addr \<Rightarrow> u64 \<Rightarrow> ('k, 'z) heap_scheme \<Rightarrow> addr \<times> ('k, 'z) heap_scheme" where
  "heap_alloc K bss_stop n s =
     (let s1 = heap_init K bss_stop s;
          p = heap_cur s1
      in if heap_end s1 < p + n \<or> p + n < p then (0, s1)
         else (p, s1\<lparr>heap_cur := p + n\<rparr>))"

definition page_round :: "u64 \<Rightarrow> u64" where
  "page_round len = (len + 4095) AND NOT 4095"

definition sys_mmap :: "'k kernel \<Rightarrow> addr \<Rightarrow> slong \<Rightarrow> slong \<Rightarrow> slong \<Rightarrow> slong \<Rightarrow> slong \<Rightarrow> slong \<Rightarrow> ('k, 'z) heap_scheme \<Rightarrow> slong \<times> ('k, 'z) heap_scheme" where
  "sys_mmap K bss_stop addr len prot flags fd off s =
     (if flags AND MAP_ANONYMOUS = 0 \<or> sint len \<le> 0 then (- ENODEV, s)
      else let (p, s1) = heap_alloc K bss_stop (page_round len) s
           in if p = 0 then (- ENOMEM, s1) else (p, s1))"

definition sys_munmap :: "slong \<Rightarrow> slong \<Rightarrow> ('k, 'z) heap_scheme \<Rightarrow> slong \<times> ('k, 'z) heap_scheme" where
  "sys_munmap addr len s = (0, s)"

section \<open>The arena invariant\<close>

text \<open>
  The memory the kernel reports (\<open>mib\<close> MiB from the image base) covers the image and ends below the
  top of the address space.
\<close>

definition ram_ok :: "'k kernel \<Rightarrow> addr \<Rightarrow> nat \<Rightarrow> bool" where
  "ram_ok K bss_stop mib \<longleftrightarrow> (\<forall>k. unat (fst (k_system K FREE_MEMORY 0 0 k)) = mib) \<and>
     unat image_base \<le> unat bss_stop \<and> unat bss_stop \<le> unat image_base + mib * 2 ^ 20 \<and> mib < 2 ^ 26"

definition arena_end :: "nat \<Rightarrow> nat" where
  "arena_end mib = unat image_base + mib * 2 ^ 20"

definition heap_inv :: "addr \<Rightarrow> nat \<Rightarrow> ('k, 'z) heap_scheme \<Rightarrow> bool" where
  "heap_inv bss_stop mib s \<longleftrightarrow> heap_cur s = 0 \<or>
     unat (heap_end s) = arena_end mib \<and> bss_stop \<le> heap_cur s \<and> heap_cur s \<le> heap_end s"

text \<open>Where the next block comes from.\<close>

definition heap_top :: "addr \<Rightarrow> ('k, 'z) heap_scheme \<Rightarrow> addr" where
  "heap_top bss_stop s = (if heap_cur s = 0 then bss_stop else heap_cur s)"

lemma unat_image_base: "unat image_base = 0xFFFF800000000000"
  by (simp add: image_base_def)

lemma arena_end_bound: "ram_ok K bss mib \<Longrightarrow> arena_end mib < 2 ^ 64"
  by (simp add: ram_ok_def arena_end_def unat_image_base)

lemma bss_nonzero: "ram_ok K bss mib \<Longrightarrow> bss \<noteq> 0"
  by (auto simp: ram_ok_def unat_image_base)

lemma heap_init_ok:
  assumes ram: "ram_ok K bss mib" and inv: "heap_inv bss mib s"
  shows "heap_inv bss mib (heap_init K bss s)" "heap_cur (heap_init K bss s) = heap_top bss s"
    "unat (heap_end (heap_init K bss s)) = arena_end mib" "heap_cur (heap_init K bss s) \<noteq> 0"
    "mem (heap_init K bss s) = mem s" "bss \<le> heap_top bss s" "heap_top bss s \<le> heap_end (heap_init K bss s)"
proof -
  obtain r k where sys: "k_system K FREE_MEMORY 0 0 (kern s) = (r, k)" by (metis prod.exhaust)
  have r: "unat r = mib" using ram sys unfolding ram_ok_def by (metis fst_conv)
  have m: "unat (r * 1024 * 1024) = mib * 2 ^ 20"
    using r ram by (simp add: ram_ok_def unat_mult_small mult.assoc)
  have e: "unat (image_base + r * 1024 * 1024) = arena_end mib"
    using m arena_end_bound [OF ram] by (subst unat_plus_small) (auto simp: arena_end_def)
  have b: "bss \<le> image_base + r * 1024 * 1024"
    using ram e unfolding word_le_nat_alt by (simp add: ram_ok_def arena_end_def)
  note d = heap_init_def b_system_def sys heap_inv_def heap_top_def
  show "heap_inv bss mib (heap_init K bss s)" using inv e b by (auto simp: d)
  show "heap_cur (heap_init K bss s) = heap_top bss s" by (simp add: d)
  show "unat (heap_end (heap_init K bss s)) = arena_end mib" using inv e by (auto simp: d)
  show "heap_cur (heap_init K bss s) \<noteq> 0" using bss_nonzero [OF ram] by (simp add: d)
  show "mem (heap_init K bss s) = mem s" by (simp add: d)
  show "bss \<le> heap_top bss s" using inv by (auto simp: d)
  show "heap_top bss s \<le> heap_end (heap_init K bss s)" using inv b by (auto simp: d)
qed

section \<open>Blocks\<close>

lemma page_round_ok:
  assumes "0 < sint (len :: u64)"
  shows "unat (page_round len) = (unat len + 4095) div 4096 * 4096" "unat len \<le> unat (page_round len)"
    "unat (page_round len) < 2 ^ 63 + 4096"
proof -
  have l: "unat len < 2 ^ 63" using assms sint_nonneg_unat(2) [of len] by simp
  have s: "unat (len + 4095) = unat len + 4095" using l by (subst unat_plus_small) simp_all
  have m: "(4095 :: u64) = mask 12" by (simp add: mask_eq_exp_minus_1)
  show e: "unat (page_round len) = (unat len + 4095) div 4096 * 4096"
    unfolding page_round_def m unat_and_not_mask s [unfolded m]
    using s by (simp add: m [symmetric] minus_mod_eq_div_mult)
  have "(unat len + 4095) div 4096 * 4096 + (unat len + 4095) mod 4096 = unat len + 4095"
    by (rule div_mult_mod_eq)
  moreover have "(unat len + 4095) mod 4096 < 4096" by simp
  ultimately show "unat len \<le> unat (page_round len)" "unat (page_round len) < 2 ^ 63 + 4096"
    using l unfolding e by linarith+
qed

text \<open>
  A block of the arena: the addresses handed out, as numbers.
\<close>

definition block :: "addr \<Rightarrow> u64 \<Rightarrow> nat set" where
  "block p n = {unat p ..< unat p + unat n}"

lemma heap_alloc_ok:
  assumes ram: "ram_ok K bss mib" and inv: "heap_inv bss mib s"
    and n: "0 < unat n" and res: "heap_alloc K bss n s = (p, s')"
  shows "heap_inv bss mib s'" "mem s' = mem s"
    "arena_end mib < unat (heap_top bss s) + unat n \<Longrightarrow> p = 0 \<and> heap_top bss s' = heap_top bss s"
    "unat (heap_top bss s) + unat n \<le> arena_end mib \<Longrightarrow>
       p = heap_top bss s \<and> p \<noteq> 0 \<and> unat (heap_top bss s') = unat p + unat n"
proof -
  note i = heap_init_ok [OF ram inv]
  let ?p = "heap_top bss s" and ?s1 = "heap_init K bss s"
  note top = arena_end_bound [OF ram]
  have fits: "(heap_end ?s1 < ?p + n \<or> ?p + n < ?p) \<longleftrightarrow> arena_end mib < unat ?p + unat n"
  proof (cases "unat ?p + unat n < 2 ^ 64")
    case True
    then have "unat (?p + n) = unat ?p + unat n" by (intro unat_plus_small) simp
    then show ?thesis using i(3) by (simp add: word_less_nat_alt)
  next
    case False
    have "unat (?p + n) = unat ?p + unat n - 2 ^ 64"
      using False unat_u64_less [of ?p] unat_u64_less [of n] unat_word_ariths(1) [of ?p n]
      by (simp add: mod_if)
    then have "?p + n < ?p" using False unat_u64_less [of n] unfolding word_less_nat_alt by linarith
    then show ?thesis using False top by simp
  qed
  have t: "heap_top bss ?s1 = ?p" using i(2,4) by (simp add: heap_top_def)
  show "p = 0 \<and> heap_top bss s' = heap_top bss s" if "arena_end mib < unat ?p + unat n"
    using res that fits t unfolding heap_alloc_def Let_def i(2) by simp
  have ok: "p = ?p \<and> s' = ?s1\<lparr>heap_cur := ?p + n\<rparr>" if "unat ?p + unat n \<le> arena_end mib"
    using res that fits unfolding heap_alloc_def Let_def i(2) by (auto simp: not_le [symmetric])
  have sum: "unat (?p + n) = unat ?p + unat n" if "unat ?p + unat n \<le> arena_end mib"
    using that top by (intro unat_plus_small) simp
  show "p = ?p \<and> p \<noteq> 0 \<and> unat (heap_top bss s') = unat p + unat n" if "unat ?p + unat n \<le> arena_end mib"
  proof -
    have "?p + n \<noteq> 0" using sum [OF that] n by (metis add_gr_0 unat_0 less_numeral_extra(3))
    then show ?thesis using ok [OF that] sum [OF that] i(2,4) by (simp add: heap_top_def)
  qed
  show "heap_inv bss mib s'"
  proof (cases "unat ?p + unat n \<le> arena_end mib")
    case True
    have "bss \<le> ?p + n" "?p + n \<le> heap_end ?s1"
      using i(6) i(3) True sum [OF True] unfolding word_le_nat_alt by simp_all
    then show ?thesis using ok [OF True] i(3) by (simp add: heap_inv_def)
  next
    case False
    then show ?thesis using res fits i(1) unfolding heap_alloc_def Let_def i(2) by simp
  qed
  show "mem s' = mem s"
    using res i(5) unfolding heap_alloc_def Let_def by (auto split: if_splits)
qed

section \<open>mmap and brk\<close>

lemma sint_pos_unat: "0 < sint (len :: u64) \<Longrightarrow> 0 < unat len"
  by (cases "len = 0") (auto simp: unat_gt_0)

lemma block_in_arena_not_error:
  assumes "ram_ok K bss mib" and "unat p < arena_end mib"
  shows "p \<noteq> - ENOMEM" "p \<noteq> - ENODEV"
proof -
  have "unat p < 0xFFFFC00000000000" using assms by (simp add: ram_ok_def arena_end_def unat_image_base)
  moreover have "unat (- ENOMEM) = 0xFFFFFFFFFFFFFFF4" "unat (- ENODEV) = 0xFFFFFFFFFFFFFFED" by simp_all
  ultimately show "p \<noteq> - ENOMEM" "p \<noteq> - ENODEV" by auto
qed

lemma sys_mmap_ok:
  assumes ram: "ram_ok K bss mib" and inv: "heap_inv bss mib s"
    and res: "sys_mmap K bss addr len prot flags fd off s = (r, s')"
  defines "n \<equiv> page_round len"
  shows "heap_inv bss mib s'" "mem s' = mem s"
    "flags AND MAP_ANONYMOUS = 0 \<or> sint len \<le> 0 \<Longrightarrow> r = - ENODEV \<and> s' = s"
    "flags AND MAP_ANONYMOUS \<noteq> 0 \<Longrightarrow> 0 < sint len \<Longrightarrow> arena_end mib < unat (heap_top bss s) + unat n \<Longrightarrow>
       r = - ENOMEM \<and> heap_top bss s' = heap_top bss s"
    "flags AND MAP_ANONYMOUS \<noteq> 0 \<Longrightarrow> 0 < sint len \<Longrightarrow> unat (heap_top bss s) + unat n \<le> arena_end mib \<Longrightarrow>
       r = heap_top bss s \<and> unat (heap_top bss s') = unat r + unat n"
proof -
  obtain p s1 where al: "heap_alloc K bss n s = (p, s1)" by (metis prod.exhaust)
  have n: "0 < unat n" if "0 < sint len"
    using page_round_ok(2) [OF that] sint_pos_unat [OF that] by (simp add: n_def)
  note a = heap_alloc_ok [OF ram inv _ al]
  note def = sys_mmap_def Let_def n_def [symmetric] al
  show "r = - ENODEV \<and> s' = s" if "flags AND MAP_ANONYMOUS = 0 \<or> sint len \<le> 0"
    using res that by (auto simp: def)
  show "r = - ENOMEM \<and> heap_top bss s' = heap_top bss s"
    if "flags AND MAP_ANONYMOUS \<noteq> 0" "0 < sint len" "arena_end mib < unat (heap_top bss s) + unat n"
    using res that a(3) [OF n [OF that(2)]] by (auto simp: def)
  show "r = heap_top bss s \<and> unat (heap_top bss s') = unat r + unat n"
    if "flags AND MAP_ANONYMOUS \<noteq> 0" "0 < sint len" "unat (heap_top bss s) + unat n \<le> arena_end mib"
    using res that a(4) [OF n [OF that(2)]] by (auto simp: def)
  show "heap_inv bss mib s'" "mem s' = mem s"
    using res inv a(1,2) [OF n] by (auto simp: def split: if_splits)
qed

lemma sys_brk_ok:
  assumes ram: "ram_ok K bss mib" and inv: "heap_inv bss mib s" and res: "sys_brk K bss addr s = (r, s')"
  shows "heap_inv bss mib s'" "mem s' = mem s" "r = heap_top bss s'"
    "heap_top bss s' = (if bss \<le> addr \<and> unat addr \<le> arena_end mib then addr else heap_top bss s)"
proof -
  note i = heap_init_ok [OF ram inv]
  let ?s1 = "heap_init K bss s"
  have e: "addr \<le> heap_end ?s1 \<longleftrightarrow> unat addr \<le> arena_end mib" using i(3) by (simp add: word_le_nat_alt)
  have nz: "bss \<le> addr \<Longrightarrow> addr \<noteq> 0" using bss_nonzero [OF ram] by auto
  show "heap_inv bss mib s'" using res i(1,3) by (auto simp: sys_brk_def Let_def heap_inv_def)
  show "mem s' = mem s" using res i(5) by (auto simp: sys_brk_def Let_def)
  show top: "heap_top bss s' = (if bss \<le> addr \<and> unat addr \<le> arena_end mib then addr else heap_top bss s)"
    using res i(2,4) nz by (auto simp: sys_brk_def Let_def heap_top_def e)
  have "heap_cur s' \<noteq> 0" using res i(4) nz by (auto simp: sys_brk_def Let_def split: if_splits)
  then show "r = heap_top bss s'" using res by (auto simp: sys_brk_def Let_def heap_top_def)
qed

section \<open>The blocks handed out are disjoint\<close>

text \<open>
  Runs of the allocator calls, with the blocks the program owns. The discipline is that \<^verbatim>\<open>brk\<close>
  never moves the break down; the memory between the old and the new break is a block too.
\<close>

inductive heap_run :: "'k kernel \<Rightarrow> addr \<Rightarrow> ('k, 'z) heap_scheme \<Rightarrow> nat set list \<Rightarrow> bool"
  for K bss where
  run_start: "heap_cur s = 0 \<Longrightarrow> heap_run K bss s []"
| run_mmap: "heap_run K bss s bs \<Longrightarrow> sys_mmap K bss addr len prot flags fd off s = (r, s') \<Longrightarrow>
    r \<noteq> - ENOMEM \<Longrightarrow> r \<noteq> - ENODEV \<Longrightarrow> heap_run K bss s' (block r (page_round len) # bs)"
| run_mmap_fail: "heap_run K bss s bs \<Longrightarrow> sys_mmap K bss addr len prot flags fd off s = (r, s') \<Longrightarrow>
    r = - ENOMEM \<or> r = - ENODEV \<Longrightarrow> heap_run K bss s' bs"
| run_munmap: "heap_run K bss s bs \<Longrightarrow> sys_munmap addr len s = (r, s') \<Longrightarrow> heap_run K bss s' bs"
| run_brk: "heap_run K bss s bs \<Longrightarrow> sys_brk K bss addr s = (r, s') \<Longrightarrow>
    addr < bss \<or> heap_top bss s \<le> addr \<Longrightarrow>
    heap_run K bss s' ({unat (heap_top bss s) ..< unat (heap_top bss s')} # bs)"

definition blocks_ok :: "addr \<Rightarrow> nat \<Rightarrow> nat \<Rightarrow> nat set list \<Rightarrow> bool" where
  "blocks_ok bss mib lim bs \<longleftrightarrow> sorted_wrt disjnt bs \<and>
     (\<forall>b \<in> set bs. b \<subseteq> {unat bss ..< lim}) \<and> lim \<le> arena_end mib"

lemma blocks_ok_Cons:
  assumes "blocks_ok bss mib lim bs" and "unat bss \<le> lim" and "lim \<le> lim'" and "lim' \<le> arena_end mib"
  shows "blocks_ok bss mib lim' ({lim ..< lim'} # bs)"
  using assms by (fastforce simp: blocks_ok_def disjnt_def)

lemma heap_run_ok:
  assumes ram: "ram_ok K bss mib" and run: "heap_run K bss s bs"
  shows "heap_inv bss mib s \<and> blocks_ok bss mib (unat (heap_top bss s)) bs"
  using run
proof induction
  case (run_start s)
  then show ?case using ram by (simp add: heap_inv_def blocks_ok_def heap_top_def ram_ok_def arena_end_def)
next
  case (run_mmap s bs addr len prot flags fd off r s')
  note m = sys_mmap_ok [OF ram _ run_mmap.hyps(2)]
  have inv: "heap_inv bss mib s" and b: "blocks_ok bss mib (unat (heap_top bss s)) bs" using run_mmap.IH by auto
  have "\<not> (flags AND MAP_ANONYMOUS = 0 \<or> sint len \<le> 0)" using m(3) [OF inv] run_mmap.hyps(4) by blast
  then have c: "flags AND MAP_ANONYMOUS \<noteq> 0" "0 < sint len" by auto
  then have fit: "unat (heap_top bss s) + unat (page_round len) \<le> arena_end mib"
    using m(4) [OF inv] run_mmap.hyps(3) by (meson not_le)
  have t: "r = heap_top bss s" "unat (heap_top bss s') = unat r + unat (page_round len)"
    using m(5) [OF inv c fit] by auto
  have "unat bss \<le> unat (heap_top bss s)" using heap_init_ok(6) [OF ram inv] by (simp add: word_le_nat_alt)
  then show ?case using blocks_ok_Cons [OF b] fit t m(1) [OF inv] by (simp add: block_def)
next
  case (run_mmap_fail s bs addr len prot flags fd off r s')
  have inv: "heap_inv bss mib s" and b: "blocks_ok bss mib (unat (heap_top bss s)) bs" using run_mmap_fail.IH by auto
  note m = sys_mmap_ok [OF ram inv run_mmap_fail.hyps(2)]
  have "heap_top bss s' = heap_top bss s"
  proof (rule ccontr)
    assume n: "heap_top bss s' \<noteq> heap_top bss s"
    then have c: "flags AND MAP_ANONYMOUS \<noteq> 0" "0 < sint len" using m(3) by (metis, metis not_le)
    then have fit: "unat (heap_top bss s) + unat (page_round len) \<le> arena_end mib" using m(4) n by (meson not_le)
    have "unat r < arena_end mib"
      using m(5) [OF c fit] page_round_ok(2) [OF c(2)] sint_pos_unat [OF c(2)] fit by simp
    then show False using block_in_arena_not_error [OF ram] run_mmap_fail.hyps(3) by blast
  qed
  then show ?case using b m(1) by simp
next
  case (run_munmap s bs addr len r s')
  then show ?case by (simp add: sys_munmap_def)
next
  case (run_brk s bs addr r s')
  have inv: "heap_inv bss mib s" and b: "blocks_ok bss mib (unat (heap_top bss s)) bs" using run_brk.IH by auto
  note m = sys_brk_ok [OF ram inv run_brk.hyps(2)]
  have "unat bss \<le> unat (heap_top bss s)" using heap_init_ok(6) [OF ram inv] by (simp add: word_le_nat_alt)
  moreover have "unat (heap_top bss s) \<le> unat (heap_top bss s')" "unat (heap_top bss s') \<le> arena_end mib"
    using m(4) run_brk.hyps(3) b by (auto simp: blocks_ok_def word_le_nat_alt word_less_nat_alt split: if_splits)
  ultimately show ?case using blocks_ok_Cons [OF b] m(1) by blast
qed

section \<open>Properties\<close>

text \<open>A simulated machine with 2 MiB of memory and an image of 4096 bytes.\<close>

definition demo_heap :: "sim heap" where
  "demo_heap = \<lparr>mem = (\<lambda>_. 0), kern = sim_blank, dir = [], dir_loaded = False, files = [], scratch = [],
     heap_cur = 0, heap_end = 0\<rparr>"

abbreviation demo_bss :: addr where "demo_bss \<equiv> 0xFFFF800000001000"

lemmas heap_eval = sys_brk_def sys_mmap_def heap_alloc_def heap_init_def demo_heap_def b_system_def
  sim_kernel_def FREE_MEMORY_def TIMECOUNTER_def image_base_def page_round_def Let_def

lemma demo_ram: "ram_ok sim_kernel demo_bss 2"
  by (simp add: ram_ok_def sim_kernel_def image_base_def TIMECOUNTER_def FREE_MEMORY_def)



text \<open>
  The result of mmap on every branch: ENODEV unless the mapping is anonymous and the length is
  positive, ENOMEM exactly when the rounded length does not fit the rest of the arena, and else the
  old top of the arena, which moves up by the length rounded up to whole pages; memory is not
  touched.
\<close>

lemma sys_mmap_result:
  assumes "ram_ok K bss mib" and "heap_inv bss mib s"
    and "sys_mmap K bss addr len prot flags fd off s = (r, s')"
  shows "heap_inv bss mib s' \<and> mem s' = mem s \<and>
    (if flags AND MAP_ANONYMOUS = 0 \<or> sint len \<le> 0 then r = - ENODEV \<and> s' = s
     else if arena_end mib < unat (heap_top bss s) + (unat len + 4095) div 4096 * 4096
       then r = - ENOMEM \<and> heap_top bss s' = heap_top bss s
     else r = heap_top bss s \<and> unat (heap_top bss s') = unat r + (unat len + 4095) div 4096 * 4096)"
proof -
  note m = sys_mmap_ok [OF assms]
  show ?thesis
  proof (cases "flags AND MAP_ANONYMOUS = 0 \<or> sint len \<le> 0")
    case True
    then show ?thesis using m(1,2,3) by simp
  next
    case False
    then have c: "flags AND MAP_ANONYMOUS \<noteq> 0" "0 < sint len" by auto
    show ?thesis
      using m(1,2) m(4,5) [OF c] False unfolding page_round_ok(1) [OF c(2)] by simp
  qed
qed

text \<open>
  C28. The allocator of musl grows its metadata with brk from the break it saw last, not from the
  current one.  After an mmap has taken memory above that break, brk with such an address moves the
  top of the arena down, and the next mmap hands out memory that the first mapping still owns.
\<close>

theorem brk_after_mmap_overlaps:
  assumes ram: "ram_ok K bss mib" and inv: "heap_inv bss mib s"
    and flags: "flags AND MAP_ANONYMOUS \<noteq> 0" and len: "0 < sint len"
    and fits: "unat (heap_top bss s) + unat (page_round len) \<le> arena_end mib"
    and m1: "sys_mmap K bss a1 len prot flags fd off s = (p1, s1)"
    and brk: "sys_brk K bss new s1 = (r, s2)" "bss \<le> new" "new \<le> p1" "unat p1 < unat new + unat (page_round len)"
    and m2: "sys_mmap K bss a2 len prot flags fd off s2 = (p2, s3)"
  shows "r = new \<and> p2 = new \<and> block p1 (page_round len) \<inter> block p2 (page_round len) \<noteq> {}"
proof -
  note a = sys_mmap_ok [OF ram inv m1]
  have p1: "p1 = heap_top bss s" using a(5) [OF flags len fits] by simp
  have ns: "unat new \<le> unat p1" using brk(3) by (simp add: word_le_nat_alt)
  have e: "unat new \<le> arena_end mib" using ns fits p1 by simp
  note b = sys_brk_ok [OF ram a(1) brk(1)]
  have t: "heap_top bss s2 = new" "r = new" using b(3,4) brk(2) e by simp_all
  have "unat (heap_top bss s2) + unat (page_round len) \<le> arena_end mib" using ns fits p1 t by simp
  then have p2: "p2 = new" using sys_mmap_ok(5) [OF ram b(1) m2 flags len] t by simp
  have "unat p1 \<in> block p1 (page_round len)"
    using page_round_ok(2) [OF len] sint_pos_unat [OF len] by (simp add: block_def)
  moreover have "unat p1 \<in> block p2 (page_round len)" using ns brk(4) p2 by (simp add: block_def)
  ultimately show ?thesis using t p2 by blast
qed

text \<open>
  The run of musl's \<^verbatim>\<open>alloc_meta\<close>: brk to two pages above the image, the guard mapping, a mapping of
  200 KB for the program, then one more page of metadata by brk.
\<close>

theorem brk_after_mmap_overlaps_witness:
  "let s1 = snd (sys_brk sim_kernel demo_bss 0xFFFF800000003000 demo_heap);
       s2 = snd (sys_mmap sim_kernel demo_bss 0xFFFF800000001000 0x1000 0 0x32 (- 1) 0 s1);
       (p1, s3) = sys_mmap sim_kernel demo_bss 0 200000 3 0x22 (- 1) 0 s2;
       s4 = snd (sys_brk sim_kernel demo_bss 0xFFFF800000004000 s3);
       (p2, s5) = sys_mmap sim_kernel demo_bss 0 200000 3 0x22 (- 1) 0 s4
   in block p1 (page_round 200000) \<inter> block p2 (page_round 200000) \<noteq> {}"
proof -
  let ?s1 = "snd (sys_brk sim_kernel demo_bss 0xFFFF800000003000 demo_heap)"
  let ?s2 = "snd (sys_mmap sim_kernel demo_bss 0xFFFF800000001000 0x1000 0 0x32 (- 1) 0 ?s1)"
  let ?m1 = "sys_mmap sim_kernel demo_bss 0 200000 3 0x22 (- 1) 0 ?s2"
  let ?b = "sys_brk sim_kernel demo_bss 0xFFFF800000004000 (snd ?m1)"
  let ?m2 = "sys_mmap sim_kernel demo_bss 0 200000 3 0x22 (- 1) 0 (snd ?b)"
  have i0: "heap_inv demo_bss 2 demo_heap" by (simp add: heap_inv_def demo_heap_def)
  have e: "arena_end 2 = 0xFFFF800000200000" by (simp add: arena_end_def unat_image_base)
  have r1: "unat (page_round 200000) = 200704" by (simp add: page_round_def)
  have i1: "heap_inv demo_bss 2 ?s1" using sys_brk_ok(1) [OF demo_ram i0 prod.collapse [symmetric]] .
  have i2: "heap_inv demo_bss 2 ?s2" using sys_mmap_ok(1) [OF demo_ram i1 prod.collapse [symmetric]] .
  have t2: "heap_top demo_bss ?s2 = 0xFFFF800000004000" by (simp add: heap_eval heap_top_def)
  have p1: "fst ?m1 = 0xFFFF800000004000" by (simp add: heap_eval)
  have "block (fst ?m1) (page_round 200000) \<inter> block (fst ?m2) (page_round 200000) \<noteq> {}"
    using brk_after_mmap_overlaps [OF demo_ram i2 _ _ _ prod.collapse [symmetric] prod.collapse [symmetric]
        _ _ _ prod.collapse [symmetric], of "0x22" 200000 "0xFFFF800000004000" 0 3 "- 1" 0 0]
    by (auto simp: t2 e r1 p1)
  then show ?thesis by (simp add: case_prod_beta)
qed

end
