(* ===== verification/BM_Lwip_Def.thy ===== *)
theory BM_Lwip_Def
  imports BM_Cstring
begin

text \<open>
  The helpers of lwIP's \<^verbatim>\<open>core/def.c\<close>: byte order, substring search, comparison without case, and
  decimal printing.  A NUL-terminated string is the list of its bytes before the NUL; \<open>str_at\<close>
  reads it, and gives 0 at the terminator.
\<close>

section \<open>Byte order\<close>

definition lwip_htons :: "u16 \<Rightarrow> u16" where
  "lwip_htons x = push_bit 8 (x AND 0x00FF) OR drop_bit 8 (x AND 0xFF00)"

definition lwip_htonl :: "u32 \<Rightarrow> u32" where
  "lwip_htonl x = push_bit 24 (x AND 0x000000FF) OR push_bit 8 (x AND 0x0000FF00) OR
     drop_bit 8 (x AND 0x00FF0000) OR drop_bit 24 (x AND 0xFF000000)"

section \<open>Strings\<close>

definition str_at :: "u8 list \<Rightarrow> nat \<Rightarrow> u8" where
  "str_at s i = (if i < length s then s ! i else 0)"

fun strnstr_loop :: "u8 list \<Rightarrow> u8 list \<Rightarrow> nat \<Rightarrow> nat \<Rightarrow> nat option" where
  "strnstr_loop [] token n i = None"
| "strnstr_loop (c # cs) token n i =
     (if i + length token \<le> n then
        (if c = str_at token 0 \<and> strncmp (str_at (c # cs)) (str_at token) (length token) = 0 then Some i
         else strnstr_loop cs token n (Suc i))
      else None)"

definition lwip_strnstr :: "u8 list \<Rightarrow> u8 list \<Rightarrow> nat \<Rightarrow> nat option" where
  "lwip_strnstr buffer token n = (if token = [] then Some 0 else strnstr_loop buffer token n 0)"

text \<open>
  One step of the comparisons: whether the loop goes on after \<open>c1\<close> and \<open>c2\<close>.
\<close>

definition icmp_char :: "u8 \<Rightarrow> u8 \<Rightarrow> bool" where
  "icmp_char c1 c2 \<longleftrightarrow> c1 = c2 \<or>
     (let c1_upc = c1 OR 0x20 in 0x61 \<le> c1_upc \<and> c1_upc \<le> 0x7A \<and> c1_upc = c2 OR 0x20)"

fun lwip_stricmp :: "u8 list \<Rightarrow> u8 list \<Rightarrow> int" where
  "lwip_stricmp [] s2 = (if icmp_char 0 (str_at s2 0) then 0 else 1)"
| "lwip_stricmp (c1 # cs) s2 =
     (if \<not> icmp_char c1 (str_at s2 0) then 1
      else lwip_stricmp cs (tl s2))"

text \<open>
  \<^verbatim>\<open>lwip_strnicmp\<close> decrements the \<^verbatim>\<open>size_t\<close> before the test: a length of 0 wraps to the largest value.
\<close>

fun strnicmp_loop :: "u8 list \<Rightarrow> u8 list \<Rightarrow> u64 \<Rightarrow> int" where
  "strnicmp_loop [] s2 len = (if icmp_char 0 (str_at s2 0) then 0 else 1)"
| "strnicmp_loop (c1 # cs) s2 len =
     (if \<not> icmp_char c1 (str_at s2 0) then 1
      else if len - 1 = 0 then 0
      else strnicmp_loop cs (tl s2) (len - 1))"

definition lwip_strnicmp :: "u8 list \<Rightarrow> u8 list \<Rightarrow> u64 \<Rightarrow> int" where
  "lwip_strnicmp s1 s2 len = strnicmp_loop s1 s2 len"

fun strnistr_loop :: "u8 list \<Rightarrow> u8 list \<Rightarrow> nat \<Rightarrow> nat \<Rightarrow> nat option" where
  "strnistr_loop [] token n i = None"
| "strnistr_loop (c # cs) token n i =
     (if i + length token \<le> n then
        (if lwip_strnicmp (c # cs) token (of_nat (length token)) = 0 then Some i
         else strnistr_loop cs token n (Suc i))
      else None)"

definition lwip_strnistr :: "u8 list \<Rightarrow> u8 list \<Rightarrow> nat \<Rightarrow> nat option" where
  "lwip_strnistr buffer token n = (if token = [] then Some 0 else strnistr_loop buffer token n 0)"

section \<open>itoa\<close>

text \<open>
  The digit loop, on a buffer with the next free index \<open>tmp\<close> and the lower limit \<open>res\<close>; it returns
  the rest of the number, \<open>tmp\<close> and the buffer.
\<close>

fun itoa_loop :: "nat \<Rightarrow> nat \<Rightarrow> nat \<Rightarrow> u8 list \<Rightarrow> nat \<times> nat \<times> u8 list" where
  "itoa_loop res n 0 buf = (n, 0, buf)"
| "itoa_loop res n (Suc t) buf =
     (if n \<noteq> 0 \<and> res < Suc t
      then itoa_loop res (n div 10) t (buf[t := 0x30 + of_nat (n mod 10)])
      else (n, Suc t, buf))"

text \<open>
  The result buffer after the call; None is the negation of the least int, which overflows.  The
  size of the buffer is the length of the list.
\<close>

definition lwip_itoa :: "u8 list \<Rightarrow> 32 word \<Rightarrow> u8 list option" where
  "lwip_itoa result number =
     (let bufsize = length result
      in if sint number = - (2 ^ 31) then None
      else let n = nat \<bar>sint number\<bar>
      in if bufsize < 2 then Some (if bufsize = 1 then result[0 := 0] else result)
      else let res = (if sint number < 0 then 1 else 0);
               buf0 = (if sint number < 0 then result[0 := 0x2D] else result);
               (n', tmp, buf1) = itoa_loop res n (bufsize - 1) (buf0[bufsize - 1 := 0])
      in if n' \<noteq> 0 then Some (buf1[0 := 0])
      else if buf1 ! tmp = 0 then Some (buf1[res := 0x30, res + 1 := 0])
      else Some (take res buf1 @ drop tmp buf1 @ drop (res + (bufsize - tmp)) buf1))"

section \<open>Byte order properties\<close>

lemma byte_masks:
  "(0xFF :: 'a::len word) = mask 8" "(0xFF00 :: 'a word) = push_bit 8 (mask 8)"
  "(0xFF0000 :: 'a word) = push_bit 16 (mask 8)" "(0xFF000000 :: 'a word) = push_bit 24 (mask 8)"
  by (simp_all add: mask_eq_exp_minus_1 push_bit_eq_mult)

lemma le_bytes_2: "le_bytes 2 (w :: u16) = [ucast w, ucast (drop_bit 8 w)]"
  by (simp add: le_bytes_def numeral_2_eq_2)

lemma le_bytes_4: "le_bytes 4 (w :: u32) =
    [ucast w, ucast (drop_bit 8 w), ucast (drop_bit 16 w), ucast (drop_bit 24 w)]"
  by (simp add: le_bytes_def upt_rec)

text \<open>The conversions reverse the bytes in memory.\<close>

lemma le_bytes_htons: "le_bytes 2 (lwip_htons x) = rev (le_bytes 2 x)"
  unfolding lwip_htons_def byte_masks le_bytes_2 by (auto intro!: bit_word_eqI simp: bit_simps)

lemma le_bytes_htonl: "le_bytes 4 (lwip_htonl x) = rev (le_bytes 4 x)"
  unfolding lwip_htonl_def byte_masks le_bytes_4 by (auto intro!: bit_word_eqI simp: bit_simps)

lemma le_bytes_inj: "LENGTH('a) \<le> 8 * n \<Longrightarrow> le_bytes n (v :: 'a::len word) = le_bytes n w \<longleftrightarrow> v = w"
  by (metis of_le_bytes_le_bytes)

lemma lwip_htons_htons [simp]: "lwip_htons (lwip_htons x) = x"
  using le_bytes_inj [of 2 "lwip_htons (lwip_htons x)" x] by (simp add: le_bytes_htons)

lemma lwip_htonl_htonl [simp]: "lwip_htonl (lwip_htonl x) = x"
  using le_bytes_inj [of 4 "lwip_htonl (lwip_htonl x)" x] by (simp add: le_bytes_htonl)

section \<open>String properties\<close>

lemma str_at_simps [simp]:
  "str_at [] i = 0" "str_at (c # cs) 0 = c" "str_at (c # cs) (Suc i) = str_at cs i"
  by (simp_all add: str_at_def)

lemma cstr_str_at: "0 \<notin> set s \<Longrightarrow> cstr (str_at s) n = take n s"
proof (induction s arbitrary: n)
  case Nil
  then show ?case by (cases n) (simp_all add: cstr_Suc)
next
  case (Cons c cs)
  then show ?case by (cases n) (simp_all add: cstr_Suc)
qed

lemma strncmp_str_at:
  assumes "0 \<notin> set s" and "0 \<notin> set t"
  shows "strncmp (str_at s) (str_at t) (length t) = 0 \<longleftrightarrow> take (length t) s = t"
  by (simp add: strncmp_0_iff cstr_str_at assms)

text \<open>A position where the token occurs within the first \<open>n\<close> bytes.\<close>

definition occurs_at :: "u8 list \<Rightarrow> u8 list \<Rightarrow> nat \<Rightarrow> nat \<Rightarrow> bool" where
  "occurs_at buffer token n i \<longleftrightarrow> i + length token \<le> n \<and> take (length token) (drop i buffer) = token"

lemma strnstr_loop_first:
  assumes "0 \<notin> set b" and "0 \<notin> set t" and "t \<noteq> []"
  shows "strnstr_loop b t n i = map_option ((+) i) (first_idx (\<lambda>j. occurs_at b t (n - i) j) [0..<length b])"
  using assms
proof (induction b arbitrary: i)
  case Nil
  then show ?case by simp
next
  case (Cons c cs)
  have up: "[0..<length (c # cs)] = 0 # map Suc [0..<length cs]"
    by (simp add: upt_conv_Cons map_Suc_upt del: upt_Suc)
  have fm: "first_idx P (map f xs) = first_idx (P \<circ> f) xs" for P and f :: "nat \<Rightarrow> nat" and xs
    by (induction xs) auto
  have hd: "c = str_at t 0 \<and> strncmp (str_at (c # cs)) (str_at t) (length t) = 0 \<longleftrightarrow> take (length t) (c # cs) = t"
    using Cons.prems strncmp_str_at [of "c # cs" t] by (cases t) auto
  show ?case
  proof (cases "i + length t \<le> n")
    case True
    have "1 \<le> length t" using Cons.prems(3) by (cases t) auto
    then have suc: "occurs_at (c # cs) t (n - i) \<circ> Suc = occurs_at cs t (n - Suc i)"
      using True by (auto simp: occurs_at_def fun_eq_iff)
    have zero: "occurs_at (c # cs) t (n - i) 0 \<longleftrightarrow> take (length t) (c # cs) = t"
      using True by (auto simp: occurs_at_def)
    have IH: "strnstr_loop cs t n (Suc i) = map_option ((+) (Suc i)) (first_idx (occurs_at cs t (n - Suc i)) [0..<length cs])"
      using Cons by simp
    have e: "(+) (Suc i) = (\<lambda>x. Suc (i + x))" by (simp add: fun_eq_iff)
    show ?thesis
      unfolding strnstr_loop.simps hd up first_idx.simps zero fm suc IH e using True
      by (simp add: option.map_comp comp_def)
  next
    case False
    moreover have "1 \<le> length t" using Cons.prems(3) by (cases t) auto
    ultimately have "\<not> occurs_at (c # cs) t (n - i) j" for j by (auto simp: occurs_at_def)
    then show ?thesis using False by (auto simp: first_idx_None_iff)
  qed
qed

section \<open>Comparison without case\<close>

definition lower :: "u8 \<Rightarrow> u8" where
  "lower c = (if 0x41 \<le> c \<and> c \<le> 0x5A then c + 0x20 else c)"

lemma all_u8: "(\<And>i. i \<in> set [0..<256] \<Longrightarrow> P (of_nat i :: u8)) \<Longrightarrow> P c"
proof -
  assume a: "\<And>i. i \<in> set [0..<256] \<Longrightarrow> P (of_nat i :: u8)"
  have "unat c < 256" using unsigned_less [of c] by simp
  then show "P c" using a [of "unat c"] by simp
qed

lemma lower_or: "lower c = (if 0x61 \<le> c OR 0x20 \<and> c OR 0x20 \<le> 0x7A then c OR 0x20 else c)"
proof (rule all_u8 [of "\<lambda>c. lower c = (if 0x61 \<le> c OR 0x20 \<and> c OR 0x20 \<le> 0x7A then c OR 0x20 else c)"])
  have "\<forall>i \<in> set [0..<256]. lower (of_nat i) =
      (if 0x61 \<le> (of_nat i :: u8) OR 0x20 \<and> (of_nat i :: u8) OR 0x20 \<le> 0x7A then of_nat i OR 0x20 else of_nat i)"
    by code_simp
  then show "lower (of_nat i) =
      (if 0x61 \<le> (of_nat i :: u8) OR 0x20 \<and> (of_nat i :: u8) OR 0x20 \<le> 0x7A then of_nat i OR 0x20 else of_nat i)"
    if "i \<in> set [0..<256]" for i using that by blast
qed

lemma icmp_char_lower: "icmp_char c1 c2 \<longleftrightarrow> lower c1 = lower c2"
proof -
  have "(c OR 0x20) OR 0x20 = c OR 0x20" for c :: u8 by (simp add: or.assoc)
  then show ?thesis unfolding icmp_char_def lower_or Let_def by (auto split: if_splits)
qed

lemma lower_0_iff: "lower c = 0 \<longleftrightarrow> c = 0"
  by (auto simp: lower_or split: if_splits)

lemma lwip_stricmp_iff:
  assumes "0 \<notin> set s1" and "0 \<notin> set s2"
  shows "lwip_stricmp s1 s2 = 0 \<longleftrightarrow> map lower s1 = map lower s2"
  using assms
proof (induction s1 arbitrary: s2)
  case Nil
  then show ?case by (cases s2) (auto simp: icmp_char_lower lower_0_iff lower_def [of 0])
next
  case (Cons c cs)
  then show ?case by (cases s2) (auto simp: icmp_char_lower lower_0_iff lower_def [of 0])
qed

lemma lwip_strnicmp_iff:
  assumes "0 \<notin> set s1" and "0 \<notin> set s2" and "len \<noteq> 0"
  shows "lwip_strnicmp s1 s2 len = 0 \<longleftrightarrow> map lower (take (unat len) s1) = map lower (take (unat len) s2)"
  unfolding lwip_strnicmp_def using assms
proof (induction s1 arbitrary: s2 len)
  case Nil
  then have "0 < unat len" by (simp add: unat_gt_0)
  then show ?case using Nil by (cases s2) (auto simp: icmp_char_lower lower_0_iff lower_def [of 0] take_Cons')
next
  case (Cons c cs)
  obtain m where m: "unat len = Suc m" using Cons.prems(3) by (metis gr0_conv_Suc unat_gt_0)
  have l1: "unat (len - 1) = m" using m Cons.prems(3) by (simp add: unat_minus_one)
  have z: "len - 1 = 0 \<longleftrightarrow> m = 0" using l1 by (metis unat_eq_zero)
  show ?case
  proof (cases s2)
    case Nil
    then show ?thesis using Cons.prems m by (auto simp: icmp_char_lower lower_0_iff lower_def [of 0])
  next
    case (Cons d ds)
    then show ?thesis using Cons.IH [of ds "len - 1"] Cons.prems m l1 z
      by (auto simp: icmp_char_lower)
  qed
qed

section \<open>Decimal printing\<close>

text \<open>The decimal representation of a number.\<close>

fun dec :: "nat \<Rightarrow> u8 list" where
  "dec n = (if n < 10 then [0x30 + of_nat n] else dec (n div 10) @ [0x30 + of_nat (n mod 10)])"

declare dec.simps [simp del]

definition dec0 :: "nat \<Rightarrow> u8 list" where
  "dec0 n = (if n = 0 then [] else dec n)"

lemma dec0_step: "n \<noteq> 0 \<Longrightarrow> dec0 n = dec0 (n div 10) @ [0x30 + of_nat (n mod 10)]"
  by (cases "n < 10") (auto simp: dec0_def dec.simps [of n] div_eq_0_iff)

lemma digit_nonzero: "d < 10 \<Longrightarrow> (0x30 + of_nat d :: u8) \<noteq> 0"
proof -
  assume d: "d < 10"
  then have "unat (0x30 + of_nat d :: u8) = 48 + d" by (subst unat_plus_small) simp_all
  then show ?thesis by (metis add_is_0 unat_0 zero_neq_numeral)
qed

lemma dec_nonzero: "0 \<notin> set (dec n)" "dec n \<noteq> []"
proof (induction n rule: dec.induct)
  case (1 n)
  have "0 \<notin> set (dec n) \<and> dec n \<noteq> []"
    using 1 digit_nonzero [of n] digit_nonzero [of "n mod 10"]
    by (cases "n < 10") (auto simp: dec.simps [of n] eq_commute [of 0])
  then show "0 \<notin> set (dec n)" "dec n \<noteq> []" by auto
qed

lemma length_itoa_loop: "length (snd (snd (itoa_loop res n t buf))) = length buf"
  by (induction res n t buf rule: itoa_loop.induct) auto

lemma itoa_loop_dec:
  assumes "t < length buf" and "res \<le> t"
  shows "length (dec0 n) \<le> t - res \<Longrightarrow> itoa_loop res n t buf =
      (0, t - length (dec0 n), take (t - length (dec0 n)) buf @ dec0 n @ drop t buf)"
    and "t - res < length (dec0 n) \<Longrightarrow> fst (itoa_loop res n t buf) \<noteq> 0"
  using assms
proof (induction res n t buf rule: itoa_loop.induct)
  case (1 res n buf)
  { case 1 then show ?case by (cases "n = 0") (auto simp: dec0_def dec_nonzero) }
  { case 2 then show ?case by (cases "n = 0") (auto simp: dec0_def) }
next
  case (2 res n t buf)
  { case 1
    show ?case
    proof (cases "n = 0")
      case True
      then show ?thesis by (simp add: dec0_def)
    next
      case False
      then have l: "length (dec0 n) = Suc (length (dec0 (n div 10)))" by (simp add: dec0_step)
      then have c: "n \<noteq> 0 \<and> res < Suc t" using False "1.prems" by auto
      have IH: "itoa_loop res (n div 10) t (buf[t := 0x30 + of_nat (n mod 10)]) =
          (0, t - length (dec0 (n div 10)),
           take (t - length (dec0 (n div 10))) (buf[t := 0x30 + of_nat (n mod 10)]) @ dec0 (n div 10) @
             drop t (buf[t := 0x30 + of_nat (n mod 10)]))"
        using "2.IH"(1) [OF c] "1.prems" l c by simp
      have "drop t (buf[t := x]) = x # drop (Suc t) buf" for x
        using "1.prems" by (simp add: upd_conv_take_nth_drop)
      then show ?thesis using c IH l dec0_step [OF False] by simp
    qed }
  { case 2
    have nz: "n \<noteq> 0" using "2.prems"(1) by (cases "n = 0") (auto simp: dec0_def)
    then have l: "length (dec0 n) = Suc (length (dec0 (n div 10)))" by (simp add: dec0_step)
    show ?case
    proof (cases "res < Suc t")
      case True
      then show ?thesis using "2.IH"(2) [of] nz "2.prems" l by simp
    next
      case False
      then show ?thesis using nz by simp
    qed }
qed

text \<open>The last step of \<^verbatim>\<open>lwip_itoa\<close>: the digits \<open>d\<close> at the end of the buffer move behind the sign \<open>pre\<close>.\<close>

lemma itoa_shift:
  assumes "0 \<notin> set pre" "0 \<notin> set d" "d \<noteq> []" "take (length pre) buf = pre"
    and t: "t + length d + 1 = length buf" "length pre \<le> t"
  defines "b1 \<equiv> take t buf @ d @ [0]"
  defines "out \<equiv> take (length pre) b1 @ drop t b1 @ drop (length pre + (length buf - t)) b1"
  shows "b1 ! t \<noteq> 0" "length out = length buf" "takeWhile (\<lambda>b. b \<noteq> 0) out = pre @ d"
proof -
  have tk: "length (take t buf) = t" using t by simp
  have "b1 ! t = d ! 0" using tk assms(3) by (simp add: b1_def nth_append)
  then show "b1 ! t \<noteq> 0" using assms(2,3) by (metis length_greater_0_conv nth_mem)
  have l1: "length b1 = length buf" using t tk by (simp add: b1_def)
  have pre: "take (length pre) b1 = pre" using t tk assms(4) by (simp add: b1_def min_absorb1)
  have dr: "drop t b1 = d @ [0]" using tk by (simp add: b1_def)
  have out: "out = (pre @ d) @ 0 # drop (length pre + (length buf - t)) b1" by (simp add: out_def pre dr)
  show "length out = length buf" unfolding out length_append list.size length_drop l1 using t by simp
  show "takeWhile (\<lambda>b. b \<noteq> 0) out = pre @ d"
    unfolding out using assms(1,2) by (subst takeWhile_append2) auto
qed

text \<open>The buffer after the sign and the terminator have been written.\<close>

definition itoa_buf :: "u8 list \<Rightarrow> u32 \<Rightarrow> u8 list" where
  "itoa_buf result number = (if sint number < 0 then result[0 := 0x2D] else result)[length result - 1 := 0]"

definition itoa_sign :: "u32 \<Rightarrow> u8 list" where
  "itoa_sign number = (if sint number < 0 then [0x2D] else [])"

lemma itoa_buf_props:
  assumes "2 \<le> length result"
  shows "length (itoa_buf result number) = length result"
    "drop (length result - 1) (itoa_buf result number) = [0]"
    "take (length (itoa_sign number)) (itoa_buf result number) = itoa_sign number"
    "length (itoa_sign number) \<le> length result - 1" "0 \<notin> set (itoa_sign number)"
proof -
  show "drop (length result - 1) (itoa_buf result number) = [0]"
    using assms by (cases "sint number < 0") (simp_all add: itoa_buf_def upd_conv_take_nth_drop)
  show "take (length (itoa_sign number)) (itoa_buf result number) = itoa_sign number"
    using assms by (cases result) (auto simp: itoa_buf_def itoa_sign_def split: nat.split)
qed (use assms in \<open>auto simp: itoa_buf_def itoa_sign_def\<close>)

lemma lwip_itoa_unfold:
  assumes "2 \<le> length result" "sint number \<noteq> - (2 ^ 31)"
  shows "lwip_itoa result number =
    (let (n', tmp, buf1) = itoa_loop (length (itoa_sign number)) (nat \<bar>sint number\<bar>) (length result - 1) (itoa_buf result number)
     in if n' \<noteq> 0 then Some (buf1[0 := 0])
     else if buf1 ! tmp = 0 then Some (buf1[length (itoa_sign number) := 0x30, length (itoa_sign number) + 1 := 0])
     else Some (take (length (itoa_sign number)) buf1 @ drop tmp buf1 @ drop (length (itoa_sign number) + (length result - tmp)) buf1))"
proof -
  have "length (itoa_sign number) = (if sint number < 0 then 1 else 0)" by (simp add: itoa_sign_def)
  then show ?thesis
    unfolding lwip_itoa_def Let_def itoa_buf_def [symmetric]
    using assms by (cases "sint number < 0") (simp_all split: prod.split)
qed

lemma lwip_itoa_zero:
  assumes "2 \<le> length result" "number = 0"
  shows "\<exists>out. lwip_itoa result number = Some out \<and> length out = length result \<and> takeWhile (\<lambda>b. b \<noteq> 0) out = [0x30]"
proof -
  note b = itoa_buf_props [OF assms(1), of number]
  define buf where "buf = itoa_buf result number"
  have sg: "itoa_sign number = []" using assms(2) by (simp add: itoa_sign_def)
  have "length result - 1 < length buf" using b(1) assms(1) by (simp add: buf_def)
  then have "itoa_loop 0 0 (length result - 1) buf = (0, length result - 1, buf)"
    using itoa_loop_dec(1) [of "length result - 1" buf 0 0] by (simp add: dec0_def)
  moreover have "buf ! (length result - 1) = 0"
    using b(1,2) assms(1) by (metis Cons_nth_drop_Suc buf_def diff_less list.inject not_numeral_le_zero zero_less_iff_neq_zero zero_less_one)
  ultimately have "lwip_itoa result number = Some (buf[0 := 0x30, 1 := 0])"
    using lwip_itoa_unfold [OF assms(1), of number] assms(2) sg by (simp add: buf_def)
  moreover have "takeWhile (\<lambda>b. b \<noteq> 0) (buf[0 := 0x30, 1 := 0]) = [0x30]"
    using assms(1) b(1) unfolding buf_def [symmetric] by (cases buf; cases "tl buf") auto
  ultimately show ?thesis using b(1) by (simp add: buf_def)
qed

lemma lwip_itoa_eq:
  assumes "2 \<le> length result" "sint number \<noteq> - (2 ^ 31)"
  defines "str \<equiv> itoa_sign number @ dec (nat \<bar>sint number\<bar>)"
  shows "\<exists>out. lwip_itoa result number = Some out \<and> length out = length result \<and>
    takeWhile (\<lambda>b. b \<noteq> 0) out = (if length str < length result then str else [])"
proof -
  let ?n = "nat \<bar>sint number\<bar>" and ?L = "length result" and ?res = "length (itoa_sign number)"
  note b = itoa_buf_props [OF assms(1), of number]
  note unf = lwip_itoa_unfold [OF assms(1,2)]
  have lt: "?L - 1 < length (itoa_buf result number)" using b(1) assms(1) by simp
  note loop = itoa_loop_dec [OF lt b(4), of ?n]
  consider "?n = 0" | "?n \<noteq> 0" "length (dec0 ?n) \<le> ?L - 1 - ?res" | "?L - 1 - ?res < length (dec0 ?n)"
    by linarith
  then show ?thesis
  proof cases
    case 1
    then have "sint number = sint (0 :: u32)" by simp
    then have "number = 0" by (rule signed_word_eqI)
    then show ?thesis using lwip_itoa_zero [OF assms(1)] assms(1) by (auto simp: str_def itoa_sign_def dec.simps)
  next
    case 2
    let ?t = "?L - 1 - length (dec ?n)"
    have d0: "dec0 ?n = dec ?n" using 2 by (simp add: dec0_def)
    have t: "?t + length (dec ?n) + 1 = length (itoa_buf result number)" "?res \<le> ?t"
      using 2(2) b(1,4) assms(1) dec_nonzero(2) [of ?n] by (auto simp: d0 Suc_le_eq)
    note sh = itoa_shift [OF b(5) dec_nonzero [of ?n] b(3) t]
    have loop': "itoa_loop ?res ?n (?L - 1) (itoa_buf result number) = (0, ?t, take ?t (itoa_buf result number) @ dec ?n @ [0])"
      using loop(1) 2(2) b(2) by (simp add: d0)
    let ?b1 = "take ?t (itoa_buf result number) @ dec ?n @ [0]"
    let ?out = "take ?res ?b1 @ drop ?t ?b1 @ drop (?res + (length (itoa_buf result number) - ?t)) ?b1"
    have "lwip_itoa result number = Some ?out"
      unfolding unf b(1) loop' using sh(1) by (simp only: Let_def prod.case if_False simp_thms)
    moreover have "length ?out = ?L" using sh(2) b(1) by (rule trans)
    moreover have "length str < ?L" using 2(2) assms(1) t b(1) by (simp add: str_def)
    ultimately show ?thesis using sh(3) unfolding str_def by (intro exI [of _ ?out]) (simp only: if_True simp_thms)
  next
    case 3
    obtain n' tmp b1 where l: "itoa_loop ?res ?n (?L - 1) (itoa_buf result number) = (n', tmp, b1)" using prod_cases3 by blast
    have "n' \<noteq> 0" using loop(2) [OF 3] l by simp
    then have "lwip_itoa result number = Some (b1[0 := 0])" using unf l by simp
    moreover have "length b1 = ?L" using length_itoa_loop [of ?res ?n "?L - 1" "itoa_buf result number"] l b(1) by simp
    moreover have "takeWhile (\<lambda>b. b \<noteq> 0) (b1[0 := 0]) = []"
      using \<open>length b1 = ?L\<close> assms(1) by (cases b1) auto
    moreover have "\<not> length str < ?L"
      using 3 assms(1) b(4) by (auto simp: str_def dec0_def split: if_splits)
    ultimately show ?thesis by auto
  qed
qed

text \<open>
  Decimal printing: when sign, digits and the terminator fit the buffer, the buffer holds the
  decimal representation of the number, and otherwise the empty string; a call with a buffer of at
  least two bytes never writes past it.
\<close>

lemma lwip_itoa_string:
  assumes "2 \<le> length result" and "sint number \<noteq> - (2 ^ 31)"
  defines "str \<equiv> (if sint number < 0 then [0x2D] else []) @ dec (nat \<bar>sint number\<bar>)"
  shows "\<exists>out. lwip_itoa result number = Some out \<and> length out = length result \<and>
    takeWhile (\<lambda>b. b \<noteq> 0) out = (if length str < length result then str else [])"
  using lwip_itoa_eq [OF assms(1,2)] unfolding str_def itoa_sign_def .

end
