(* ===== verification/BM_Pbuf.thy ===== *)
theory BM_Pbuf
  imports BM_Heap BM_Lwip_Def "HOL-Library.Monad_Syntax"
begin

text \<open>
  The packet buffers of lwIP, \<^verbatim>\<open>core/pbuf.c\<close>.  A \<^verbatim>\<open>struct pbuf\<close> lives in a store keyed by its address,
  the payload bytes in the flat memory.  An operation returns None when an assertion of the code
  fails or when it follows a pointer to no \<^verbatim>\<open>struct pbuf\<close>.  Loops over chains are partial functions,
  since a chain may be cyclic; the properties show that they return on chains.  The structs and the
  payload bytes are separate stores: an access through a payload pointer never changes a struct.
\<close>

section \<open>Errors\<close>

type_synonym err_t = int

definition ERR_OK :: err_t where "ERR_OK = 0"
definition ERR_MEM :: err_t where "ERR_MEM = - 1"
definition ERR_BUF :: err_t where "ERR_BUF = - 2"
definition ERR_VAL :: err_t where "ERR_VAL = - 6"
definition ERR_ARG :: err_t where "ERR_ARG = - 16"

section \<open>The struct and its store\<close>

record pbuf =
  p_next :: addr
  p_payload :: addr
  p_tot_len :: u16
  p_len :: u16
  p_type_internal :: u8
  p_flags :: u8
  p_ref :: u8
  p_if_idx :: u8

record ('k, 'm) lwip = "'k heap" +
  alloc :: 'm
  pbufs :: "addr \<Rightarrow> pbuf option"

text \<open>
  The environment: the C library's \<^verbatim>\<open>malloc\<close> and \<^verbatim>\<open>free\<close> on an allocator state, and the function
  pointers of custom pbufs.
\<close>

record ('m, 's) pbuf_env =
  e_malloc :: "u64 \<Rightarrow> 'm \<Rightarrow> addr \<times> 'm"
  e_free :: "addr \<Rightarrow> 'm \<Rightarrow> 'm"
  e_custom_free :: "addr \<Rightarrow> 's \<Rightarrow> 's option"

text \<open>The mask \<^verbatim>\<open>~(MEM_ALIGNMENT-1U)\<close> is an \<^verbatim>\<open>unsigned int\<close>, so that it also clears the upper half of a \<^verbatim>\<open>size_t\<close>.\<close>

definition LWIP_MEM_ALIGN_SIZE :: "u64 \<Rightarrow> u64" where
  "LWIP_MEM_ALIGN_SIZE n = (n + 3) AND 0xFFFFFFFC"

definition LWIP_MEM_ALIGN :: "addr \<Rightarrow> addr" where
  "LWIP_MEM_ALIGN a = (a + 3) AND NOT 3"

definition SIZEOF_STRUCT_PBUF :: u64 where "SIZEOF_STRUCT_PBUF = LWIP_MEM_ALIGN_SIZE 24"

definition PBUF_POOL_BUFSIZE_ALIGNED :: u64 where
  "PBUF_POOL_BUFSIZE_ALIGNED = LWIP_MEM_ALIGN_SIZE (LWIP_MEM_ALIGN_SIZE (1460 + 20 + 20 + 0 + 14))"

datatype pbuf_layer = PBUF_TRANSPORT | PBUF_IP | PBUF_LINK | PBUF_RAW_TX | PBUF_RAW

fun layer_offset :: "pbuf_layer \<Rightarrow> u16" where
  "layer_offset PBUF_TRANSPORT = 54"
| "layer_offset PBUF_IP = 34"
| "layer_offset PBUF_LINK = 14"
| "layer_offset PBUF_RAW_TX = 0"
| "layer_offset PBUF_RAW = 0"

definition PBUF_RAM :: u16 where "PBUF_RAM = 0x0280"
definition PBUF_ROM :: u16 where "PBUF_ROM = 0x0001"
definition PBUF_REF :: u16 where "PBUF_REF = 0x0041"
definition PBUF_POOL :: u16 where "PBUF_POOL = 0x0182"

definition PBUF_TYPE_FLAG_STRUCT_DATA_CONTIGUOUS :: u8 where "PBUF_TYPE_FLAG_STRUCT_DATA_CONTIGUOUS = 0x80"
definition PBUF_FLAG_IS_CUSTOM :: u8 where "PBUF_FLAG_IS_CUSTOM = 0x02"

definition pbuf_get_allocsrc :: "pbuf \<Rightarrow> u8" where
  "pbuf_get_allocsrc b = p_type_internal b AND 0x0F"

lemmas pbuf_consts = PBUF_RAM_def PBUF_ROM_def PBUF_REF_def PBUF_POOL_def
  PBUF_TYPE_FLAG_STRUCT_DATA_CONTIGUOUS_def PBUF_FLAG_IS_CUSTOM_def pbuf_get_allocsrc_def

definition put_pbuf :: "addr \<Rightarrow> pbuf \<Rightarrow> ('k, 'm, 'z) lwip_scheme \<Rightarrow> ('k, 'm, 'z) lwip_scheme" where
  "put_pbuf p b s = s\<lparr>pbufs := (pbufs s)(p \<mapsto> b)\<rparr>"

text \<open>
  \<^verbatim>\<open>mem_malloc\<close> and \<^verbatim>\<open>mem_free\<close> with \<^verbatim>\<open>MEM_LIBC_MALLOC\<close>, which both assert that the block is aligned; the
  struct of a freed block is gone.  With \<^verbatim>\<open>MEMP_MEM_MALLOC\<close> the pools allocate in the same way.
\<close>

definition mem_malloc :: "('m, 's) pbuf_env \<Rightarrow> u64 \<Rightarrow> ('k, 'm, 'z) lwip_scheme \<Rightarrow> (addr \<times> ('k, 'm, 'z) lwip_scheme) option" where
  "mem_malloc E n s =
     (let (p, a) = e_malloc E n (alloc s)
      in if p \<noteq> 0 \<and> LWIP_MEM_ALIGN p \<noteq> p then None else Some (p, s\<lparr>alloc := a\<rparr>))"

definition mem_free :: "('m, 's) pbuf_env \<Rightarrow> addr \<Rightarrow> ('k, 'm, 'z) lwip_scheme \<Rightarrow> ('k, 'm, 'z) lwip_scheme option" where
  "mem_free E p s =
     (if p = 0 \<or> LWIP_MEM_ALIGN p \<noteq> p then None
      else Some (s\<lparr>alloc := e_free E p (alloc s), pbufs := (pbufs s)(p := None)\<rparr>))"

section \<open>Freeing\<close>

text \<open>The deallocation of one pbuf whose count has dropped to 0.\<close>

definition pbuf_dealloc :: "('m, ('k, 'm, 'z) lwip_scheme) pbuf_env \<Rightarrow> addr \<Rightarrow> pbuf \<Rightarrow> ('k, 'm, 'z) lwip_scheme \<Rightarrow> ('k, 'm, 'z) lwip_scheme option" where
  "pbuf_dealloc E p b s =
     (if p_flags b AND PBUF_FLAG_IS_CUSTOM \<noteq> 0 then e_custom_free E p s
      else if pbuf_get_allocsrc b \<in> {0, 1, 2} then mem_free E p s
      else None)"

partial_function (option) pbuf_free_loop :: "('m, ('k, 'm, 'z) lwip_scheme) pbuf_env \<Rightarrow> addr \<Rightarrow> u8 \<Rightarrow> ('k, 'm, 'z) lwip_scheme \<Rightarrow> (u8 \<times> ('k, 'm, 'z) lwip_scheme) option" where
  "pbuf_free_loop E p count s =
     (if p = 0 then Some (count, s)
      else do {
        b \<leftarrow> pbufs s p;
        if p_ref b = 0 then None
        else let b' = b\<lparr>p_ref := p_ref b - 1\<rparr>; s' = put_pbuf p b' s
             in if p_ref b' = 0
                then do { s'' \<leftarrow> pbuf_dealloc E p b' s'; pbuf_free_loop E (p_next b') (count + 1) s'' }
                else Some (count, s') })"

definition pbuf_free :: "('m, ('k, 'm, 'z) lwip_scheme) pbuf_env \<Rightarrow> addr \<Rightarrow> ('k, 'm, 'z) lwip_scheme \<Rightarrow> (u8 \<times> ('k, 'm, 'z) lwip_scheme) option" where
  "pbuf_free E p s = (if p = 0 then None else pbuf_free_loop E p 0 s)"

section \<open>Allocation\<close>

definition pbuf_init_alloced_pbuf :: "addr \<Rightarrow> addr \<Rightarrow> u16 \<Rightarrow> u16 \<Rightarrow> u16 \<Rightarrow> u8 \<Rightarrow> ('k, 'm, 'z) lwip_scheme \<Rightarrow> ('k, 'm, 'z) lwip_scheme" where
  "pbuf_init_alloced_pbuf p payload tot_len len type flags s =
     put_pbuf p \<lparr>p_next = 0, p_payload = payload, p_tot_len = tot_len, p_len = len,
       p_type_internal = ucast type, p_flags = flags, p_ref = 1, p_if_idx = 0\<rparr> s"

definition pbuf_alloc_reference :: "('m, ('k, 'm, 'z) lwip_scheme) pbuf_env \<Rightarrow> addr \<Rightarrow> u16 \<Rightarrow> u16 \<Rightarrow> ('k, 'm, 'z) lwip_scheme \<Rightarrow> (addr \<times> ('k, 'm, 'z) lwip_scheme) option" where
  "pbuf_alloc_reference E payload plen type s =
     (if type \<noteq> PBUF_REF \<and> type \<noteq> PBUF_ROM then None
      else do {
        a \<leftarrow> mem_malloc E SIZEOF_STRUCT_PBUF s;
        if fst a = 0 then Some a
        else Some (fst a, pbuf_init_alloced_pbuf (fst a) payload plen plen type 0 (snd a)) })"

text \<open>The chain of pool pbufs: \<open>p\<close> is the head so far (0 at first) and \<open>lst\<close> its last pbuf.\<close>

partial_function (option) pbuf_alloc_pool :: "('m, ('k, 'm, 'z) lwip_scheme) pbuf_env \<Rightarrow> addr \<Rightarrow> addr \<Rightarrow> u16 \<Rightarrow> u16 \<Rightarrow> ('k, 'm, 'z) lwip_scheme \<Rightarrow> (addr \<times> ('k, 'm, 'z) lwip_scheme) option" where
  "pbuf_alloc_pool E p lst offset rem_len s =
     do {
       a \<leftarrow> mem_malloc E (SIZEOF_STRUCT_PBUF + PBUF_POOL_BUFSIZE_ALIGNED) s;
       let q = fst a; s1 = snd a
       in if q = 0 then
            (if p \<noteq> 0 then do { r \<leftarrow> pbuf_free E p s1; Some (0, snd r) } else Some (0, s1))
          else let qlen = min rem_len (ucast (PBUF_POOL_BUFSIZE_ALIGNED - LWIP_MEM_ALIGN_SIZE (ucast offset)));
                   payload = LWIP_MEM_ALIGN (q + SIZEOF_STRUCT_PBUF + ucast offset);
                   s2 = pbuf_init_alloced_pbuf q payload rem_len qlen PBUF_POOL 0 s1
          in do {
            s3 \<leftarrow> (if p = 0 then Some s2
                   else do { b \<leftarrow> pbufs s2 lst; Some (put_pbuf lst (b\<lparr>p_next := q\<rparr>) s2) });
            let p' = (if p = 0 then q else p);
                rem' = rem_len - qlen
            in if rem' = 0 then Some (p', s3) else pbuf_alloc_pool E p' q 0 rem' s3 } }"

definition pbuf_alloc_ram :: "('m, ('k, 'm, 'z) lwip_scheme) pbuf_env \<Rightarrow> u16 \<Rightarrow> u16 \<Rightarrow> ('k, 'm, 'z) lwip_scheme \<Rightarrow> (addr \<times> ('k, 'm, 'z) lwip_scheme) option" where
  "pbuf_alloc_ram E offset plen s =
     (let payload_len = LWIP_MEM_ALIGN_SIZE (ucast offset) + LWIP_MEM_ALIGN_SIZE (ucast plen);
          alloc_len = LWIP_MEM_ALIGN_SIZE SIZEOF_STRUCT_PBUF + payload_len
      in if payload_len < LWIP_MEM_ALIGN_SIZE (ucast plen) \<or> alloc_len < LWIP_MEM_ALIGN_SIZE (ucast plen)
         then Some (0, s)
         else do {
           a \<leftarrow> mem_malloc E alloc_len s;
           let p = fst a
           in if p = 0 then Some a
              else Some (p, pbuf_init_alloced_pbuf p (LWIP_MEM_ALIGN (p + SIZEOF_STRUCT_PBUF + ucast offset))
                       plen plen PBUF_RAM 0 (snd a)) })"

definition pbuf_alloc :: "('m, ('k, 'm, 'z) lwip_scheme) pbuf_env \<Rightarrow> pbuf_layer \<Rightarrow> u16 \<Rightarrow> u16 \<Rightarrow> ('k, 'm, 'z) lwip_scheme \<Rightarrow> (addr \<times> ('k, 'm, 'z) lwip_scheme) option" where
  "pbuf_alloc E layer plen type s =
     (if type = PBUF_REF \<or> type = PBUF_ROM then pbuf_alloc_reference E 0 plen type s
      else if type = PBUF_POOL then pbuf_alloc_pool E 0 0 (layer_offset layer) plen s
      else if type = PBUF_RAM then pbuf_alloc_ram E (layer_offset layer) plen s
      else None)"

definition pbuf_alloced_custom :: "pbuf_layer \<Rightarrow> u16 \<Rightarrow> u16 \<Rightarrow> addr \<Rightarrow> addr \<Rightarrow> u16 \<Rightarrow> ('k, 'm, 'z) lwip_scheme \<Rightarrow> addr \<times> ('k, 'm, 'z) lwip_scheme" where
  "pbuf_alloced_custom l plen type p payload_mem payload_mem_len s =
     (let offset = layer_offset l
      in if ucast payload_mem_len < LWIP_MEM_ALIGN_SIZE (ucast offset) + ucast plen then (0, s)
         else let payload = (if payload_mem \<noteq> 0 then payload_mem + LWIP_MEM_ALIGN_SIZE (ucast offset) else 0)
         in (p, pbuf_init_alloced_pbuf p payload plen plen type PBUF_FLAG_IS_CUSTOM s))"

section \<open>Headers\<close>

text \<open>The results are the \<^verbatim>\<open>u8_t\<close> of the code: 0 for success, 1 for failure.\<close>

definition pbuf_add_header_impl :: "addr \<Rightarrow> u64 \<Rightarrow> bool \<Rightarrow> ('k, 'm, 'z) lwip_scheme \<Rightarrow> (u8 \<times> ('k, 'm, 'z) lwip_scheme) option" where
  "pbuf_add_header_impl p incr force s =
     (if p = 0 then None
      else if 0xFFFF < incr then Some (1, s)
      else if incr = 0 then Some (0, s)
      else do {
        b \<leftarrow> pbufs s p;
        let m = ucast incr :: u16;
            payload = p_payload b - incr
        in if m + p_tot_len b < m then Some (1, s)
           else if p_type_internal b AND PBUF_TYPE_FLAG_STRUCT_DATA_CONTIGUOUS \<noteq> 0 \<and> payload < p + SIZEOF_STRUCT_PBUF
             then Some (1, s)
           else if p_type_internal b AND PBUF_TYPE_FLAG_STRUCT_DATA_CONTIGUOUS = 0 \<and> \<not> force then Some (1, s)
           else Some (0, put_pbuf p (b\<lparr>p_payload := payload, p_tot_len := p_tot_len b + m, p_len := p_len b + m\<rparr>) s) })"

definition pbuf_add_header :: "addr \<Rightarrow> u64 \<Rightarrow> ('k, 'm, 'z) lwip_scheme \<Rightarrow> (u8 \<times> ('k, 'm, 'z) lwip_scheme) option" where
  "pbuf_add_header p incr s = pbuf_add_header_impl p incr False s"

definition pbuf_add_header_force :: "addr \<Rightarrow> u64 \<Rightarrow> ('k, 'm, 'z) lwip_scheme \<Rightarrow> (u8 \<times> ('k, 'm, 'z) lwip_scheme) option" where
  "pbuf_add_header_force p incr s = pbuf_add_header_impl p incr True s"

definition pbuf_remove_header :: "addr \<Rightarrow> u64 \<Rightarrow> ('k, 'm, 'z) lwip_scheme \<Rightarrow> (u8 \<times> ('k, 'm, 'z) lwip_scheme) option" where
  "pbuf_remove_header p decr s =
     (if p = 0 then None
      else if 0xFFFF < decr then Some (1, s)
      else if decr = 0 then Some (0, s)
      else do {
        b \<leftarrow> pbufs s p;
        let m = ucast decr :: u16
        in if p_len b < m then Some (1, s)
           else Some (0, put_pbuf p (b\<lparr>p_payload := p_payload b + decr, p_tot_len := p_tot_len b - m, p_len := p_len b - m\<rparr>) s) })"

definition pbuf_header_impl :: "addr \<Rightarrow> 16 word \<Rightarrow> bool \<Rightarrow> ('k, 'm, 'z) lwip_scheme \<Rightarrow> (u8 \<times> ('k, 'm, 'z) lwip_scheme) option" where
  "pbuf_header_impl p incr force s =
     (if sint incr < 0 then pbuf_remove_header p (of_int (- sint incr)) s
      else pbuf_add_header_impl p (of_int (sint incr)) force s)"

definition pbuf_header :: "addr \<Rightarrow> 16 word \<Rightarrow> ('k, 'm, 'z) lwip_scheme \<Rightarrow> (u8 \<times> ('k, 'm, 'z) lwip_scheme) option" where
  "pbuf_header p incr s = pbuf_header_impl p incr False s"

definition pbuf_header_force :: "addr \<Rightarrow> 16 word \<Rightarrow> ('k, 'm, 'z) lwip_scheme \<Rightarrow> (u8 \<times> ('k, 'm, 'z) lwip_scheme) option" where
  "pbuf_header_force p incr s = pbuf_header_impl p incr True s"

partial_function (option) pbuf_free_header :: "('m, ('k, 'm, 'z) lwip_scheme) pbuf_env \<Rightarrow> addr \<Rightarrow> u16 \<Rightarrow> ('k, 'm, 'z) lwip_scheme \<Rightarrow> (addr \<times> ('k, 'm, 'z) lwip_scheme) option" where
  "pbuf_free_header E p free_left s =
     (if free_left = 0 \<or> p = 0 then Some (p, s)
      else do {
        b \<leftarrow> pbufs s p;
        if p_len b \<le> free_left
        then do {
          r \<leftarrow> pbuf_free E p (put_pbuf p (b\<lparr>p_next := 0\<rparr>) s);
          pbuf_free_header E (p_next b) (free_left - p_len b) (snd r) }
        else do { r \<leftarrow> pbuf_remove_header p (ucast free_left) s; Some (p, snd r) } })"

section \<open>Shrinking\<close>

text \<open>The walk to the new last pbuf: its address and the length left for it.\<close>

partial_function (option) pbuf_realloc_walk :: "u16 \<Rightarrow> addr \<Rightarrow> u16 \<Rightarrow> ('k, 'm, 'z) lwip_scheme \<Rightarrow> (addr \<times> u16 \<times> ('k, 'm, 'z) lwip_scheme) option" where
  "pbuf_realloc_walk shrink q rem_len s =
     do {
       b \<leftarrow> pbufs s q;
       if p_len b < rem_len
       then (if p_next b = 0 then None
             else pbuf_realloc_walk shrink (p_next b) (rem_len - p_len b)
               (put_pbuf q (b\<lparr>p_tot_len := p_tot_len b - shrink\<rparr>) s))
       else Some (q, rem_len, s) }"

text \<open>\<^verbatim>\<open>mem_trim\<close> with the C library's allocator returns its argument and changes nothing.\<close>

definition pbuf_realloc :: "('m, ('k, 'm, 'z) lwip_scheme) pbuf_env \<Rightarrow> addr \<Rightarrow> u16 \<Rightarrow> ('k, 'm, 'z) lwip_scheme \<Rightarrow> ('k, 'm, 'z) lwip_scheme option" where
  "pbuf_realloc E p new_len s =
     (if p = 0 then None
      else do {
        b \<leftarrow> pbufs s p;
        if p_tot_len b \<le> new_len then Some s
        else do {
          w \<leftarrow> pbuf_realloc_walk (p_tot_len b - new_len) p new_len s;
          let q = fst w; rem_len = fst (snd w); s1 = snd (snd w)
          in do {
            c \<leftarrow> pbufs s1 q;
            let s2 = put_pbuf q (c\<lparr>p_len := rem_len, p_tot_len := rem_len\<rparr>) s1
            in do {
              s3 \<leftarrow> (if p_next c \<noteq> 0 then do { r \<leftarrow> pbuf_free E (p_next c) s2; Some (snd r) } else Some s2);
              d \<leftarrow> pbufs s3 q;
              Some (put_pbuf q (d\<lparr>p_next := 0\<rparr>) s3) } } } })"

section \<open>Chains\<close>

partial_function (option) pbuf_clen_loop :: "addr \<Rightarrow> u16 \<Rightarrow> ('k, 'm, 'z) lwip_scheme \<Rightarrow> u16 option" where
  "pbuf_clen_loop p len s =
     (if p = 0 then Some len else do { b \<leftarrow> pbufs s p; pbuf_clen_loop (p_next b) (len + 1) s })"

definition pbuf_clen :: "addr \<Rightarrow> ('k, 'm, 'z) lwip_scheme \<Rightarrow> u16 option" where
  "pbuf_clen p s = pbuf_clen_loop p 0 s"

definition pbuf_ref :: "addr \<Rightarrow> ('k, 'm, 'z) lwip_scheme \<Rightarrow> ('k, 'm, 'z) lwip_scheme option" where
  "pbuf_ref p s =
     (if p = 0 then Some s
      else do {
        b \<leftarrow> pbufs s p;
        if p_ref b + 1 = 0 then None else Some (put_pbuf p (b\<lparr>p_ref := p_ref b + 1\<rparr>) s) })"

text \<open>
  The code reads \<^verbatim>\<open>t->tot_len\<close> anew in every turn; it changes when \<open>t\<close> is itself in the chain of
  \<open>h\<close>, and so the model reads it anew as well.
\<close>

partial_function (option) pbuf_cat_loop :: "addr \<Rightarrow> addr \<Rightarrow> ('k, 'm, 'z) lwip_scheme \<Rightarrow> ('k, 'm, 'z) lwip_scheme option" where
  "pbuf_cat_loop p t s =
     do {
       b \<leftarrow> pbufs s p;
       c \<leftarrow> pbufs s t;
       if p_next b \<noteq> 0
       then pbuf_cat_loop (p_next b) t (put_pbuf p (b\<lparr>p_tot_len := p_tot_len b + p_tot_len c\<rparr>) s)
       else if p_tot_len b \<noteq> p_len b then None
       else Some (put_pbuf p (b\<lparr>p_tot_len := p_tot_len b + p_tot_len c, p_next := t\<rparr>) s) }"

definition pbuf_cat :: "addr \<Rightarrow> addr \<Rightarrow> ('k, 'm, 'z) lwip_scheme \<Rightarrow> ('k, 'm, 'z) lwip_scheme option" where
  "pbuf_cat h t s = (if h = 0 \<or> t = 0 then Some s else pbuf_cat_loop h t s)"

definition pbuf_chain :: "addr \<Rightarrow> addr \<Rightarrow> ('k, 'm, 'z) lwip_scheme \<Rightarrow> ('k, 'm, 'z) lwip_scheme option" where
  "pbuf_chain h t s = do { s1 \<leftarrow> pbuf_cat h t s; pbuf_ref t s1 }"

definition pbuf_dechain :: "('m, ('k, 'm, 'z) lwip_scheme) pbuf_env \<Rightarrow> addr \<Rightarrow> ('k, 'm, 'z) lwip_scheme \<Rightarrow> (addr \<times> ('k, 'm, 'z) lwip_scheme) option" where
  "pbuf_dechain E p s =
     do {
       b \<leftarrow> pbufs s p;
       let q = p_next b
       in if q = 0 then (if p_tot_len b \<noteq> p_len b then None else Some (0, s))
          else do {
            c \<leftarrow> pbufs s q;
            if p_tot_len b < p_len b \<or> p_tot_len c \<noteq> p_tot_len b - p_len b then None
            else let s1 = put_pbuf p (b\<lparr>p_next := 0, p_tot_len := p_len b\<rparr>)
                            (put_pbuf q (c\<lparr>p_tot_len := p_tot_len b - p_len b\<rparr>) s)
                 in do {
                   r \<leftarrow> pbuf_free E q s1;
                   d \<leftarrow> pbufs (snd r) p;
                   if p_tot_len d \<noteq> p_len d then None else Some (if 0 < fst r then 0 else q, snd r) } } }"

section \<open>Chains as lists\<close>

text \<open>
  \<open>chain P p as\<close>: the pbufs reached from \<open>p\<close> along \<^verbatim>\<open>next\<close> are the addresses \<open>as\<close>, and the last one ends
  the chain.  \<open>payload\<close> is the data of the chain, \<open>packet\<close> adds the invariant of a packet: no pbuf
  twice, and every \<^verbatim>\<open>tot_len\<close> the length of the data from its pbuf on.
\<close>

fun chain :: "(addr \<Rightarrow> pbuf option) \<Rightarrow> addr \<Rightarrow> addr list \<Rightarrow> bool" where
  "chain P p [] \<longleftrightarrow> p = 0"
| "chain P p (a # as) \<longleftrightarrow> p = a \<and> a \<noteq> 0 \<and> (case P a of None \<Rightarrow> False | Some b \<Rightarrow> chain P (p_next b) as)"

definition pbuf_bytes :: "memory \<Rightarrow> pbuf \<Rightarrow> u8 list" where
  "pbuf_bytes m b = mem_read m (p_payload b) (unat (p_len b))"

fun payload :: "memory \<Rightarrow> (addr \<Rightarrow> pbuf option) \<Rightarrow> addr list \<Rightarrow> u8 list" where
  "payload m P [] = []"
| "payload m P (a # as) = (case P a of None \<Rightarrow> [] | Some b \<Rightarrow> pbuf_bytes m b) @ payload m P as"

fun tot_ok :: "(addr \<Rightarrow> pbuf option) \<Rightarrow> addr list \<Rightarrow> nat \<Rightarrow> bool" where
  "tot_ok P [] n \<longleftrightarrow> n = 0"
| "tot_ok P (a # as) n \<longleftrightarrow>
     (case P a of None \<Rightarrow> False
      | Some b \<Rightarrow> unat (p_tot_len b) = n \<and> unat (p_len b) \<le> n \<and> tot_ok P as (n - unat (p_len b)))"

definition packet :: "(addr \<Rightarrow> pbuf option) \<Rightarrow> addr \<Rightarrow> addr list \<Rightarrow> nat \<Rightarrow> bool" where
  "packet P p as n \<longleftrightarrow> chain P p as \<and> distinct as \<and> tot_ok P as n"

lemma length_pbuf_bytes [simp]: "length (pbuf_bytes m b) = unat (p_len b)"
  by (simp add: pbuf_bytes_def)

lemma chain_fun: "chain P p as \<Longrightarrow> chain P p bs \<Longrightarrow> as = bs"
proof (induction as arbitrary: p bs)
  case Nil
  then show ?case by (cases bs) auto
next
  case (Cons a as)
  then show ?case by (cases bs) (auto split: option.splits)
qed

text \<open>Only the pbufs of the chain matter.\<close>

lemma chain_cong: "(\<And>a. a \<in> set as \<Longrightarrow> P a = Q a) \<Longrightarrow> chain P p as = chain Q p as"
  by (induction as arbitrary: p) (auto split: option.splits)

lemma tot_ok_cong: "(\<And>a. a \<in> set as \<Longrightarrow> P a = Q a) \<Longrightarrow> tot_ok P as n = tot_ok Q as n"
  by (induction as arbitrary: n) (auto split: option.splits)

lemma payload_cong: "(\<And>a. a \<in> set as \<Longrightarrow> P a = Q a) \<Longrightarrow> payload m P as = payload m Q as"
  by (induction as) auto

lemma payload_length: "tot_ok P as n \<Longrightarrow> length (payload m P as) = n"
  by (induction as arbitrary: n) (auto split: option.splits)

lemma payload_append: "payload m P (as @ bs) = payload m P as @ payload m P bs"
  by (induction as) simp_all

lemma chain_upd: "a \<notin> set as \<Longrightarrow> chain (P(a := x)) p as = chain P p as"
  by (rule chain_cong) auto

lemma tot_ok_upd: "a \<notin> set as \<Longrightarrow> tot_ok (P(a := x)) as n = tot_ok P as n"
  by (rule tot_ok_cong) auto

lemma payload_upd: "a \<notin> set as \<Longrightarrow> payload m (P(a := x)) as = payload m P as"
  by (rule payload_cong) auto

lemmas chain_upds [simp] = chain_upd tot_ok_upd payload_upd

lemma pbufs_put_pbuf [simp]: "pbufs (put_pbuf p b s) = (pbufs s)(p \<mapsto> b)"
  by (simp add: put_pbuf_def)

lemma mem_put_pbuf [simp]: "mem (put_pbuf p b s) = mem s"
  by (simp add: put_pbuf_def)

section \<open>A concrete state\<close>

text \<open>
  A bump allocator that never reuses memory, and a packet of two pbufs at \<open>0x1000\<close> and \<open>0x2000\<close> with
  the data 10, 20, 30 and 40, 50.
\<close>

definition demo_env :: "(u64, (sim, u64) lwip) pbuf_env" where
  "demo_env = \<lparr>e_malloc = (\<lambda>n a. (a, a + ((n + 15) AND NOT 15))), e_free = (\<lambda>p a. a), e_custom_free = (\<lambda>p s. None)\<rparr>"

definition demo_pbuf1 :: pbuf where
  "demo_pbuf1 = \<lparr>p_next = 0x2000, p_payload = 0x1021, p_tot_len = 5, p_len = 3, p_type_internal = 0x80,
     p_flags = 0, p_ref = 1, p_if_idx = 0\<rparr>"

definition demo_pbuf2 :: pbuf where
  "demo_pbuf2 = \<lparr>p_next = 0, p_payload = 0x2020, p_tot_len = 2, p_len = 2, p_type_internal = 0x80,
     p_flags = 0, p_ref = 1, p_if_idx = 0\<rparr>"

definition demo_lwip :: "(sim, u64) lwip" where
  "demo_lwip = heap.extend (demo_heap\<lparr>mem := mem_write (mem_write (\<lambda>_. 0) 0x1021 [10, 20, 30]) 0x2020 [40, 50]\<rparr>)
     \<lparr>alloc = 0x10000, pbufs = [0x1000 \<mapsto> demo_pbuf1, 0x2000 \<mapsto> demo_pbuf2]\<rparr>"

lemmas demo_lwip_eval = demo_lwip_def demo_pbuf1_def demo_pbuf2_def demo_heap_def demo_env_def heap.defs

lemma demo_packet: "packet (pbufs demo_lwip) 0x1000 [0x1000, 0x2000] 5"
  by (simp add: packet_def demo_lwip_eval)

lemma demo_payload: "payload (mem demo_lwip) (pbufs demo_lwip) [0x1000, 0x2000] = [10, 20, 30, 40, 50]"
  by (simp add: demo_lwip_eval pbuf_bytes_def mem_read_def upt_rec)

end
