(* ===== verification/BM_Chksum.thy ===== *)
theory BM_Chksum
  imports BM_Pbuf
begin

text \<open>
  The Internet checksum of lwIP, \<^verbatim>\<open>core/inet_chksum.c\<close> with \<^verbatim>\<open>LWIP_CHKSUM_ALGORITHM\<close> 2: 16-bit loads from
  an aligned pointer into a 32-bit sum that is folded twice.  The reference is the one of RFC 1071,
  the one's complement sum of the 16-bit words of the data with an end-around carry; the words are
  little-endian, as the machine loads them.
\<close>

section \<open>The code\<close>

definition SWAP_BYTES_IN_WORD :: "u32 \<Rightarrow> u32" where
  "SWAP_BYTES_IN_WORD w = push_bit 8 (w AND 0xff) OR drop_bit 8 (w AND 0xff00)"

definition FOLD_U32T :: "u32 \<Rightarrow> u32" where
  "FOLD_U32T u = drop_bit 16 u + (u AND 0x0000ffff)"

text \<open>The bulk loop: the sum, the pointer and the length it ends with.\<close>

function chksum_bulk :: "memory \<Rightarrow> addr \<Rightarrow> int \<Rightarrow> u32 \<Rightarrow> u32 \<times> addr \<times> int" where
  "chksum_bulk m ps len sm =
     (if 1 < len then chksum_bulk m (ps + 2) (len - 2) (sm + ucast (of_le_bytes (mem_read m ps 2) :: u16))
      else (sm, ps, len))"
  by pat_completeness auto
termination by (relation "measure (\<lambda>(m, ps, len, sm). nat len)") auto

declare chksum_bulk.simps [simp del]

definition lwip_standard_chksum :: "memory \<Rightarrow> addr \<Rightarrow> int \<Rightarrow> u16" where
  "lwip_standard_chksum m dataptr len =
     (let odd_ptr = dataptr AND 1 \<noteq> 0;
          lead = odd_ptr \<and> 0 < len;
          t = (if lead then push_bit 8 (ucast (m dataptr)) else 0 :: u16);
          (sm, ps, left) = chksum_bulk m (if lead then dataptr + 1 else dataptr) (if lead then len - 1 else len) 0;
          t = (if 0 < left then (t AND 0xff00) OR ucast (m ps) else t);
          sm = FOLD_U32T (FOLD_U32T (sm + ucast t));
          sm = (if odd_ptr then SWAP_BYTES_IN_WORD sm else sm)
      in ucast sm)"

text \<open>The loop over a chain that \<^verbatim>\<open>inet_chksum_pbuf\<close> and \<^verbatim>\<open>inet_cksum_pseudo_base\<close> share.\<close>

partial_function (option) chksum_chain :: "addr \<Rightarrow> u32 \<Rightarrow> bool \<Rightarrow> ('k, 'm, 'z) lwip_scheme \<Rightarrow> (u32 \<times> bool) option" where
  "chksum_chain q acc swapped s =
     (if q = 0 then Some (acc, swapped)
      else do {
        b \<leftarrow> pbufs s q;
        let acc1 = FOLD_U32T (acc + ucast (lwip_standard_chksum (mem s) (p_payload b) (uint (p_len b))))
        in if p_len b mod 2 \<noteq> 0 then chksum_chain (p_next b) (SWAP_BYTES_IN_WORD acc1) (\<not> swapped) s
           else chksum_chain (p_next b) acc1 swapped s })"

text \<open>The end the two pseudo-header sums share: \<open>proto\<close> and the length, two folds, the complement.\<close>

definition pseudo_finish :: "u8 \<Rightarrow> u16 \<Rightarrow> u32 \<Rightarrow> bool \<Rightarrow> u16" where
  "pseudo_finish proto proto_len acc swapped =
     (let acc1 = (if swapped then SWAP_BYTES_IN_WORD acc else acc);
          acc2 = acc1 + ucast (lwip_htons (ucast proto)) + ucast (lwip_htons proto_len)
      in ucast (NOT (FOLD_U32T (FOLD_U32T acc2) AND 0xffff)))"

definition inet_cksum_pseudo_base :: "addr \<Rightarrow> u8 \<Rightarrow> u16 \<Rightarrow> u32 \<Rightarrow> ('k, 'm, 'z) lwip_scheme \<Rightarrow> u16 option" where
  "inet_cksum_pseudo_base p proto proto_len acc s =
     do { r \<leftarrow> chksum_chain p acc False s; Some (pseudo_finish proto proto_len (fst r) (snd r)) }"

text \<open>The sum of the two addresses of the pseudo header.\<close>

definition pseudo_acc :: "u32 \<Rightarrow> u32 \<Rightarrow> u32" where
  "pseudo_acc src dest =
     FOLD_U32T (FOLD_U32T ((src AND 0xffff) + (drop_bit 16 src AND 0xffff) + (dest AND 0xffff) + (drop_bit 16 dest AND 0xffff)))"

definition inet_chksum_pseudo :: "addr \<Rightarrow> u8 \<Rightarrow> u16 \<Rightarrow> u32 \<Rightarrow> u32 \<Rightarrow> ('k, 'm, 'z) lwip_scheme \<Rightarrow> u16 option" where
  "inet_chksum_pseudo p proto proto_len src dest s = inet_cksum_pseudo_base p proto proto_len (pseudo_acc src dest) s"

definition ip_chksum_pseudo :: "addr \<Rightarrow> u8 \<Rightarrow> u16 \<Rightarrow> u32 \<Rightarrow> u32 \<Rightarrow> ('k, 'm, 'z) lwip_scheme \<Rightarrow> u16 option" where
  "ip_chksum_pseudo p proto proto_len src dest s = inet_chksum_pseudo p proto proto_len src dest s"

partial_function (option) chksum_chain_partial :: "addr \<Rightarrow> u16 \<Rightarrow> u32 \<Rightarrow> bool \<Rightarrow> ('k, 'm, 'z) lwip_scheme \<Rightarrow> (u32 \<times> bool) option" where
  "chksum_chain_partial q chksum_len acc swapped s =
     (if q = 0 \<or> chksum_len = 0 then Some (acc, swapped)
      else do {
        b \<leftarrow> pbufs s q;
        let chklen = (if chksum_len < p_len b then chksum_len else p_len b);
            acc1 = FOLD_U32T (acc + ucast (lwip_standard_chksum (mem s) (p_payload b) (uint chklen)));
            left = chksum_len - chklen
        in if \<not> left < 0x7fff then None
           else if p_len b mod 2 \<noteq> 0 then chksum_chain_partial (p_next b) left (SWAP_BYTES_IN_WORD acc1) (\<not> swapped) s
           else chksum_chain_partial (p_next b) left acc1 swapped s })"

definition inet_cksum_pseudo_partial_base :: "addr \<Rightarrow> u8 \<Rightarrow> u16 \<Rightarrow> u16 \<Rightarrow> u32 \<Rightarrow> ('k, 'm, 'z) lwip_scheme \<Rightarrow> u16 option" where
  "inet_cksum_pseudo_partial_base p proto proto_len chksum_len acc s =
     do { r \<leftarrow> chksum_chain_partial p chksum_len acc False s; Some (pseudo_finish proto proto_len (fst r) (snd r)) }"

definition inet_chksum_pseudo_partial :: "addr \<Rightarrow> u8 \<Rightarrow> u16 \<Rightarrow> u16 \<Rightarrow> u32 \<Rightarrow> u32 \<Rightarrow> ('k, 'm, 'z) lwip_scheme \<Rightarrow> u16 option" where
  "inet_chksum_pseudo_partial p proto proto_len chksum_len src dest s =
     inet_cksum_pseudo_partial_base p proto proto_len chksum_len (pseudo_acc src dest) s"

definition ip_chksum_pseudo_partial :: "addr \<Rightarrow> u8 \<Rightarrow> u16 \<Rightarrow> u16 \<Rightarrow> u32 \<Rightarrow> u32 \<Rightarrow> ('k, 'm, 'z) lwip_scheme \<Rightarrow> u16 option" where
  "ip_chksum_pseudo_partial p proto proto_len chksum_len src dest s =
     inet_chksum_pseudo_partial p proto proto_len chksum_len src dest s"

definition inet_chksum :: "memory \<Rightarrow> addr \<Rightarrow> u16 \<Rightarrow> u16" where
  "inet_chksum m dataptr len = NOT (lwip_standard_chksum m dataptr (uint len))"

definition inet_chksum_pbuf :: "addr \<Rightarrow> ('k, 'm, 'z) lwip_scheme \<Rightarrow> u16 option" where
  "inet_chksum_pbuf p s =
     do {
       r \<leftarrow> chksum_chain p 0 False s;
       Some (ucast (NOT ((if snd r then SWAP_BYTES_IN_WORD (fst r) else fst r) AND 0xffff))) }"

definition lwip_chksum_copy :: "addr \<Rightarrow> addr \<Rightarrow> u16 \<Rightarrow> memory \<Rightarrow> u16 \<times> memory" where
  "lwip_chksum_copy dst src len m =
     (let m' = mem_write m dst (mem_read m src (unat len)) in (lwip_standard_chksum m' dst (uint len), m'))"

section \<open>The reference\<close>

text \<open>One's complement addition of 16-bit values: an end-around carry.\<close>

definition oc_add :: "nat \<Rightarrow> nat \<Rightarrow> nat" where
  "oc_add a b = (if a + b < 65536 then a + b else a + b - 65535)"

fun rfc1071 :: "u8 list \<Rightarrow> nat" where
  "rfc1071 [] = 0"
| "rfc1071 [a] = unat a"
| "rfc1071 (a # b # r) = oc_add (unat a + 256 * unat b) (rfc1071 r)"

text \<open>
  The same residue as one number: the bytes as the digits of a base 256 number modulo 65535, where
  0 stands for no data but zeros.
\<close>

fun digits :: "u8 list \<Rightarrow> nat" where
  "digits [] = 0"
| "digits (b # bs) = unat b + 256 * digits bs"

definition norm16 :: "nat \<Rightarrow> nat" where
  "norm16 n = (if n = 0 then 0 else (n - 1) mod 65535 + 1)"

definition rep :: "nat \<Rightarrow> nat \<Rightarrow> bool" where
  "rep x n \<longleftrightarrow> x mod 65535 = n mod 65535 \<and> (x = 0 \<longleftrightarrow> n = 0)"

lemma rep_refl [simp]: "rep n n"
  by (simp add: rep_def)

lemma rep_trans: "rep a b \<Longrightarrow> rep b c \<Longrightarrow> rep a c"
  by (simp add: rep_def)

lemma rep_sym: "rep a b \<Longrightarrow> rep b a"
  by (simp add: rep_def)

lemma rep_add: "rep a b \<Longrightarrow> rep c d \<Longrightarrow> rep (a + c) (b + d)"
  unfolding rep_def by (auto intro: mod_add_cong)

lemma rep_mult: "rep a b \<Longrightarrow> 0 < c \<Longrightarrow> rep (c * a) (c * b)"
  unfolding rep_def by (auto intro: mod_mult_cong)

lemma rep_fold: "rep (a + 65536 * b) (a + b)"
proof -
  have "a + 65536 * b = (a + b) + 65535 * b" by simp
  then show ?thesis unfolding rep_def by (simp only: mod_mult_self2) auto
qed

lemma rep_norm16: "rep (norm16 n) n"
proof (cases n)
  case (Suc k)
  then show ?thesis by (simp add: rep_def norm16_def mod_simps)
qed (simp add: norm16_def)

lemma norm16_le: "norm16 n \<le> 65535"
  unfolding norm16_def by (simp add: Suc_le_eq)

lemma rep_norm16_eq:
  assumes "rep x n" "x \<le> 65535"
  shows "x = norm16 n"
proof -
  have r: "rep x (norm16 n)" using assms(1) rep_norm16 rep_sym rep_trans by blast
  have le: "norm16 n \<le> 65535" by (rule norm16_le)
  show ?thesis
  proof (cases "x = 65535 \<or> norm16 n = 65535")
    case True
    have z: "v = 65535" if "v \<le> 65535" "v mod 65535 = 0" "v \<noteq> 0" for v :: nat
      using that mod_less [of v 65535] by linarith
    show ?thesis using True r z [OF le] z [OF assms(2)] by (auto simp: rep_def)
  next
    case False
    then have "x < 65535" "norm16 n < 65535" using le assms(2) by auto
    then show ?thesis using r by (simp add: rep_def)
  qed
qed

lemma norm16_cong: "rep x y \<Longrightarrow> norm16 x = norm16 y"
  using rep_norm16_eq [OF rep_trans [OF rep_norm16] norm16_le] by blast

lemma rep_square: "rep (256 * (256 * n)) n"
  using rep_fold [of 0 n] by (simp only: mult.assoc [symmetric]) simp

lemma rep_pow: "rep (256 ^ (2 * k) * n) n"
proof (induction k)
  case (Suc k)
  then show ?case using rep_trans [OF rep_square [of "256 ^ (2 * k) * n"]] by (simp add: mult.assoc)
qed simp

section \<open>RFC 1071 as one residue\<close>

lemma oc_add_rep: "rep (oc_add a b) (a + b)"
proof (cases "a + b < 65536")
  case False
  then have e: "a + b = oc_add a b + 65535" by (simp add: oc_add_def)
  have "oc_add a b \<noteq> 0" using False by (simp add: oc_add_def)
  then show ?thesis unfolding e rep_def by simp
qed (simp add: oc_add_def)

lemma oc_add_le: "a \<le> 65535 \<Longrightarrow> b \<le> 65535 \<Longrightarrow> oc_add a b \<le> 65535"
  by (auto simp: oc_add_def)

lemma unat_u8_le: "unat (a :: u8) \<le> 255"
  using unat_less_len [of a] by simp

lemma rfc1071_le: "rfc1071 bs \<le> 65535"
proof (induction bs rule: rfc1071.induct)
  case (3 a b r)
  have "unat a + 256 * unat b \<le> 65535" using unat_u8_le [of a] unat_u8_le [of b] by linarith
  then show ?case using 3 by (simp add: oc_add_le)
next
  case (2 a)
  then show ?case using unat_u8_le [of a] by simp
qed simp

lemma rfc1071_rep: "rep (rfc1071 bs) (digits bs)"
proof (induction bs rule: rfc1071.induct)
  case (3 a b r)
  have "rep (rfc1071 r) (256 * (256 * digits r))"
    using 3 rep_square rep_sym rep_trans by blast
  then have "rep (unat a + 256 * unat b + rfc1071 r) (unat a + 256 * unat b + 256 * (256 * digits r))"
    by (rule rep_add [OF rep_refl])
  then show ?case using rep_trans [OF oc_add_rep] by (simp add: algebra_simps)
qed simp_all

lemma rfc1071_norm16: "rfc1071 bs = norm16 (digits bs)"
  by (rule rep_norm16_eq [OF rfc1071_rep rfc1071_le])

lemma digits_append: "digits (xs @ ys) = digits xs + 256 ^ length xs * digits ys"
  by (induction xs) (simp_all add: algebra_simps)

section \<open>Folding and swapping\<close>

lemma and_ffff: "u AND 0xffff = take_bit 16 u" for u :: u32
  by (simp add: take_bit_eq_mask mask_eq_exp_minus_1)

lemma unat_and_ffff: "unat ((u :: u32) AND 0xffff) = unat u mod 65536"
  unfolding and_ffff by (simp only: unsigned_take_bit_eq) (simp add: take_bit_eq_mod)

lemma unat_drop_16: "unat (drop_bit 16 (u :: u32)) = unat u div 65536"
  by (simp only: unsigned_drop_bit_eq) (simp add: drop_bit_eq_div take_bit_nat_eq_self unsigned_less [of u, simplified])

lemma unat_FOLD: "unat (FOLD_U32T u) = unat u div 65536 + unat u mod 65536"
proof -
  have "unat u < 4294967296" using unat_less_len [of u] by simp
  then have "unat u div 65536 + unat u mod 65536 < 4294967296" by linarith
  then show ?thesis unfolding FOLD_U32T_def
    by (subst unat_plus_small) (simp_all add: unat_and_ffff unat_drop_16)
qed

lemma rep_FOLD: "rep (unat (FOLD_U32T u)) (unat u)"
proof -
  have "rep (unat u mod 65536 + 65536 * (unat u div 65536)) (unat u mod 65536 + unat u div 65536)"
    by (rule rep_fold)
  then show ?thesis unfolding unat_FOLD by (simp add: rep_sym add.commute)
qed

lemma FOLD_le: "unat u \<le> 131070 \<Longrightarrow> unat (FOLD_U32T u) \<le> 65535"
  unfolding unat_FOLD by (cases "unat u < 65536") (simp_all add: le_div_geq le_mod_geq)

lemma FOLD_FOLD_le: "unat (FOLD_U32T (FOLD_U32T u)) \<le> 65535"
proof (rule FOLD_le)
  have "unat u < 4294967296" using unat_less_len [of u] by simp
  then show "unat (FOLD_U32T u) \<le> 131070" unfolding unat_FOLD by linarith
qed

lemma rep_FOLD_FOLD: "rep (unat (FOLD_U32T (FOLD_U32T u))) (unat u)"
  using rep_FOLD rep_trans by blast

lemma unat_SWAP:
  assumes "unat w \<le> 65535"
  shows "unat (SWAP_BYTES_IN_WORD w) = 256 * (unat w mod 256) + unat w div 256"
proof -
  have b: "w AND 0xff = take_bit 8 w" by (simp add: take_bit_eq_mask mask_eq_exp_minus_1)
  have c: "drop_bit 8 (w AND 0xff00) = take_bit 8 (drop_bit 8 w)"
    unfolding byte_masks by (rule bit_word_eqI) (auto simp: bit_simps)
  have d: "push_bit 8 (take_bit 8 w) AND take_bit 8 (drop_bit 8 w) = 0"
    by (rule bit_word_eqI) (auto simp: bit_simps)
  have l: "unat (take_bit 8 w) = unat w mod 256"
    by (simp only: unsigned_take_bit_eq) (simp add: take_bit_eq_mod)
  have "unat (take_bit 8 (drop_bit 8 w)) = unat w div 256 mod 256"
    by (simp only: unsigned_take_bit_eq unsigned_drop_bit_eq)
      (simp add: take_bit_eq_mod drop_bit_eq_div unsigned_less [of w, simplified])
  then have r: "unat (take_bit 8 (drop_bit 8 w)) = unat w div 256"
    using assms by (simp add: mod_less)
  have p: "unat (push_bit 8 (take_bit 8 w)) = 256 * (unat w mod 256)"
    by (subst push_bit_eq_mult, subst unat_mult_small) (simp_all add: l)
  have "unat (push_bit 8 (take_bit 8 w)) + unat (take_bit 8 (drop_bit 8 w)) < 2 ^ LENGTH(32)"
    unfolding p r using assms by simp
  then show ?thesis
    unfolding SWAP_BYTES_IN_WORD_def b c disjunctive_add_eq_or [OF d, symmetric]
    by (simp only: unat_plus_small) (simp only: p r)
qed

lemma SWAP_le: "unat w \<le> 65535 \<Longrightarrow> unat (SWAP_BYTES_IN_WORD w) \<le> 65535"
  unfolding unat_SWAP by linarith

lemma rep_SWAP: 
  assumes "unat w \<le> 65535"
  shows "rep (unat (SWAP_BYTES_IN_WORD w)) (256 * unat w)"
proof -
  have "rep (256 * (unat w mod 256) + 65536 * (unat w div 256)) (256 * (unat w mod 256) + unat w div 256)"
    by (rule rep_fold)
  moreover have "256 * (unat w mod 256) + 65536 * (unat w div 256) = 256 * unat w"
    using div_mult_mod_eq [of "unat w" 256] by linarith
  ultimately show ?thesis unfolding unat_SWAP [OF assms] by (simp add: rep_sym)
qed

section \<open>The checksum of a block\<close>

lemma unat_le_bytes_2: "unat (of_le_bytes [a, b] :: u16) = unat a + 256 * unat b"
proof -
  have "unat (push_bit 8 (ucast b :: u16)) = 256 * unat b"
    using unat_u8_le [of b]
    by (subst push_bit_eq_mult, subst unat_mult_small) (simp_all add: unsigned_ucast_eq take_bit_nat_eq_self)
  moreover have "ucast a AND push_bit 8 (ucast b :: u16) = 0"
    by (rule bit_word_eqI) (auto simp: bit_simps dest: bit_imp_le_length)
  ultimately show ?thesis
    using unat_u8_le [of a] unat_u8_le [of b]
    by (simp add: disjunctive_add_eq_or [symmetric] unat_plus_small unsigned_ucast_eq take_bit_nat_eq_self)
qed

lemma chksum_bulk_rep:
  assumes "unat sm + 65535 * k < 2 ^ 32" "l < 2"
  shows "\<exists>r. chksum_bulk m ps (int (2 * k + l)) sm = (r, ps + of_nat (2 * k), int l)
    \<and> rep (unat r) (unat sm + digits (mem_read m ps (2 * k))) \<and> unat r \<le> unat sm + 65535 * k"
  using assms(1)
proof (induction k arbitrary: ps sm)
  case 0
  then show ?case using assms(2) by (subst chksum_bulk.simps) (simp add: mem_read_def)
next
  case (Suc k)
  define v :: u16 where "v = of_le_bytes (mem_read m ps 2)"
  have two: "mem_read m ps 2 = [m ps, m (ps + 1)]"
    by (simp add: mem_read_def numeral_2_eq_2)
  have v: "unat v = unat (m ps) + 256 * unat (m (ps + 1))"
    unfolding v_def two by (rule unat_le_bytes_2)
  have sv: "unat (sm + ucast v) = unat sm + unat v"
    using Suc.prems unat_u16_less [of v]
    by (subst unat_plus_small) (simp_all add: unsigned_ucast_eq take_bit_nat_eq_self)
  obtain r where r: "chksum_bulk m (ps + 2) (int (2 * k + l)) (sm + ucast v) = (r, ps + 2 + of_nat (2 * k), int l)"
    "rep (unat r) (unat (sm + ucast v) + digits (mem_read m (ps + 2) (2 * k)))" "unat r \<le> unat (sm + ucast v) + 65535 * k"
    using Suc.IH [of "sm + ucast v" "ps + 2"] Suc.prems unat_u16_less [of v] unfolding sv by auto
  have b: "chksum_bulk m ps (int (2 * Suc k + l)) sm = (r, ps + of_nat (2 * Suc k), int l)"
    by (subst chksum_bulk.simps) (use r(1) in \<open>simp add: v_def algebra_simps\<close>)
  have "digits (mem_read m ps (2 * Suc k)) = unat v + 256 * (256 * digits (mem_read m (ps + 2) (2 * k)))"
    unfolding v by (simp add: mem_read_Suc add.assoc)
  then have "rep (unat v + digits (mem_read m (ps + 2) (2 * k))) (digits (mem_read m ps (2 * Suc k)))"
    using rep_add [OF rep_refl rep_sym [OF rep_square]] by (simp only:)
  then have "rep (unat r) (unat sm + digits (mem_read m ps (2 * Suc k)))"
    using rep_trans [OF r(2)] rep_add [OF rep_refl] unfolding sv by (simp add: add.assoc)
  moreover have "unat r \<le> unat sm + 65535 * Suc k"
    using r(3) unat_u16_less [of v] unfolding sv by simp
  ultimately show ?case using b by blast
qed

text \<open>The end of the routine: the two folds, the swap for an odd pointer, the cast.\<close>

lemma chksum_end:
  assumes "rep (unat sm) n"
  shows "unat (ucast (FOLD_U32T (FOLD_U32T sm)) :: u16) = norm16 n"
    and "unat (ucast (SWAP_BYTES_IN_WORD (FOLD_U32T (FOLD_U32T sm))) :: u16) = norm16 (256 * n)"
proof -
  let ?f = "FOLD_U32T (FOLD_U32T sm)"
  have r: "rep (unat ?f) n" using rep_FOLD_FOLD assms rep_trans by blast
  have c: "unat (ucast u :: u16) = unat u" if "unat u \<le> 65535" for u :: u32
    using that by (simp add: unsigned_ucast_eq take_bit_nat_eq_self)
  show "unat (ucast ?f :: u16) = norm16 n"
    using c [OF FOLD_FOLD_le] rep_norm16_eq [OF r FOLD_FOLD_le] by simp
  have "rep (unat (SWAP_BYTES_IN_WORD ?f)) (256 * n)"
    using rep_trans [OF rep_SWAP [OF FOLD_FOLD_le] rep_mult [OF r]] by simp
  then show "unat (ucast (SWAP_BYTES_IN_WORD ?f) :: u16) = norm16 (256 * n)"
    using c [OF SWAP_le [OF FOLD_FOLD_le]] rep_norm16_eq [OF _ SWAP_le [OF FOLD_FOLD_le]] by simp
qed

text \<open>The bytes outside the aligned words: \<open>t\<close> has the first byte of an odd block high and the last low.\<close>

definition end_bytes :: "bool \<Rightarrow> u8 \<Rightarrow> bool \<Rightarrow> u8 \<Rightarrow> u16" where
  "end_bytes lead a trail b =
     (let t = (if lead then push_bit 8 (ucast a) else 0) in if trail then (t AND 0xff00) OR ucast b else t)"

lemma unat_end_bytes: "unat (end_bytes lead a trail b) = (if lead then 256 * unat a else 0) + (if trail then unat b else 0)"
proof -
  have h: "push_bit 8 (ucast x :: u16) AND 0xff00 = push_bit 8 (ucast x)" for x :: u8
    unfolding byte_masks by (rule bit_word_eqI) (auto simp: bit_simps)
  have z: "of_le_bytes [b, 0] = (ucast b :: u16)" "of_le_bytes [0, a] = (push_bit 8 (ucast a) :: u16)"
    "of_le_bytes [b, a] = (push_bit 8 (ucast a) OR ucast b :: u16)"
    by (simp_all add: or.commute)
  show ?thesis
    unfolding end_bytes_def Let_def using unat_le_bytes_2 [of b 0] unat_le_bytes_2 [of 0 a] unat_le_bytes_2 [of b a]
    unfolding z by (simp add: h)
qed

lemma chksum_body:
  assumes "n \<le> 131070"
  obtains r where "chksum_bulk m start (int n) 0 = (r, start + of_nat (2 * (n div 2)), int (n mod 2))"
    and "\<And>lead a. rep (unat (r + ucast (end_bytes lead a (0 < int (n mod 2)) (m (start + of_nat (2 * (n div 2)))))))
      ((if lead then 256 * unat a else 0) + digits (mem_read m start n))"
proof -
  define k l b where d: "k = n div 2" "l = n mod 2" "b = m (start + of_nat (2 * k))"
  have n: "n = 2 * k + l" "l < 2" "k \<le> 65535" using assms unfolding d by auto
  obtain r where r: "chksum_bulk m start (int n) 0 = (r, start + of_nat (2 * k), int l)"
    "rep (unat r) (digits (mem_read m start (2 * k)))" "unat r \<le> 65535 * k"
    using chksum_bulk_rep [of 0 k l m start] n by auto
  have sp: "rep (digits (mem_read m start (2 * k)) + (if 0 < l then unat b else 0)) (digits (mem_read m start n))"
  proof (cases "l = 0")
    case False
    then have "digits (mem_read m start n) = digits (mem_read m start (2 * k)) + 256 ^ (2 * k) * unat b"
      using n(1,2) mem_read_add [of m start "2 * k" 1] False
      by (cases l) (simp_all add: digits_append d(3) mem_read_def [of m _ "Suc 0"])
    then show ?thesis using False rep_add [OF rep_refl rep_sym [OF rep_pow]] by simp
  qed (simp add: n)
  have "rep (unat (r + ucast (end_bytes lead a (0 < int l) b)))
      ((if lead then 256 * unat a else 0) + digits (mem_read m start n))" for lead a
  proof -
    let ?e = "end_bytes lead a (0 < int l) b"
    have "unat (r + ucast ?e) = unat r + unat ?e"
      using r(3) n(3) unat_u16_less [of ?e]
      by (subst unat_plus_small) (simp_all add: unsigned_ucast_eq take_bit_nat_eq_self)
    then have "unat (r + ucast ?e) = (if lead then 256 * unat a else 0) + (unat r + (if 0 < l then unat b else 0))"
      by (simp add: unat_end_bytes)
    then show ?thesis using rep_add [OF rep_refl rep_trans [OF rep_add [OF r(2) rep_refl] sp]] by simp
  qed
  then show ?thesis using that r(1) unfolding d by blast
qed

lemma lwip_standard_chksum_unfold:
  assumes "lead = (p AND 1 \<noteq> 0 \<and> 0 < len)"
    "chksum_bulk m (if lead then p + 1 else p) (if lead then len - 1 else len) 0 = (r, ps, left)"
    "e = r + ucast (end_bytes lead (m p) (0 < left) (m ps))"
  shows "lwip_standard_chksum m p len =
    ucast (if p AND 1 \<noteq> 0 then SWAP_BYTES_IN_WORD (FOLD_U32T (FOLD_U32T e)) else FOLD_U32T (FOLD_U32T e))"
  unfolding lwip_standard_chksum_def Let_def assms(1) [symmetric] assms(2) assms(3) end_bytes_def by simp

text \<open>The routine computes the sum of RFC 1071, whatever the alignment of the block.\<close>

lemma lwip_standard_chksum_eq:
  assumes "n \<le> 131070"
  shows "unat (lwip_standard_chksum m p (int n)) = rfc1071 (mem_read m p n)"
proof (cases "p AND 1 \<noteq> 0 \<and> 0 < n")
  case True
  then obtain j where j: "n = Suc j" by (cases n) auto
  obtain r where r: "chksum_bulk m (p + 1) (int j) 0 = (r, p + 1 + of_nat (2 * (j div 2)), int (j mod 2))"
    and e: "\<And>lead a. rep (unat (r + ucast (end_bytes lead a (0 < int (j mod 2)) (m (p + 1 + of_nat (2 * (j div 2)))))))
      ((if lead then 256 * unat a else 0) + digits (mem_read m (p + 1) j))"
    using chksum_body [of j m "p + 1"] assms j by auto
  have "rep (256 * (256 * unat (m p) + digits (mem_read m (p + 1) j))) (digits (mem_read m p n))"
    unfolding j mem_read_Suc digits.simps distrib_left by (rule rep_add [OF rep_square rep_refl])
  then have "norm16 (256 * (256 * unat (m p) + digits (mem_read m (p + 1) j))) = rfc1071 (mem_read m p n)"
    unfolding rfc1071_norm16 by (rule norm16_cong)
  then show ?thesis
    using True j chksum_end(2) [OF e [of True "m p"]] lwip_standard_chksum_unfold [OF _ _ refl, of True p "int n" m] r
    by simp
next
  case False
  obtain r where r: "chksum_bulk m p (int n) 0 = (r, p + of_nat (2 * (n div 2)), int (n mod 2))"
    and e: "\<And>lead a. rep (unat (r + ucast (end_bytes lead a (0 < int (n mod 2)) (m (p + of_nat (2 * (n div 2)))))))
      ((if lead then 256 * unat a else 0) + digits (mem_read m p n))"
    using chksum_body [of n m p] assms by auto
  have z: "norm16 0 = 0" "digits (mem_read m p 0) = 0" by (simp_all add: norm16_def mem_read_def)
  have u: "lwip_standard_chksum m p (int n) = ucast (if p AND 1 \<noteq> 0 then SWAP_BYTES_IN_WORD (FOLD_U32T (FOLD_U32T x)) else FOLD_U32T (FOLD_U32T x))"
    if "x = r + ucast (end_bytes False (m p) (0 < int (n mod 2)) (m (p + of_nat (2 * (n div 2)))))" for x
    by (rule lwip_standard_chksum_unfold [OF _ _ that]) (use False r in simp_all)
  have "p AND 1 \<noteq> 0 \<Longrightarrow> n = 0" using False by simp
  then show ?thesis
    unfolding u [OF refl] rfc1071_norm16 using chksum_end [OF e [of False "m p"]] z by auto
qed

section \<open>The checksum of a chain\<close>

text \<open>A byte swap multiplies by 256, so that a swap for each odd pbuf is a power of 256.\<close>

lemma rep_pow_parity: "rep (256 ^ k * n) (if odd k then 256 * n else n)"
proof (cases "odd k")
  case True
  then obtain j where "k = Suc (2 * j)" by (metis oddE Suc_eq_plus1)
  then show ?thesis using rep_mult [OF rep_pow [of j n], of 256] by (simp add: mult.assoc)
next
  case False
  then obtain j where "k = 2 * j" by (metis evenE)
  then show ?thesis using rep_pow [of j n] by simp
qed

lemma chksum_pbuf_step:
  assumes "unat acc \<le> 65535"
    and "acc1 = FOLD_U32T (acc + ucast (lwip_standard_chksum m (p_payload b) (uint (p_len b))))"
    and "acc2 = (if odd (unat (p_len b)) then SWAP_BYTES_IN_WORD acc1 else acc1)"
  shows "unat acc2 \<le> 65535" "rep (unat acc2) (256 ^ unat (p_len b) * (unat acc + digits (pbuf_bytes m b)))"
proof -
  let ?c = "lwip_standard_chksum m (p_payload b) (uint (p_len b))" and ?k = "unat (p_len b)"
  have "uint (p_len b) = int ?k" by simp
  then have c: "unat ?c = rfc1071 (pbuf_bytes m b)"
    unfolding pbuf_bytes_def using lwip_standard_chksum_eq [of ?k m] unat_u16_less [of "p_len b"] by simp
  have a: "unat (acc + ucast ?c) = unat acc + rfc1071 (pbuf_bytes m b)"
    using assms(1) rfc1071_le [of "pbuf_bytes m b"] c
    by (subst unat_plus_small) (simp_all add: unsigned_ucast_eq take_bit_nat_eq_self)
  have l1: "unat acc1 \<le> 65535"
    unfolding assms(2) by (rule FOLD_le) (use a assms(1) rfc1071_le [of "pbuf_bytes m b"] in simp)
  have r1: "rep (unat acc1) (unat acc + digits (pbuf_bytes m b))"
    using rep_FOLD [of "acc + ucast ?c"] rep_add [OF rep_refl rfc1071_rep] rep_trans
    unfolding assms(2) a by blast
  show "unat acc2 \<le> 65535" using l1 SWAP_le unfolding assms(3) by simp
  have "rep (unat acc2) (if odd ?k then 256 * (unat acc + digits (pbuf_bytes m b)) else unat acc + digits (pbuf_bytes m b))"
    using r1 rep_trans [OF rep_SWAP [OF l1] rep_mult [OF r1]] unfolding assms(3) by simp
  then show "rep (unat acc2) (256 ^ ?k * (unat acc + digits (pbuf_bytes m b)))"
    using rep_pow_parity rep_sym rep_trans by blast
qed

lemma odd_len_iff: "(l :: u16) mod 2 \<noteq> 0 \<longleftrightarrow> odd (unat l)"
proof -
  have "unat (l mod 2) = unat l mod 2" by (simp add: unat_mod_distrib)
  then show ?thesis by (metis odd_iff_mod_2_eq_one parity_cases unat_0 unat_eq_zero zero_neq_one)
qed

lemma chksum_chain_rep:
  assumes "chain (pbufs s) q as" "unat acc \<le> 65535"
  shows "\<exists>acc'. chksum_chain q acc sw s = Some (acc', sw \<noteq> odd (length (payload (mem s) (pbufs s) as)))
    \<and> unat acc' \<le> 65535
    \<and> rep (unat acc') (256 ^ length (payload (mem s) (pbufs s) as) * (unat acc + digits (payload (mem s) (pbufs s) as)))"
  using assms
proof (induction as arbitrary: q acc sw)
  case Nil
  then show ?case by (subst chksum_chain.simps) simp
next
  case (Cons a as)
  let ?X = "payload (mem s) (pbufs s) as"
  obtain b where q: "q = a" "a \<noteq> 0" and b: "pbufs s a = Some b" and ch: "chain (pbufs s) (p_next b) as"
    using Cons.prems(1) by (auto split: option.splits)
  let ?k = "unat (p_len b)" and ?B = "pbuf_bytes (mem s) b"
  define acc1 where "acc1 = FOLD_U32T (acc + ucast (lwip_standard_chksum (mem s) (p_payload b) (uint (p_len b))))"
  define acc2 where "acc2 = (if odd ?k then SWAP_BYTES_IN_WORD acc1 else acc1)"
  note st = chksum_pbuf_step [OF Cons.prems(2) acc1_def acc2_def]
  obtain acc' where h: "chksum_chain (p_next b) acc2 (sw \<noteq> odd ?k) s = Some (acc', (sw \<noteq> odd ?k) \<noteq> odd (length ?X))"
    "unat acc' \<le> 65535" "rep (unat acc') (256 ^ length ?X * (unat acc2 + digits ?X))"
    using Cons.IH [OF ch st(1), of "sw \<noteq> odd ?k"] by auto
  have "chksum_chain q acc sw s = chksum_chain (p_next b) acc2 (sw \<noteq> odd ?k) s"
    by (subst chksum_chain.simps) (simp add: q b acc1_def [symmetric] acc2_def odd_len_iff [symmetric] del: odd_len_iff)
  then have e: "chksum_chain q acc sw s = Some (acc', sw \<noteq> odd (length (?B @ ?X)))"
    using h(1) by auto
  have "rep (unat acc2 + digits ?X) (256 ^ ?k * (unat acc + digits ?B) + 256 ^ (2 * ?k) * digits ?X)"
    by (rule rep_add [OF st(2) rep_sym [OF rep_pow]])
  then have "rep (unat acc') (256 ^ length ?X * (256 ^ ?k * (unat acc + digits ?B) + 256 ^ (2 * ?k) * digits ?X))"
    using rep_trans [OF h(3)] rep_mult by simp
  then have "rep (unat acc') (256 ^ length (?B @ ?X) * (unat acc + digits (?B @ ?X)))"
    by (simp add: digits_append algebra_simps power_add mult_2)
  then show ?case using e h(2) b by auto
qed

text \<open>The sum of a chain with the pending swap undone.\<close>

lemma chksum_chain_unswapped:
  assumes "chain (pbufs s) q as" "unat acc \<le> 65535"
  obtains acc' sw where "chksum_chain q acc False s = Some (acc', sw)"
    "unat (if sw then SWAP_BYTES_IN_WORD acc' else acc') \<le> 65535"
    "rep (unat (if sw then SWAP_BYTES_IN_WORD acc' else acc')) (unat acc + digits (payload (mem s) (pbufs s) as))"
proof -
  let ?X = "payload (mem s) (pbufs s) as"
  let ?k = "length ?X" and ?n = "unat acc + digits ?X"
  obtain acc' where h: "chksum_chain q acc False s = Some (acc', odd ?k)" "unat acc' \<le> 65535" "rep (unat acc') (256 ^ ?k * ?n)"
    using chksum_chain_rep [OF assms, of False] by auto
  have r: "rep (unat acc') (if odd ?k then 256 * ?n else ?n)"
    using rep_trans [OF h(3) rep_pow_parity] by simp
  have "rep (unat (if odd ?k then SWAP_BYTES_IN_WORD acc' else acc')) ?n"
  proof (cases "odd ?k")
    case True
    then have "rep (256 * unat acc') (256 * (256 * ?n))" using rep_mult [OF r, of 256] by simp
    then show ?thesis using True rep_trans [OF rep_trans [OF rep_SWAP [OF h(2)]] rep_square] by simp
  qed (use r in simp)
  then show ?thesis using that [OF h(1)] h(2) SWAP_le by auto
qed

lemma not_ucast:
  assumes "unat u \<le> 65535"
  shows "ucast (NOT (u AND 0xffff) :: u32) = (NOT (of_nat (unat u)) :: u16)"
proof -
  have "of_nat (unat u) = (ucast u :: u16)" by simp
  then show ?thesis unfolding and_ffff by (auto intro!: bit_word_eqI simp: bit_simps)
qed

lemma inet_chksum_pbuf_eq:
  assumes "chain (pbufs s) p as"
  shows "inet_chksum_pbuf p s = Some (NOT (of_nat (rfc1071 (payload (mem s) (pbufs s) as))))"
proof -
  obtain acc' sw where h: "chksum_chain p 0 False s = Some (acc', sw)"
    "unat (if sw then SWAP_BYTES_IN_WORD acc' else acc') \<le> 65535"
    "rep (unat (if sw then SWAP_BYTES_IN_WORD acc' else acc')) (digits (payload (mem s) (pbufs s) as))"
    using chksum_chain_unswapped [OF assms, of 0] by auto
  show ?thesis
    unfolding inet_chksum_pbuf_def rfc1071_norm16 rep_norm16_eq [OF h(3,2), symmetric] 
    by (simp only: h(1) not_ucast [OF h(2)] bind.bind_lunit fst_conv snd_conv)
qed

section \<open>The pseudo header\<close>

text \<open>The 12 bytes of RFC 793 before the data: addresses (stored in network order), 0, protocol, length.\<close>

definition pseudo_header :: "u32 \<Rightarrow> u32 \<Rightarrow> u8 \<Rightarrow> u16 \<Rightarrow> u8 list" where
  "pseudo_header src dest proto proto_len =
     le_bytes 4 src @ le_bytes 4 dest @ [0, proto] @ rev (le_bytes 2 proto_len)"

lemma digits_le_bytes_2: "digits (le_bytes 2 (w :: u16)) = unat w"
proof -
  have "unat (of_le_bytes (le_bytes 2 w) :: u16) = digits (le_bytes 2 w)"
    unfolding le_bytes_2 unat_le_bytes_2 by simp
  then show ?thesis by simp
qed

lemma unat_htons_ext: "unat (ucast (lwip_htons w) :: u32) = digits (rev (le_bytes 2 w))"
  unfolding le_bytes_htons [symmetric] digits_le_bytes_2
  using unat_u16_less [of "lwip_htons w"] by (simp add: unsigned_ucast_eq take_bit_nat_eq_self)

lemma le_bytes_4_split: "le_bytes 4 (w :: u32) = le_bytes 2 (ucast w :: u16) @ le_bytes 2 (ucast (drop_bit 16 w) :: u16)"
  unfolding le_bytes_2 le_bytes_4 by (auto intro!: bit_word_eqI simp: bit_simps)

lemma unat_addr_halves:
  "unat (w AND 0xffff) = unat (ucast w :: u16)" "unat (drop_bit 16 w AND 0xffff) = unat (ucast (drop_bit 16 w) :: u16)"
  for w :: u32
  unfolding unat_and_ffff by (simp_all only: unsigned_ucast_eq) (simp_all add: take_bit_eq_mod)

lemma pseudo_acc_rep:
  "unat (pseudo_acc src dest) \<le> 65535" "rep (unat (pseudo_acc src dest)) (digits (le_bytes 4 src @ le_bytes 4 dest))"
proof -
  let ?h = "\<lambda>w. unat (ucast w :: u16) + unat (ucast (drop_bit 16 w) :: u16)"
  show "unat (pseudo_acc src dest) \<le> 65535" unfolding pseudo_acc_def by (rule FOLD_FOLD_le)
  have hw: "rep (?h w) (digits (le_bytes 4 w))" for w :: u32
    unfolding le_bytes_4_split digits_append digits_le_bytes_2
    using rep_sym [OF rep_fold [of "unat (ucast w :: u16)" "unat (ucast (drop_bit 16 w) :: u16)"]] by simp
  have s: "unat ((src AND 0xffff) + (drop_bit 16 src AND 0xffff) + (dest AND 0xffff) + (drop_bit 16 dest AND 0xffff)) = ?h src + ?h dest"
    using unat_u16_less [of "ucast src"] unat_u16_less [of "ucast (drop_bit 16 src)"]
      unat_u16_less [of "ucast dest"] unat_u16_less [of "ucast (drop_bit 16 dest)"]
    by (simp add: unat_plus_small unat_addr_halves)
  have "rep (?h src + ?h dest) (digits (le_bytes 4 src @ le_bytes 4 dest))"
    unfolding digits_append using rep_add [OF hw rep_trans [OF hw rep_sym [OF rep_pow [of 2]]]] by simp
  then show "rep (unat (pseudo_acc src dest)) (digits (le_bytes 4 src @ le_bytes 4 dest))"
    unfolding pseudo_acc_def using rep_trans [OF rep_FOLD_FOLD] s by metis
qed

lemma pseudo_finish_eq:
  assumes "unat (if sw then SWAP_BYTES_IN_WORD acc else acc) \<le> 65535"
    and "rep (unat (if sw then SWAP_BYTES_IN_WORD acc else acc)) n"
  shows "pseudo_finish proto proto_len acc sw =
    NOT (of_nat (norm16 (n + digits ([0, proto] @ rev (le_bytes 2 proto_len)))))"
proof -
  define v where "v = (if sw then SWAP_BYTES_IN_WORD acc else acc)"
  define w where "w = v + ucast (lwip_htons (ucast proto)) + ucast (lwip_htons proto_len)"
  have nb: "\<not> bit proto (8 + n)" for n using bit_imp_le_length [of proto "8 + n"] by auto
  have p: "rev (le_bytes 2 (ucast proto :: u16)) = [0, proto]"
    unfolding le_bytes_2 using nb by (auto intro!: bit_word_eqI simp: bit_simps)
  have l: "unat (ucast (lwip_htons x) :: u32) < 65536" for x
    using unat_u16_less [of "lwip_htons x"] by (simp add: unsigned_ucast_eq take_bit_nat_eq_self)
  have "unat w = unat v + digits [0, proto] + digits (rev (le_bytes 2 proto_len))"
    unfolding w_def using assms(1) l [of "ucast proto"] l [of proto_len]
    unfolding v_def [symmetric] p [symmetric] unat_htons_ext [symmetric] by (simp add: unat_plus_small)
  moreover have "rep (unat v + (digits [0, proto] + digits (rev (le_bytes 2 proto_len))))
      (n + digits ([0, proto] @ rev (le_bytes 2 proto_len)))"
    unfolding digits_append using assms(2) rep_sym [OF rep_pow [of 1]]
    by (intro rep_add rep_refl) (simp_all add: v_def)
  ultimately have "rep (unat w) (n + digits ([0, proto] @ rev (le_bytes 2 proto_len)))"
    by (simp only: add.assoc)
  then have "unat (FOLD_U32T (FOLD_U32T w)) = norm16 (n + digits ([0, proto] @ rev (le_bytes 2 proto_len)))"
    using rep_norm16_eq [OF rep_trans [OF rep_FOLD_FOLD] FOLD_FOLD_le] by blast
  then show ?thesis
    unfolding pseudo_finish_def Let_def v_def [symmetric] w_def [symmetric] not_ucast [OF FOLD_FOLD_le] by (simp only:)
qed

lemma inet_chksum_pseudo_eq:
  assumes "chain (pbufs s) p as"
  shows "inet_chksum_pseudo p proto proto_len src dest s =
    Some (NOT (of_nat (rfc1071 (pseudo_header src dest proto proto_len @ payload (mem s) (pbufs s) as))))"
proof -
  let ?X = "payload (mem s) (pbufs s) as" and ?A = "le_bytes 4 src @ le_bytes 4 dest"
    and ?B = "[0, proto] @ rev (le_bytes 2 proto_len)"
  obtain acc sw where h: "chksum_chain p (pseudo_acc src dest) False s = Some (acc, sw)"
    "unat (if sw then SWAP_BYTES_IN_WORD acc else acc) \<le> 65535"
    "rep (unat (if sw then SWAP_BYTES_IN_WORD acc else acc)) (unat (pseudo_acc src dest) + digits ?X)"
    using chksum_chain_unswapped [OF assms pseudo_acc_rep(1)] by blast
  have "rep (unat (pseudo_acc src dest) + digits ?X + digits ?B) (digits ?A + 256 ^ (2 * 6) * digits ?X + 256 ^ (2 * 4) * digits ?B)"
    by (intro rep_add pseudo_acc_rep(2) rep_sym [OF rep_pow])
  moreover have "digits ?A + 256 ^ (2 * 6) * digits ?X + 256 ^ (2 * 4) * digits ?B = digits (pseudo_header src dest proto proto_len @ ?X)"
    unfolding pseudo_header_def append_assoc [symmetric] unfolding digits_append by simp
  ultimately have "norm16 (unat (pseudo_acc src dest) + digits ?X + digits ?B) = rfc1071 (pseudo_header src dest proto proto_len @ ?X)"
    unfolding rfc1071_norm16 using norm16_cong by simp
  then show ?thesis
    unfolding inet_chksum_pseudo_def inet_cksum_pseudo_base_def
    using h(1) pseudo_finish_eq [OF h(2,3), of proto proto_len] by simp
qed

section \<open>Verification by the receiver\<close>

text \<open>A checksum stored in a field that was 0 while summing makes the whole sum one's complement zero.\<close>

lemma minus_1_sub_eq: "NOT (x :: 'a::len word) = - 1 - x"
  by (simp add: not_eq_complement)

lemma u16_minus_1: "unat (- 1 :: u16) = 65535"
  by (simp add: unsigned_minus_1_eq_mask mask_eq_exp_minus_1)

lemma rfc1071_verify:
  assumes "even (length xs)"
  shows "rfc1071 (xs @ le_bytes 2 (NOT (of_nat (rfc1071 (xs @ [0, 0] @ ys))) :: u16) @ ys) = 65535"
proof -
  let ?z = "xs @ [0, 0] @ ys"
  define c :: u16 where "c = NOT (of_nat (rfc1071 ?z))"
  have le: "rfc1071 ?z \<le> 65535" by (rule rfc1071_le)
  have "unat c = 65535 - rfc1071 ?z"
    unfolding c_def minus_1_sub_eq using le by (subst unat_minus_small) (simp_all add: u16_minus_1)
  then have c: "unat c + rfc1071 ?z = 65535" using le by simp
  obtain j where j: "length xs = 2 * j" using assms by (elim evenE)
  have "digits (xs @ le_bytes 2 c @ ys) = 256 ^ (2 * j) * unat c + digits ?z"
    unfolding digits_append digits_le_bytes_2 by (simp add: j algebra_simps)
  then have "rep (digits (xs @ le_bytes 2 c @ ys)) (unat c + rfc1071 ?z)"
    using rep_add [OF rep_pow rep_sym [OF rfc1071_rep]] by metis
  then have "norm16 (digits (xs @ le_bytes 2 c @ ys)) = norm16 65535"
    unfolding c by (rule norm16_cong)
  then show ?thesis unfolding rfc1071_norm16 c_def by (simp add: norm16_def)
qed

lemma inet_chksum_eq: "inet_chksum m p len = NOT (of_nat (rfc1071 (mem_read m p (unat len))))"
proof -
  have "uint len = int (unat len)" by simp
  then have "unat (lwip_standard_chksum m p (uint len)) = rfc1071 (mem_read m p (unat len))"
    using lwip_standard_chksum_eq [of "unat len" m p] unat_u16_less [of len] by simp
  then have "lwip_standard_chksum m p (uint len) = of_nat (rfc1071 (mem_read m p (unat len)))" by (metis of_nat_unat ucast_id)
  then show ?thesis unfolding inet_chksum_def by simp
qed

text \<open>
  Checksum of a block.  \<open>lwip_standard_chksum\<close> computes the one's complement sum of RFC 1071 over
  the block, at any alignment of the pointer and for every length the callers can pass.
\<close>

lemma lwip_standard_chksum_rfc1071:
  assumes "0 \<le> len" "len \<le> 131070"
  shows "unat (lwip_standard_chksum m dataptr len) = rfc1071 (mem_read m dataptr (nat len))"
  using lwip_standard_chksum_eq [of "nat len" m dataptr] assms by simp

text \<open>
  C22. Checksum of a packet.  Over any chain of pbufs, however the data are split and whatever the
  parity and alignment of the pieces, \<open>inet_chksum_pseudo\<close> returns the complement of the RFC 1071 sum of
  the pseudo header followed by the data of the chain.
\<close>

theorem inet_chksum_pseudo_rfc1071:
  assumes "chain (pbufs s) p as"
  shows "inet_chksum_pseudo p proto proto_len src dest s =
    Some (NOT (of_nat (rfc1071 (pseudo_header src dest proto proto_len @ payload (mem s) (pbufs s) as))))"
  by (rule inet_chksum_pseudo_eq [OF assms])

theorem inet_chksum_pseudo_rfc1071_witness:
  "inet_chksum_pseudo 0x1000 17 5 0x0100000A 0x0200000A demo_lwip =
    Some (NOT (of_nat (rfc1071 ([10, 0, 0, 1, 10, 0, 0, 2, 0, 17, 0, 5] @ [10, 20, 30, 40, 50]))))"
proof -
  have "chain (pbufs demo_lwip) 0x1000 [0x1000, 0x2000]" using demo_packet by (simp add: packet_def)
  moreover have "pseudo_header 0x0100000A 0x0200000A 17 5 = [10, 0, 0, 1, 10, 0, 0, 2, 0, 17, 0, 5]"
    by (simp add: pseudo_header_def le_bytes_4 le_bytes_2 drop_bit_eq_div)
  ultimately show ?thesis
    using inet_chksum_pseudo_rfc1071 [of demo_lwip "0x1000" "[0x1000, 0x2000]" 17 5 "0x0100000A" "0x0200000A"]
    unfolding demo_payload by simp
qed

text \<open>
  C30. The receiver's test.  A block whose 16-bit checksum field, at an even offset, holds the checksum
  that \<open>inet_chksum\<close> gave for the block with the field zero has checksum 0, which is what the input
  routines of the protocols test.
\<close>

theorem inet_chksum_verifies:
  assumes "even off" "off + 2 \<le> unat len"
    and "m0 = mem_write m (p + of_nat off) [0, 0]"
    and "m1 = mem_write m0 (p + of_nat off) (le_bytes 2 (inet_chksum m0 p len))"
  shows "inet_chksum m1 p len = 0"
proof -
  let ?f = "p + of_nat off"
  define r where "r = unat len - off - 2"
  let ?xs = "mem_read m p off" and ?ys = "mem_read m (p + of_nat (off + 2)) r"
  have n: "unat len = off + 2 + r" using assms(2) by (simp add: r_def)
  have rd: "mem_read (mem_write m ?f bs) p (unat len) = ?xs @ bs @ ?ys" if "length bs = 2" for bs
    using mem_read_write_in [of off bs r m p] unat_u16_less [of len] unfolding that n by simp
  have c: "inet_chksum m0 p len = NOT (of_nat (rfc1071 (?xs @ [0, 0] @ ?ys)))"
    unfolding inet_chksum_eq assms(3) using rd [of "[0, 0]"] by simp
  have tw: "mem_write m0 ?f (le_bytes 2 w) = mem_write m ?f (le_bytes 2 w)" for w :: u16
    unfolding assms(3) by (rule mem_write_twice) simp_all
  have "mem_read m1 p (unat len) = ?xs @ le_bytes 2 (inet_chksum m0 p len) @ ?ys"
    unfolding assms(4) tw by (rule rd) simp
  then have "rfc1071 (mem_read m1 p (unat len)) = 65535"
    using rfc1071_verify [of ?xs ?ys] assms(1) unfolding c by simp
  then show ?thesis unfolding inet_chksum_eq by (simp add: minus_1_sub_eq)
qed

theorem inet_chksum_verifies_witness:
  "inet_chksum (mem_write (mem_write (\<lambda>_. 0x45) 0x101 [0, 0]) 0x101
     (le_bytes 2 (inet_chksum (mem_write (\<lambda>_. 0x45) 0x101 [0, 0]) 0x101 20))) 0x101 20 = 0"
  using inet_chksum_verifies [of 0 20 _ "\<lambda>_. 0x45" "0x101", OF _ _ refl refl] by simp

end
