(* ===== verification/BM_Pbuf_Data.thy ===== *)
theory BM_Pbuf_Data
  imports BM_Chksum
begin

text \<open>
  The second half of \<^verbatim>\<open>core/pbuf.c\<close>: the operations that move data in and out of pbuf chains, read and
  write single bytes, and search.  Copies of blocks are the C library's \<^verbatim>\<open>memcpy\<close>.
\<close>

section \<open>Copying\<close>

definition mem_copy :: "addr \<Rightarrow> addr \<Rightarrow> nat \<Rightarrow> ('k, 'z) machine_scheme \<Rightarrow> ('k, 'z) machine_scheme" where
  "mem_copy dst src n s = s\<lparr>mem := mem_write (mem s) dst (mem_read (mem s) src n)\<rparr>"

text \<open>Whether \<open>p\<close> is the last pbuf of a packet that is followed by another one in a queue.\<close>

definition ends_in_queue :: "addr \<Rightarrow> ('k, 'm, 'z) lwip_scheme \<Rightarrow> bool option" where
  "ends_in_queue p s =
     (if p = 0 then Some False
      else do { b \<leftarrow> pbufs s p; Some (p_len b = p_tot_len b \<and> p_next b \<noteq> 0) })"

text \<open>
  The loop of \<^verbatim>\<open>pbuf_copy_partial_pbuf\<close>.  The differences \<^verbatim>\<open>p_to->len - offset_to\<close> are of type \<^verbatim>\<open>size_t\<close>.
\<close>

partial_function (option) copy_pbuf_loop :: "addr \<Rightarrow> addr \<Rightarrow> u16 \<Rightarrow> u64 \<Rightarrow> u64 \<Rightarrow> ('k, 'm, 'z) lwip_scheme \<Rightarrow> (err_t \<times> ('k, 'm, 'z) lwip_scheme) option" where
  "copy_pbuf_loop p_to p_from copy_len offset_to offset_from s =
     do {
       t \<leftarrow> pbufs s p_to;
       f \<leftarrow> pbufs s p_from;
       let room = ucast (p_len t) - offset_to;
           rest = ucast (p_len f) - offset_from;
           len = min (ucast copy_len) (if rest \<le> room then rest else room);
           s1 = mem_copy (p_payload t + offset_to) (p_payload f + offset_from) (unat len) s;
           offset_to1 = offset_to + len;
           offset_from1 = offset_from + len;
           copy_len1 = ucast (ucast copy_len - len)
       in if ucast (p_len t) < offset_to1 \<or> ucast (p_len f) < offset_from1 then None
          else let (p_from2, offset_from2) =
                     (if ucast (p_len f) \<le> offset_from1 then (p_next f, 0) else (p_from, offset_from1))
          in if p_from2 = 0 \<and> copy_len1 \<noteq> 0 then Some (ERR_ARG, s1)
          else let (p_to2, offset_to2) =
                     (if offset_to1 = ucast (p_len t) then (p_next t, 0) else (p_to, offset_to1))
          in if p_to2 = 0 \<and> copy_len1 \<noteq> 0 then Some (ERR_ARG, s1)
          else do {
            qf \<leftarrow> ends_in_queue p_from2 s1;
            qt \<leftarrow> (if qf then Some False else ends_in_queue p_to2 s1);
            if qf \<or> qt then Some (ERR_VAL, s1)
            else if copy_len1 = 0 then Some (ERR_OK, s1)
            else copy_pbuf_loop p_to2 p_from2 copy_len1 offset_to2 offset_from2 s1 } }"

definition pbuf_copy_partial_pbuf :: "addr \<Rightarrow> addr \<Rightarrow> u16 \<Rightarrow> u16 \<Rightarrow> ('k, 'm, 'z) lwip_scheme \<Rightarrow> (err_t \<times> ('k, 'm, 'z) lwip_scheme) option" where
  "pbuf_copy_partial_pbuf p_to p_from copy_len offset s =
     (if p_from = 0 then Some (ERR_ARG, s)
      else do {
        f \<leftarrow> pbufs s p_from;
        if p_tot_len f < copy_len then Some (ERR_ARG, s)
        else if p_to = 0 then Some (ERR_ARG, s)
        else do {
          t \<leftarrow> pbufs s p_to;
          if unat (p_tot_len t) < unat offset + unat copy_len then Some (ERR_ARG, s)
          else copy_pbuf_loop p_to p_from copy_len (ucast offset) 0 s } })"

definition pbuf_copy :: "addr \<Rightarrow> addr \<Rightarrow> ('k, 'm, 'z) lwip_scheme \<Rightarrow> (err_t \<times> ('k, 'm, 'z) lwip_scheme) option" where
  "pbuf_copy p_to p_from s =
     (if p_from = 0 then Some (ERR_ARG, s)
      else do { f \<leftarrow> pbufs s p_from; pbuf_copy_partial_pbuf p_to p_from (p_tot_len f) 0 s })"

partial_function (option) copy_partial_loop :: "addr \<Rightarrow> addr \<Rightarrow> u16 \<Rightarrow> u16 \<Rightarrow> u16 \<Rightarrow> u16 \<Rightarrow> ('k, 'm, 'z) lwip_scheme \<Rightarrow> (u16 \<times> ('k, 'm, 'z) lwip_scheme) option" where
  "copy_partial_loop p dataptr len left offset copied_total s =
     (if len = 0 \<or> p = 0 then Some (copied_total, s)
      else do {
        b \<leftarrow> pbufs s p;
        if offset \<noteq> 0 \<and> p_len b \<le> offset
        then copy_partial_loop (p_next b) dataptr len left (offset - p_len b) copied_total s
        else let n = min (p_len b - offset) len
             in copy_partial_loop (p_next b) dataptr (len - n) (left + n) 0 (copied_total + n)
                  (mem_copy (dataptr + ucast left) (p_payload b + ucast offset) (unat n) s) })"

definition pbuf_copy_partial :: "addr \<Rightarrow> addr \<Rightarrow> u16 \<Rightarrow> u16 \<Rightarrow> ('k, 'm, 'z) lwip_scheme \<Rightarrow> (u16 \<times> ('k, 'm, 'z) lwip_scheme) option" where
  "pbuf_copy_partial buf dataptr len offset s =
     (if buf = 0 \<or> dataptr = 0 then Some (0, s) else copy_partial_loop buf dataptr len 0 offset 0 s)"

text \<open>The pbuf that holds an offset and the offset in it.\<close>

partial_function (option) pbuf_skip_const :: "addr \<Rightarrow> u16 \<Rightarrow> ('k, 'm, 'z) lwip_scheme \<Rightarrow> (addr \<times> u16) option" where
  "pbuf_skip_const q offset_left s =
     (if q = 0 then Some (q, offset_left)
      else do {
        b \<leftarrow> pbufs s q;
        if p_len b \<le> offset_left then pbuf_skip_const (p_next b) (offset_left - p_len b) s
        else Some (q, offset_left) })"

definition pbuf_skip :: "addr \<Rightarrow> u16 \<Rightarrow> ('k, 'm, 'z) lwip_scheme \<Rightarrow> (addr \<times> u16) option" where
  "pbuf_skip q in_offset s = pbuf_skip_const q in_offset s"

definition pbuf_get_contiguous :: "addr \<Rightarrow> addr \<Rightarrow> u64 \<Rightarrow> u16 \<Rightarrow> u16 \<Rightarrow> ('k, 'm, 'z) lwip_scheme \<Rightarrow> (addr \<times> ('k, 'm, 'z) lwip_scheme) option" where
  "pbuf_get_contiguous p buffer bufsize len offset s =
     (if p = 0 \<or> buffer = 0 \<or> bufsize < ucast len then Some (0, s)
      else do {
        r \<leftarrow> pbuf_skip_const p offset s;
        let q = fst r; out_offset = snd r
        in if q = 0 then Some (0, s)
           else do {
             b \<leftarrow> pbufs s q;
             if unat out_offset + unat len \<le> unat (p_len b) then Some (p_payload b + ucast out_offset, s)
             else do {
               c \<leftarrow> pbuf_copy_partial q buffer len out_offset s;
               if fst c \<noteq> len then Some (0, snd c) else Some (buffer, snd c) } } })"

partial_function (option) pbuf_take_loop :: "addr \<Rightarrow> addr \<Rightarrow> u64 \<Rightarrow> u64 \<Rightarrow> ('k, 'm, 'z) lwip_scheme \<Rightarrow> ('k, 'm, 'z) lwip_scheme option" where
  "pbuf_take_loop p dataptr total_copy_len copied_total s =
     (if total_copy_len = 0 then Some s
      else if p = 0 then None
      else do {
        b \<leftarrow> pbufs s p;
        let n = min total_copy_len (ucast (p_len b))
        in pbuf_take_loop (p_next b) dataptr (total_copy_len - n) (copied_total + n)
             (mem_copy (p_payload b) (dataptr + copied_total) (unat n) s) })"

definition pbuf_take :: "addr \<Rightarrow> addr \<Rightarrow> u16 \<Rightarrow> ('k, 'm, 'z) lwip_scheme \<Rightarrow> (err_t \<times> ('k, 'm, 'z) lwip_scheme) option" where
  "pbuf_take buf dataptr len s =
     (if buf = 0 \<or> dataptr = 0 then Some (ERR_ARG, s)
      else do {
        b \<leftarrow> pbufs s buf;
        if p_tot_len b < len then Some (ERR_MEM, s)
        else do { s1 \<leftarrow> pbuf_take_loop buf dataptr (ucast len) 0 s; Some (ERR_OK, s1) } })"

definition pbuf_take_at :: "addr \<Rightarrow> addr \<Rightarrow> u16 \<Rightarrow> u16 \<Rightarrow> ('k, 'm, 'z) lwip_scheme \<Rightarrow> (err_t \<times> ('k, 'm, 'z) lwip_scheme) option" where
  "pbuf_take_at buf dataptr len offset s =
     do {
       r \<leftarrow> pbuf_skip buf offset s;
       let q = fst r; target_offset = snd r
       in if q = 0 then Some (ERR_MEM, s)
          else do {
            b \<leftarrow> pbufs s q;
            if unat (p_tot_len b) < unat target_offset + unat len then Some (ERR_MEM, s)
            else if \<not> target_offset < p_len b then None
            else let first_copy_len = min (p_len b - target_offset) len;
                     s1 = mem_copy (p_payload b + ucast target_offset) dataptr (unat first_copy_len) s
                 in if 0 < len - first_copy_len
                    then pbuf_take (p_next b) (dataptr + ucast first_copy_len) (len - first_copy_len) s1
                    else Some (ERR_OK, s1) } }"

section \<open>Copies of packets\<close>

definition pbuf_clone :: "('m, ('k, 'm, 'z) lwip_scheme) pbuf_env \<Rightarrow> pbuf_layer \<Rightarrow> u16 \<Rightarrow> addr \<Rightarrow> ('k, 'm, 'z) lwip_scheme \<Rightarrow> (addr \<times> ('k, 'm, 'z) lwip_scheme) option" where
  "pbuf_clone E layer type p s =
     do {
       b \<leftarrow> pbufs s p;
       a \<leftarrow> pbuf_alloc E layer (p_tot_len b) type s;
       if fst a = 0 then Some a
       else do {
         c \<leftarrow> pbuf_copy (fst a) p (snd a);
         if fst c \<noteq> ERR_OK then None else Some (fst a, snd c) } }"

definition pbuf_coalesce :: "('m, ('k, 'm, 'z) lwip_scheme) pbuf_env \<Rightarrow> addr \<Rightarrow> pbuf_layer \<Rightarrow> ('k, 'm, 'z) lwip_scheme \<Rightarrow> (addr \<times> ('k, 'm, 'z) lwip_scheme) option" where
  "pbuf_coalesce E p layer s =
     do {
       b \<leftarrow> pbufs s p;
       if p_next b = 0 then Some (p, s)
       else do {
         q \<leftarrow> pbuf_clone E layer PBUF_RAM p s;
         if fst q = 0 then Some (p, snd q)
         else do { r \<leftarrow> pbuf_free E p (snd q); Some (fst q, snd r) } } }"

text \<open>\<^verbatim>\<open>*chksum\<close> is passed in and returned.\<close>

definition pbuf_fill_chksum :: "addr \<Rightarrow> u16 \<Rightarrow> addr \<Rightarrow> u16 \<Rightarrow> u16 \<Rightarrow> ('k, 'm, 'z) lwip_scheme \<Rightarrow> (err_t \<times> u16 \<times> ('k, 'm, 'z) lwip_scheme) option" where
  "pbuf_fill_chksum p start_offset dataptr len chksum s =
     (if p = 0 \<or> dataptr = 0 \<or> len = 0 then None
      else do {
        b \<leftarrow> pbufs s p;
        if p_len b \<le> start_offset \<or> unat (p_len b) < unat start_offset + unat len then Some (ERR_ARG, chksum, s)
        else let (c, m) = lwip_chksum_copy (p_payload b + ucast start_offset) dataptr len (mem s);
                 copy_chksum = (if start_offset AND 1 \<noteq> 0 then ucast (SWAP_BYTES_IN_WORD (ucast c)) else c) :: u16
             in Some (ERR_OK, ucast (FOLD_U32T (ucast chksum + ucast copy_chksum)), s\<lparr>mem := m\<rparr>) })"

section \<open>Bytes\<close>

definition pbuf_try_get_at :: "addr \<Rightarrow> u16 \<Rightarrow> ('k, 'm, 'z) lwip_scheme \<Rightarrow> int option" where
  "pbuf_try_get_at p offset s =
     do {
       r \<leftarrow> pbuf_skip_const p offset s;
       if fst r = 0 then Some (- 1)
       else do {
         b \<leftarrow> pbufs s (fst r);
         if snd r < p_len b then Some (uint (mem s (p_payload b + ucast (snd r)))) else Some (- 1) } }"

definition pbuf_get_at :: "addr \<Rightarrow> u16 \<Rightarrow> ('k, 'm, 'z) lwip_scheme \<Rightarrow> u8 option" where
  "pbuf_get_at p offset s =
     do { ret \<leftarrow> pbuf_try_get_at p offset s; Some (if 0 \<le> ret then of_int ret else 0) }"

definition pbuf_put_at :: "addr \<Rightarrow> u16 \<Rightarrow> u8 \<Rightarrow> ('k, 'm, 'z) lwip_scheme \<Rightarrow> ('k, 'm, 'z) lwip_scheme option" where
  "pbuf_put_at p offset data s =
     do {
       r \<leftarrow> pbuf_skip p offset s;
       if fst r = 0 then Some s
       else do {
         b \<leftarrow> pbufs s (fst r);
         if snd r < p_len b then Some (s\<lparr>mem := (mem s)(p_payload b + ucast (snd r) := data)\<rparr>) else Some s } }"

text \<open>The byte loop of \<^verbatim>\<open>pbuf_memcmp\<close>; \<open>k\<close> is \<open>n - i\<close>.\<close>

fun memcmp_loop :: "addr \<Rightarrow> u16 \<Rightarrow> addr \<Rightarrow> u16 \<Rightarrow> nat \<Rightarrow> ('k, 'm, 'z) lwip_scheme \<Rightarrow> u16 option" where
  "memcmp_loop q start s2 i 0 s = Some 0"
| "memcmp_loop q start s2 i (Suc k) s =
     do {
       a \<leftarrow> pbuf_get_at q (start + i) s;
       if a \<noteq> mem s (s2 + ucast i) then Some (of_nat (min (unat i + 1) 0xFFFF))
       else memcmp_loop q start s2 (i + 1) k s }"

definition pbuf_memcmp :: "addr \<Rightarrow> u16 \<Rightarrow> addr \<Rightarrow> u16 \<Rightarrow> ('k, 'm, 'z) lwip_scheme \<Rightarrow> u16 option" where
  "pbuf_memcmp p offset s2 n s =
     do {
       b \<leftarrow> pbufs s p;
       if unat (p_tot_len b) < unat offset + unat n then Some 0xffff
       else do { r \<leftarrow> pbuf_skip_const p offset s; memcmp_loop (fst r) (snd r) s2 0 (unat n) s } }"

partial_function (option) memfind_loop :: "addr \<Rightarrow> addr \<Rightarrow> u16 \<Rightarrow> u16 \<Rightarrow> u16 \<Rightarrow> ('k, 'm, 'z) lwip_scheme \<Rightarrow> u16 option" where
  "memfind_loop p mm mem_len i max_cmp_start s =
     (if i \<le> max_cmp_start
      then do {
        plus \<leftarrow> pbuf_memcmp p i mm mem_len s;
        if plus = 0 then Some i else memfind_loop p mm mem_len (i + 1) max_cmp_start s }
      else Some 0xFFFF)"

definition pbuf_memfind :: "addr \<Rightarrow> addr \<Rightarrow> u16 \<Rightarrow> u16 \<Rightarrow> ('k, 'm, 'z) lwip_scheme \<Rightarrow> u16 option" where
  "pbuf_memfind p mm mem_len start_offset s =
     do {
       b \<leftarrow> pbufs s p;
       if unat mem_len + unat start_offset \<le> unat (p_tot_len b)
       then memfind_loop p mm mem_len start_offset (p_tot_len b - mem_len) s
       else Some 0xFFFF }"

text \<open>
  \<^verbatim>\<open>strlen\<close> is only compared with \<open>0xFFFF\<close> and used when it is smaller, so that \<^const>\<open>strnlen\<close> with this
  bound gives the same answers.
\<close>

definition pbuf_strstr :: "addr \<Rightarrow> addr \<Rightarrow> ('k, 'm, 'z) lwip_scheme \<Rightarrow> u16 option" where
  "pbuf_strstr p substr s =
     (if substr = 0 \<or> mem s substr = 0 then Some 0xFFFF
      else do {
        b \<leftarrow> pbufs s p;
        if p_tot_len b = 0xFFFF then Some 0xFFFF
        else let substr_len = strnlen (at (mem s) substr) 0xFFFF
             in if 0xFFFF \<le> substr_len then Some 0xFFFF else pbuf_memfind p substr (of_nat substr_len) 0 s })"

end
