(* ===== verification/BM_Pbuf_Chain.thy ===== *)
theory BM_Pbuf_Chain
  imports BM_Pbuf "HOL-Library.Sublist"
begin

text \<open>
  The structural operations of \<^verbatim>\<open>pbuf.c\<close> on well-formed chains: counting, concatenation, release of
  references, shrinking and header adjustment.
\<close>

section \<open>Counting and concatenation\<close>

lemma chain_Cons_obtain:
  assumes "chain P p (a # as)"
  obtains b where "p = a" "a \<noteq> 0" "P a = Some b" "chain P (p_next b) as"
  using assms by (auto split: option.splits)

lemma clen_loop_eq: "chain (pbufs s) p as \<Longrightarrow> pbuf_clen_loop p l s = Some (l + of_nat (length as))"
proof (induction as arbitrary: p l)
  case Nil
  then show ?case by (subst pbuf_clen_loop.simps) simp
next
  case (Cons a as)
  obtain b where "p = a" "a \<noteq> 0" "pbufs s a = Some b" "chain (pbufs s) (p_next b) as"
    using Cons.prems by (rule chain_Cons_obtain)
  then show ?case using Cons.IH by (subst pbuf_clen_loop.simps) (simp add: algebra_simps)
qed

lemma pbuf_clen_eq: "chain (pbufs s) p as \<Longrightarrow> pbuf_clen p s = Some (of_nat (length as))"
  by (simp add: pbuf_clen_def clen_loop_eq)

lemma packet_Cons:
  "packet P p (a # as) n \<longleftrightarrow> p = a \<and> a \<noteq> 0 \<and> a \<notin> set as \<and>
     (\<exists>b. P a = Some b \<and> unat (p_tot_len b) = n \<and> unat (p_len b) \<le> n \<and> packet P (p_next b) as (n - unat (p_len b)))"
  by (auto simp: packet_def split: option.splits)

lemma packet_Nil: "packet P p [] n \<longleftrightarrow> p = 0 \<and> n = 0"
  by (simp add: packet_def)

lemma packet_upd: "a \<notin> set as \<Longrightarrow> packet (P(a := x)) p as n = packet P p as n"
  by (simp add: packet_def)

lemma packet_less: "packet P p as n \<Longrightarrow> n < 65536"
  by (cases as) (auto simp: packet_Nil packet_Cons unat_u16_less)

lemma packet_nonempty: "packet P p as n \<Longrightarrow> p \<noteq> 0 \<longleftrightarrow> as \<noteq> []"
  by (cases as) (auto simp: packet_Nil packet_Cons)

lemma cat_loop_eq:
  assumes "packet (pbufs s) p as n" "as \<noteq> []" "packet (pbufs s) t bs m" "bs \<noteq> []" "set as \<inter> set bs = {}" "n + m < 65536"
  shows "\<exists>s'. pbuf_cat_loop p t s = Some s' \<and> packet (pbufs s') p (as @ bs) (n + m) \<and> mem s' = mem s
    \<and> payload (mem s) (pbufs s') as = payload (mem s) (pbufs s) as \<and> (\<forall>x. x \<notin> set as \<longrightarrow> pbufs s' x = pbufs s x)"
  using assms
proof (induction as arbitrary: p n s)
  case (Cons a as)
  obtain b where b: "p = a" "a \<noteq> 0" "a \<notin> set as" "pbufs s a = Some b" "unat (p_tot_len b) = n" "unat (p_len b) \<le> n"
    "packet (pbufs s) (p_next b) as (n - unat (p_len b))" using Cons.prems(1) by (auto simp: packet_Cons)
  obtain c where c: "t \<noteq> 0" "t \<in> set bs" "pbufs s t = Some c" "unat (p_tot_len c) = m"
    using Cons.prems(3,4) by (cases bs) (auto simp: packet_Cons)
  have tl: "unat (p_tot_len b + p_tot_len c) = n + m" using b(5) c(4) Cons.prems(6) by (simp add: unat_plus_small)
  have nb: "a \<notin> set bs" using Cons.prems(5) by simp
  show ?case
  proof (cases "as = []")
    case True
    let ?s = "put_pbuf a (b\<lparr>p_tot_len := p_tot_len b + p_tot_len c, p_next := t\<rparr>) s"
    have z: "p_next b = 0" "n = unat (p_len b)" "p_tot_len b = p_len b"
      using b(5,6,7) True by (auto simp: packet_Nil unsigned_word_eqI)
    have "pbuf_cat_loop p t s = Some ?s" using b c z by (subst pbuf_cat_loop.simps) simp
    moreover have "packet (pbufs ?s) p ([a] @ bs) (n + m)"
      using b(1,2) nb tl z(2) Cons.prems(3) by (simp add: packet_Cons packet_upd)
    moreover have "payload (mem s) (pbufs ?s) [a] = payload (mem s) (pbufs s) [a]" using b(4) by (simp add: pbuf_bytes_def)
    moreover have "mem ?s = mem s" "\<forall>x. x \<notin> set [a] \<longrightarrow> pbufs ?s x = pbufs s x" by simp_all
    ultimately show ?thesis unfolding True by blast
  next
    case False
    let ?s = "put_pbuf a (b\<lparr>p_tot_len := p_tot_len b + p_tot_len c\<rparr>) s"
    have nz: "p_next b \<noteq> 0" using packet_nonempty [OF b(7)] False by simp
    have pk: "packet (pbufs ?s) (p_next b) as (n - unat (p_len b))" "packet (pbufs ?s) t bs m"
      unfolding pbufs_put_pbuf using b(3,7) nb Cons.prems(3) by (simp_all only: packet_upd not_False_eq_True)
    have dj: "set as \<inter> set bs = {}" using Cons.prems(5) by simp
    have "n - unat (p_len b) + m < 65536" using Cons.prems(6) by simp
    then obtain s' where h: "pbuf_cat_loop (p_next b) t ?s = Some s'"
      "packet (pbufs s') (p_next b) (as @ bs) (n - unat (p_len b) + m)" "mem s' = mem s"
      "payload (mem s) (pbufs s') as = payload (mem s) (pbufs ?s) as" "\<And>x. x \<notin> set as \<Longrightarrow> pbufs s' x = pbufs ?s x"
      using Cons.IH [OF pk(1) False pk(2) Cons.prems(4) dj, unfolded mem_put_pbuf] by blast
    have "pbufs s' a = Some (b\<lparr>p_tot_len := p_tot_len b + p_tot_len c\<rparr>)" using h(5) [of a] b(3) by simp
    then have "packet (pbufs s') p ((a # as) @ bs) (n + m)"
      and "payload (mem s) (pbufs s') (a # as) = payload (mem s) (pbufs s) (a # as)"
      using b h(2,4) nb tl by (simp_all add: packet_Cons pbuf_bytes_def)
    moreover have "pbuf_cat_loop p t s = Some s'" using b c nz h(1) by (subst pbuf_cat_loop.simps) simp
    ultimately show ?thesis using h(3,5) by auto
  qed
qed simp

lemma pbuf_cat_eq:
  assumes "packet (pbufs s) h as n" "as \<noteq> []" "packet (pbufs s) t bs m" "bs \<noteq> []" "set as \<inter> set bs = {}" "n + m < 65536"
  shows "\<exists>s'. pbuf_cat h t s = Some s' \<and> packet (pbufs s') h (as @ bs) (n + m) \<and> mem s' = mem s
    \<and> payload (mem s') (pbufs s') (as @ bs) = payload (mem s) (pbufs s) as @ payload (mem s) (pbufs s) bs"
proof -
  obtain s' where s': "pbuf_cat_loop h t s = Some s'" "packet (pbufs s') h (as @ bs) (n + m)" "mem s' = mem s"
    "payload (mem s) (pbufs s') as = payload (mem s) (pbufs s) as" "\<And>x. x \<notin> set as \<Longrightarrow> pbufs s' x = pbufs s x"
    using cat_loop_eq [OF assms] by blast
  have "payload (mem s) (pbufs s') bs = payload (mem s) (pbufs s) bs"
    using assms(5) by (intro payload_cong s'(5)) auto
  then show ?thesis
    using s' packet_nonempty [OF assms(1)] packet_nonempty [OF assms(3)] assms(2,4)
    by (auto simp: pbuf_cat_def payload_append)
qed

section \<open>Releasing references\<close>

text \<open>
  A pbuf that \<^verbatim>\<open>pbuf_free\<close> can release: it is referenced, it came from an allocator of the library and
  not from a custom one, and it is aligned.
\<close>

definition freeable :: "(addr \<Rightarrow> pbuf option) \<Rightarrow> addr \<Rightarrow> bool" where
  "freeable P a \<longleftrightarrow> a \<noteq> 0 \<and> LWIP_MEM_ALIGN a = a \<and>
     (case P a of None \<Rightarrow> False
      | Some b \<Rightarrow> p_ref b \<noteq> 0 \<and> p_flags b AND PBUF_FLAG_IS_CUSTOM = 0 \<and> pbuf_get_allocsrc b \<in> {0, 1, 2})"

definition sole_ref :: "(addr \<Rightarrow> pbuf option) \<Rightarrow> addr \<Rightarrow> bool" where
  "sole_ref P a \<longleftrightarrow> (case P a of None \<Rightarrow> False | Some b \<Rightarrow> p_ref b = 1)"

text \<open>How many pbufs a release of the chain deallocates, and what it leaves of the store.\<close>

definition released :: "(addr \<Rightarrow> pbuf option) \<Rightarrow> addr list \<Rightarrow> addr list" where
  "released P as = takeWhile (sole_ref P) as"

definition release :: "(addr \<Rightarrow> pbuf option) \<Rightarrow> addr list \<Rightarrow> addr \<Rightarrow> pbuf option" where
  "release P as = (\<lambda>x. if x \<in> set (released P as) then None
     else if dropWhile (sole_ref P) as \<noteq> [] \<and> x = hd (dropWhile (sole_ref P) as)
          then map_option (\<lambda>b. b\<lparr>p_ref := p_ref b - 1\<rparr>) (P x)
     else P x)"

lemma freeable_cong: "P a = Q a \<Longrightarrow> freeable P a = freeable Q a"
  by (simp add: freeable_def)

lemma sole_ref_cong: "P a = Q a \<Longrightarrow> sole_ref P a = sole_ref Q a"
  by (simp add: sole_ref_def)

lemma released_cong: "(\<And>a. a \<in> set as \<Longrightarrow> P a = Q a) \<Longrightarrow> released P as = released Q as"
  unfolding released_def by (intro takeWhile_cong) (simp_all add: sole_ref_def)

lemma released_subset: "set (released P as) \<subseteq> set as"
  unfolding released_def by (auto dest: set_takeWhileD)

lemma free_loop_eq:
  assumes "chain (pbufs s) p as" "distinct as" "\<forall>a \<in> set as. freeable (pbufs s) a"
  shows "pbuf_free_loop E p c s =
    Some (c + of_nat (length (released (pbufs s) as)),
      s\<lparr>alloc := fold (e_free E) (released (pbufs s) as) (alloc s), pbufs := release (pbufs s) as\<rparr>)"
  using assms
proof (induction as arbitrary: p c s)
  case Nil
  then show ?case by (subst pbuf_free_loop.simps) (simp add: released_def release_def)
next
  case (Cons a as)
  obtain b where b: "p = a" "a \<noteq> 0" "pbufs s a = Some b" "chain (pbufs s) (p_next b) as"
    using Cons.prems(1) by (rule chain_Cons_obtain)
  have f: "p_ref b \<noteq> 0" "p_flags b AND PBUF_FLAG_IS_CUSTOM = 0" "pbuf_get_allocsrc b \<in> {0, 1, 2}" "LWIP_MEM_ALIGN a = a"
    using Cons.prems(3) b(3) by (auto simp: freeable_def)
  have na: "a \<notin> set as" "distinct as" using Cons.prems(2) by simp_all
  show ?case
  proof (cases "p_ref b = 1")
    case False
    then have "\<not> sole_ref (pbufs s) a" "p_ref b - 1 \<noteq> 0" using b(3) by (simp_all add: sole_ref_def)
    moreover from this have "release (pbufs s) (a # as) = (pbufs s)(a \<mapsto> b\<lparr>p_ref := p_ref b - 1\<rparr>)"
      using b(3) by (auto simp: release_def released_def)
    ultimately show ?thesis
      using b f(1) by (subst pbuf_free_loop.simps) (simp add: released_def Let_def put_pbuf_def)
  next
    case True
    then have so: "sole_ref (pbufs s) a" using b(3) by (simp add: sole_ref_def)
    define s1 where "s1 = s\<lparr>alloc := e_free E a (alloc s), pbufs := (pbufs s)(a := None)\<rparr>"
    have eq: "pbufs s1 x = pbufs s x" if "x \<in> set as" for x using that na(1) by (auto simp: s1_def)
    have fr: "\<forall>x \<in> set as. freeable (pbufs s1) x" using Cons.prems(3) eq by (simp add: freeable_def)
    have ch: "chain (pbufs s1) (p_next b) as" using b(4) chain_cong [of as "pbufs s1" "pbufs s"] eq by blast
    have rl: "released (pbufs s1) as = released (pbufs s) as" by (rule released_cong) (rule eq)
    have dw: "dropWhile (sole_ref (pbufs s1)) as = dropWhile (sole_ref (pbufs s)) as"
      by (rule dropWhile_cong) (simp_all add: sole_ref_def eq)
    have hd_in: "hd (dropWhile Q as) \<in> set as" if "dropWhile Q as \<noteq> []" for Q
      using that set_dropWhileD [of "hd (dropWhile Q as)" Q as] by (meson hd_in_set)
    have re: "release (pbufs s1) as = release (pbufs s) (a # as)"
    proof
      fix x show "release (pbufs s1) as x = release (pbufs s) (a # as) x"
        using so rl dw hd_in [of "sole_ref (pbufs s)"] na(1) released_subset [of "pbufs s" as] eq
        unfolding release_def by (cases "x = a") (auto simp: released_def s1_def)
    qed
    have d: "pbuf_dealloc E a (b\<lparr>p_ref := 0\<rparr>) (put_pbuf a (b\<lparr>p_ref := 0\<rparr>) s) = Some s1"
      using f b(2) by (simp add: pbuf_dealloc_def pbuf_get_allocsrc_def mem_free_def put_pbuf_def s1_def)
    have "pbuf_free_loop E p c s = pbuf_free_loop E (p_next b) (c + 1) s1"
      using b True d by (subst pbuf_free_loop.simps) (simp add: Let_def)
    also have "\<dots> = Some (c + 1 + of_nat (length (released (pbufs s) as)),
        s1\<lparr>alloc := fold (e_free E) (released (pbufs s) as) (alloc s1), pbufs := release (pbufs s1) as\<rparr>)"
      unfolding rl [symmetric] by (rule Cons.IH [OF ch na(2) fr])
    also have "\<dots> = Some (c + of_nat (length (released (pbufs s) (a # as))),
        s\<lparr>alloc := fold (e_free E) (released (pbufs s) (a # as)) (alloc s), pbufs := release (pbufs s) (a # as)\<rparr>)"
      using so re by (simp add: released_def s1_def algebra_simps)
    finally show ?thesis .
  qed
qed

lemma pbuf_free_eq:
  assumes "chain (pbufs s) p as" "as \<noteq> []" "distinct as" "\<forall>a \<in> set as. freeable (pbufs s) a"
  shows "pbuf_free E p s =
    Some (of_nat (length (released (pbufs s) as)),
      s\<lparr>alloc := fold (e_free E) (released (pbufs s) as) (alloc s), pbufs := release (pbufs s) as\<rparr>)"
proof -
  have "p \<noteq> 0" using assms(1,2) by (cases as) auto
  then show ?thesis using free_loop_eq [OF assms(1,3,4), of E 0] by (simp add: pbuf_free_def)
qed

section \<open>Shrinking\<close>

lemma release_other: "x \<notin> set as \<Longrightarrow> release P as x = P x"
proof -
  assume "x \<notin> set as"
  moreover have "hd (dropWhile Q as) \<in> set as" if "dropWhile Q as \<noteq> []" for Q
    using that set_dropWhileD [of "hd (dropWhile Q as)" Q as] by (meson hd_in_set)
  ultimately show ?thesis using released_subset [of P as] unfolding release_def by auto
qed

lemma packet_cong: "(\<And>a. a \<in> set as \<Longrightarrow> P a = Q a) \<Longrightarrow> packet P p as n = packet Q p as n"
  unfolding packet_def using chain_cong [of as P Q] tot_ok_cong [of as P Q] by auto

text \<open>The walk to the new last pbuf lowers the totals of the pbufs before it.\<close>

definition shrink :: "u16 \<Rightarrow> addr set \<Rightarrow> (addr \<Rightarrow> pbuf option) \<Rightarrow> addr \<Rightarrow> pbuf option" where
  "shrink sh A P = (\<lambda>x. if x \<in> A then map_option (\<lambda>b. b\<lparr>p_tot_len := p_tot_len b - sh\<rparr>) (P x) else P x)"

lemma realloc_walk_eq:
  assumes "packet (pbufs s) q as n" "as \<noteq> []" "unat len \<le> n"
  shows "\<exists>as1 a as2 b r. as = as1 @ a # as2 \<and> pbufs s a = Some b \<and> r \<le> p_len b
    \<and> unat len = length (payload (mem s) (pbufs s) as1) + unat r
    \<and> pbuf_realloc_walk sh q len s = Some (a, r, s\<lparr>pbufs := shrink sh (set as1) (pbufs s)\<rparr>)"
  using assms
proof (induction as arbitrary: q n len s)
  case (Cons a as)
  obtain b where b: "q = a" "a \<noteq> 0" "a \<notin> set as" "pbufs s a = Some b" "unat (p_len b) \<le> n"
    "packet (pbufs s) (p_next b) as (n - unat (p_len b))" using Cons.prems(1) by (auto simp: packet_Cons)
  show ?case
  proof (cases "p_len b < len")
    case False
    then have "pbuf_realloc_walk sh q len s = Some (a, len, s\<lparr>pbufs := shrink sh (set []) (pbufs s)\<rparr>)"
      using b by (subst pbuf_realloc_walk.simps) (simp add: shrink_def)
    then show ?thesis using b(4) False by (intro exI [of _ "[]"]) auto
  next
    case True
    then have lt: "unat (p_len b) < unat len" by (simp add: word_less_nat_alt)
    then have lu: "unat (len - p_len b) = unat len - unat (p_len b)" by (simp add: unat_minus_small word_le_nat_alt)
    define s1 where "s1 = put_pbuf a (b\<lparr>p_tot_len := p_tot_len b - sh\<rparr>) s"
    have s1: "pbufs s1 x = pbufs s x" if "x \<noteq> a" for x using that by (simp add: s1_def)
    have ne: "as \<noteq> []" using b(6) lt Cons.prems(3) by (auto simp: packet_Nil)
    have "packet (pbufs s1) (p_next b) as (n - unat (p_len b)) = packet (pbufs s) (p_next b) as (n - unat (p_len b))"
      by (rule packet_cong) (use s1 b(3) in metis)
    then have "packet (pbufs s1) (p_next b) as (n - unat (p_len b))" using b(6) by simp
    moreover have "unat (len - p_len b) \<le> n - unat (p_len b)" using lu lt Cons.prems(3) by simp
    ultimately obtain as1 c as2 d r where h: "as = as1 @ c # as2" "pbufs s1 c = Some d" "r \<le> p_len d"
      "unat (len - p_len b) = length (payload (mem s1) (pbufs s1) as1) + unat r"
      "pbuf_realloc_walk sh (p_next b) (len - p_len b) s1 = Some (c, r, s1\<lparr>pbufs := shrink sh (set as1) (pbufs s1)\<rparr>)"
      using Cons.IH [of s1 "p_next b" _ "len - p_len b"] ne by blast
    have nm: "a \<notin> set as1" "c \<noteq> a" using b(3) h(1) by auto
    have "payload (mem s1) (pbufs s1) as1 = payload (mem s) (pbufs s) as1"
      using nm by (simp add: s1_def)
    then have "unat len = length (payload (mem s) (pbufs s) (a # as1)) + unat r" using h(4) lu lt b(4) by simp
    moreover have "shrink sh (set as1) (pbufs s1) = shrink sh (set (a # as1)) (pbufs s)"
      using nm(1) b(4) by (auto simp: shrink_def s1_def)
    then have "pbuf_realloc_walk sh q len s = Some (c, r, s\<lparr>pbufs := shrink sh (set (a # as1)) (pbufs s)\<rparr>)"
      using b True h(5) packet_nonempty [OF b(6)] ne by (subst pbuf_realloc_walk.simps) (simp add: s1_def put_pbuf_def)
    moreover have "pbufs s c = Some d" using s1 [OF nm(2)] h(2) by simp
    ultimately show ?thesis using h(1,3) by (intro exI [of _ "a # as1"]) auto
  qed
qed simp

lemma shrink_packet:
  assumes "packet P p (as1 @ a # as2) n" "P a = Some b" "r \<le> p_len b" "l = length (payload m P as1) + unat r" "unat sh = n - l"
  shows "packet ((shrink sh (set as1) P)(a \<mapsto> b\<lparr>p_len := r, p_tot_len := r, p_next := 0\<rparr>)) p (as1 @ [a]) l" (is ?A)
    and "payload m ((shrink sh (set as1) P)(a \<mapsto> b\<lparr>p_len := r, p_tot_len := r, p_next := 0\<rparr>)) (as1 @ [a]) =
      take l (payload m P (as1 @ a # as2))" (is ?B)
proof -
  have "?A \<and> ?B"
    using assms(1,4,5)
  proof (induction as1 arbitrary: p n l)
    case Nil
    have "take (unat r) (pbuf_bytes m b @ payload m P as2) = pbuf_bytes m (b\<lparr>p_len := r, p_tot_len := r, p_next := 0\<rparr>)"
      using assms(3) by (intro nth_equalityI) (auto simp: pbuf_bytes_def nth_append word_le_nat_alt)
    then show ?case using Nil assms(2) by (auto simp: packet_Cons packet_Nil)
  next
    case (Cons c as1)
    let ?Q = "\<lambda>as. (shrink sh (set as) P)(a \<mapsto> b\<lparr>p_len := r, p_tot_len := r, p_next := 0\<rparr>)"
    obtain d where d: "p = c" "c \<noteq> 0" "c \<notin> set (as1 @ a # as2)" "P c = Some d" "unat (p_tot_len d) = n" "unat (p_len d) \<le> n"
      "packet P (p_next d) (as1 @ a # as2) (n - unat (p_len d))" using Cons.prems(1) by (auto simp: packet_Cons)
    define l' where "l' = length (payload m P as1) + unat r"
    have l: "l = unat (p_len d) + l'" using Cons.prems(2) d(4) by (simp add: l'_def)
    have IH: "packet (?Q as1) (p_next d) (as1 @ [a]) l'" "payload m (?Q as1) (as1 @ [a]) = take l' (payload m P (as1 @ a # as2))"
      using Cons.IH [OF d(7) l'_def] Cons.prems(3) l by (simp_all del: fun_upd_apply)
    have eq: "?Q as1 x = ?Q (c # as1) x" if "x \<in> set (as1 @ [a])" for x using that d(3) by (auto simp: shrink_def)
    have "l' \<le> n - unat (p_len d)"
      using d(7) payload_length [of P "as1 @ a # as2" "n - unat (p_len d)" m] assms(2,3)
      by (simp add: packet_def payload_append l'_def word_le_nat_alt)
    then have "unat (p_tot_len d - sh) = l" using l d(5,6) Cons.prems(3) by (simp add: unat_minus_small word_le_nat_alt)
    moreover have qc: "?Q (c # as1) c = Some (d\<lparr>p_tot_len := p_tot_len d - sh\<rparr>)" using d(3,4) by (simp add: shrink_def)
    ultimately show ?case
      using IH d(1,2,3) l packet_cong [of "as1 @ [a]", OF eq] payload_cong [of "as1 @ [a]", OF eq] d(4)
      by (simp add: packet_Cons pbuf_bytes_def del: fun_upd_apply)
  qed
  then show ?A ?B by simp_all
qed

lemma chain_mid: "chain P p (as1 @ a # as2) \<Longrightarrow> \<exists>b. P a = Some b \<and> a \<noteq> 0 \<and> chain P (p_next b) as2"
  by (induction as1 arbitrary: p) (auto split: option.splits)

lemma freeable_len_upd:
  "P a = Some b \<Longrightarrow> Q a = Some (b\<lparr>p_len := l, p_tot_len := t, p_next := x\<rparr>) \<Longrightarrow> freeable Q a = freeable P a"
  by (simp add: freeable_def pbuf_get_allocsrc_def)

lemma pbuf_realloc_eq:
  assumes "packet (pbufs s) p as n" "as \<noteq> []" "unat len \<le> n" "\<forall>a \<in> set as. freeable (pbufs s) a"
  shows "\<exists>s' bs. pbuf_realloc E p len s = Some s' \<and> mem s' = mem s \<and> prefix bs as \<and> packet (pbufs s') p bs (unat len)
    \<and> payload (mem s') (pbufs s') bs = take (unat len) (payload (mem s) (pbufs s) as)"
proof -
  obtain b0 as' where b0: "p \<noteq> 0" "pbufs s p = Some b0" "unat (p_tot_len b0) = n"
    using assms(1,2) by (cases as) (auto simp: packet_Cons)
  show ?thesis
  proof (cases "p_tot_len b0 \<le> len")
    case True
    then have "n = unat len" using b0(3) assms(3) by (simp add: word_le_nat_alt)
    moreover have "length (payload (mem s) (pbufs s) as) = n" using assms(1) payload_length by (auto simp: packet_def)
    ultimately show ?thesis using True b0 assms(1) by (intro exI [of _ s] exI [of _ as]) (simp add: pbuf_realloc_def)
  next
    case False
    define sh where "sh = p_tot_len b0 - len"
    have sh: "unat sh = n - unat len" using False b0(3) by (simp add: sh_def unat_minus_small word_le_nat_alt)
    obtain as1 a as2 b r where h: "as = as1 @ a # as2" "pbufs s a = Some b" "r \<le> p_len b"
      "unat len = length (payload (mem s) (pbufs s) as1) + unat r"
      "pbuf_realloc_walk sh p len s = Some (a, r, s\<lparr>pbufs := shrink sh (set as1) (pbufs s)\<rparr>)"
      using realloc_walk_eq [OF assms(1-3), of sh] by blast
    have ds: "distinct as" using assms(1) by (simp add: packet_def)
    have nm: "a \<notin> set as1" "a \<notin> set as2" "set as1 \<inter> set as2 = {}" "distinct as2" using ds h(1) by auto
    have cm: "chain (pbufs s) (p_next b) as2" using chain_mid [of "pbufs s" p as1 a as2] assms(1) h(1,2) by (auto simp: packet_def)
    define P1 where "P1 = shrink sh (set as1) (pbufs s)"
    define c where "c = b\<lparr>p_len := r, p_tot_len := r\<rparr>"
    have p1a: "P1 a = Some b" using h(2) nm(1) by (simp add: P1_def shrink_def)
    define s2 where "s2 = s\<lparr>pbufs := P1(a \<mapsto> c)\<rparr>"
    have p2: "pbufs s2 x = pbufs s x" if "x \<in> set as2" for x using that nm by (auto simp: s2_def P1_def shrink_def)
    obtain A where fr: "(if p_next b \<noteq> 0 then do { r \<leftarrow> pbuf_free E (p_next b) s2; Some (snd r) } else Some s2)
      = Some (s2\<lparr>alloc := A, pbufs := release (pbufs s2) as2\<rparr>)"
    proof (cases "as2 = []")
      case True
      then have "p_next b = 0" using cm by simp
      then show ?thesis using that [of "alloc s2"] True by (simp add: release_def released_def)
    next
      case False
      moreover have "chain (pbufs s2) (p_next b) as2" using cm chain_cong [of as2 "pbufs s2" "pbufs s"] p2 by blast
      moreover have "\<forall>x \<in> set as2. freeable (pbufs s2) x" using assms(4) h(1) p2 by (simp add: freeable_def)
      moreover have "p_next b \<noteq> 0" using cm False by (cases as2) auto
      ultimately show ?thesis using that pbuf_free_eq [of s2 "p_next b" as2 E] nm(4) by simp
    qed
    let ?s' = "put_pbuf a (c\<lparr>p_next := 0\<rparr>) (s2\<lparr>alloc := A, pbufs := release (pbufs s2) as2\<rparr>)"
    have rel: "release (pbufs s2) as2 x = pbufs s2 x" if "x \<in> set (as1 @ [a])" for x
      by (rule release_other) (use that nm in auto)
    have s2: "put_pbuf a c (s\<lparr>pbufs := P1\<rparr>) = s2" by (simp add: put_pbuf_def s2_def)
    have "pbuf_realloc E p len s =
      do { s3 \<leftarrow> (if p_next b \<noteq> 0 then do { r \<leftarrow> pbuf_free E (p_next b) s2; Some (snd r) } else Some s2);
           d \<leftarrow> pbufs s3 a; Some (put_pbuf a (d\<lparr>p_next := 0\<rparr>) s3) }"
      using b0 False h(5) p1a by (simp add: pbuf_realloc_def sh_def [symmetric] P1_def [symmetric] c_def [symmetric] s2)
    then have run: "pbuf_realloc E p len s = Some ?s'"
      unfolding fr using rel [of a] by (simp add: s2_def)
    have eq: "pbufs ?s' x = (P1(a \<mapsto> b\<lparr>p_len := r, p_tot_len := r, p_next := 0\<rparr>)) x" if "x \<in> set (as1 @ [a])" for x
      using rel [OF that] that by (auto simp: s2_def c_def)
    have mm: "mem ?s' = mem s" by (simp add: s2_def)
    note sp = shrink_packet [OF assms(1) [unfolded h(1)] h(2,3,4) sh, folded P1_def h(1)]
    have "packet (pbufs ?s') p (as1 @ [a]) (unat len)"
      by (rule packet_cong [THEN iffD2, OF eq sp(1)])
    moreover have "payload (mem ?s') (pbufs ?s') (as1 @ [a]) = take (unat len) (payload (mem s) (pbufs s) as)"
      unfolding mm by (rule trans [OF payload_cong [OF eq] sp(2)])
    moreover have "prefix (as1 @ [a]) as" unfolding h(1) by (simp add: prefix_def)
    ultimately show ?thesis using run mm by blast
  qed
qed

section \<open>Headers\<close>

lemma pbuf_remove_header_eq:
  assumes "packet (pbufs s) p (p # as) n" "pbufs s p = Some b" "unat k \<le> unat (p_len b)"
  shows "\<exists>s'. pbuf_remove_header p k s = Some (0, s') \<and> mem s' = mem s \<and> packet (pbufs s') p (p # as) (n - unat k)
    \<and> payload (mem s') (pbufs s') (p # as) = drop (unat k) (payload (mem s) (pbufs s) (p # as))"
proof (cases "k = 0")
  case True
  then show ?thesis using assms by (auto simp: pbuf_remove_header_def packet_Cons)
next
  case False
  let ?k = "ucast k :: u16"
  let ?b = "b\<lparr>p_payload := p_payload b + k, p_tot_len := p_tot_len b - ?k, p_len := p_len b - ?k\<rparr>"
  have h: "p \<noteq> 0" "p \<notin> set as" "unat (p_tot_len b) = n" "unat (p_len b) \<le> n" "packet (pbufs s) (p_next b) as (n - unat (p_len b))"
    using assms(1,2) by (auto simp: packet_Cons)
  have k: "unat ?k = unat k" "\<not> 0xFFFF < k"
    using assms(3) unat_u16_less [of "p_len b"] by (simp_all add: unsigned_ucast_eq take_bit_nat_eq_self word_less_nat_alt)
  have u: "unat (p_len b - ?k) = unat (p_len b) - unat k" "unat (p_tot_len b - ?k) = n - unat k" "\<not> p_len b < ?k"
    using assms(3) h(3,4) k(1) by (simp_all add: unat_minus_small word_le_nat_alt word_less_nat_alt)
  have "pbuf_bytes (mem s) ?b = drop (unat k) (pbuf_bytes (mem s) b)"
    using assms(3) mem_read_add [of "mem s" "p_payload b" "unat k" "unat (p_len b) - unat k"] by (simp add: pbuf_bytes_def u(1))
  then have "payload (mem s) ((pbufs s)(p \<mapsto> ?b)) (p # as) = drop (unat k) (payload (mem s) (pbufs s) (p # as))"
    using assms(2,3) h(2) by simp
  moreover have "packet ((pbufs s)(p \<mapsto> ?b)) p (p # as) (n - unat k)"
    using h u assms(3) packet_upd [of p as "pbufs s" "Some ?b"] by (simp add: packet_Cons diff_le_mono)
  moreover have "pbuf_remove_header p k s = Some (0, put_pbuf p ?b s)"
    using h(1) k(2) False assms(2) u(3) by (simp add: pbuf_remove_header_def Let_def)
  ultimately show ?thesis by (intro exI [of _ "put_pbuf p ?b s"]) (simp del: payload.simps fun_upd_apply)
qed

lemma pbuf_add_remove_header:
  assumes "pbuf_remove_header p k s = Some (0, s')" "pbufs s p = Some b" "p_len b \<le> p_tot_len b"
    and "p_type_internal b AND PBUF_TYPE_FLAG_STRUCT_DATA_CONTIGUOUS \<noteq> 0" "p + SIZEOF_STRUCT_PBUF \<le> p_payload b"
  shows "pbuf_add_header p k s' = Some (0, s)"
proof -
  have p: "p \<noteq> 0" "\<not> 0xFFFF < k" using assms(1) by (auto simp: pbuf_remove_header_def split: if_splits)
  show ?thesis
  proof (cases "k = 0")
    case True
    then show ?thesis using assms(1) p by (simp add: pbuf_remove_header_def pbuf_add_header_def pbuf_add_header_impl_def)
  next
    case False
    let ?k = "ucast k :: u16"
    have le: "?k \<le> p_len b" and s': "s' = put_pbuf p (b\<lparr>p_payload := p_payload b + k, p_tot_len := p_tot_len b - ?k, p_len := p_len b - ?k\<rparr>) s"
      using assms(1,2) p False by (auto simp: pbuf_remove_header_def Let_def split: if_splits)
    have "\<not> p_tot_len b < ?k" using le assms(3) by simp
    then have "pbuf_add_header p k s' = Some (0, s\<lparr>pbufs := (pbufs s)(p \<mapsto> b)\<rparr>)"
      using p False assms(4,5) by (simp add: s' pbuf_add_header_def pbuf_add_header_impl_def put_pbuf_def Let_def not_less)
    moreover have "(pbufs s)(p \<mapsto> b) = pbufs s" using assms(2) by (rule map_upd_triv)
    ultimately show ?thesis by simp
  qed
qed

lemma freeable_next_upd: "P a = Some b \<Longrightarrow> freeable P a \<Longrightarrow> freeable (P(a \<mapsto> b\<lparr>p_next := 0\<rparr>)) a"
  by (simp add: freeable_def pbuf_get_allocsrc_def)

lemma free_header_eq:
  assumes "packet (pbufs s) p as n" "unat k \<le> n" "\<forall>a \<in> set as. freeable (pbufs s) a"
  shows "\<exists>q s' bs. pbuf_free_header E p k s = Some (q, s') \<and> mem s' = mem s \<and> suffix bs as
    \<and> packet (pbufs s') q bs (n - unat k) \<and> payload (mem s') (pbufs s') bs = drop (unat k) (payload (mem s) (pbufs s) as)"
  using assms
proof (induction as arbitrary: p n k s)
  case Nil
  then show ?case by (subst pbuf_free_header.simps) (auto simp: packet_Nil)
next
  case (Cons a as)
  obtain b where b: "p = a" "a \<noteq> 0" "a \<notin> set as" "pbufs s a = Some b" "unat (p_tot_len b) = n" "unat (p_len b) \<le> n"
    "packet (pbufs s) (p_next b) as (n - unat (p_len b))" using Cons.prems(1) by (auto simp: packet_Cons)
  consider "k = 0" | "k \<noteq> 0" "p_len b \<le> k" | "k \<noteq> 0" "k < p_len b" by fastforce
  then show ?case
  proof cases
    case 1
    then show ?thesis using Cons.prems(1) b(2) by (subst pbuf_free_header.simps) auto
  next
    case 3
    then have lt: "unat (ucast k :: u64) \<le> unat (p_len b)"
      using unat_u16_less [of k] by (simp add: unsigned_ucast_eq take_bit_nat_eq_self word_less_nat_alt)
    obtain s' where h: "pbuf_remove_header a (ucast k) s = Some (0, s')" "mem s' = mem s"
      "packet (pbufs s') a (a # as) (n - unat (ucast k :: u64))"
      "payload (mem s') (pbufs s') (a # as) = drop (unat (ucast k :: u64)) (payload (mem s) (pbufs s) (a # as))"
      using pbuf_remove_header_eq [of s a as n b "ucast k"] Cons.prems(1) b(1,4) lt by blast
    have e: "unat (ucast k :: u64) = unat k" using unat_u16_less [of k] by (simp add: unsigned_ucast_eq take_bit_nat_eq_self)
    have "\<not> p_len b \<le> k" using 3 by simp
    then have "pbuf_free_header E p k s = Some (a, s')" using b 3(1) h(1) by (subst pbuf_free_header.simps) simp
    then show ?thesis using h(2,3,4) unfolding e by (intro exI [of _ a] exI [of _ s'] exI [of _ "a # as"]) simp
  next
    case 2
    define s1 where "s1 = put_pbuf a (b\<lparr>p_next := 0\<rparr>) s"
    have ch: "chain (pbufs s1) a [a]" "\<forall>x \<in> set [a]. freeable (pbufs s1) x"
      using b(2) freeable_next_upd [of "pbufs s" a b] b(4) Cons.prems(3) by (simp_all add: s1_def)
    define s2 where "s2 = s1\<lparr>alloc := fold (e_free E) (released (pbufs s1) [a]) (alloc s1), pbufs := release (pbufs s1) [a]\<rparr>"
    have fr: "pbuf_free E a s1 = Some (of_nat (length (released (pbufs s1) [a])), s2)"
      unfolding s2_def by (rule pbuf_free_eq) (use ch in simp_all)
    have eq: "pbufs s2 x = pbufs s x" if "x \<in> set as" for x
      using that b(3) release_other [of x "[a]" "pbufs s1"] by (auto simp: s2_def s1_def)
    have m2: "mem s2 = mem s" by (simp add: s2_def s1_def)
    have ku: "unat (k - p_len b) = unat k - unat (p_len b)" "unat (p_len b) \<le> unat k"
      using 2(2) by (simp_all add: unat_minus_small word_le_nat_alt)
    have pk: "packet (pbufs s2) (p_next b) as (n - unat (p_len b))" by (rule packet_cong [THEN iffD2, OF eq b(7)])
    have kl: "unat (k - p_len b) \<le> n - unat (p_len b)" using ku Cons.prems(2) by simp
    have "\<forall>x \<in> set as. freeable (pbufs s2) x" using Cons.prems(3) eq by (simp add: freeable_def)
    from Cons.IH [OF pk kl this] obtain q s' bs where h: "pbuf_free_header E (p_next b) (k - p_len b) s2 = Some (q, s')"
      "mem s' = mem s2" "suffix bs as" "packet (pbufs s') q bs (n - unat (p_len b) - unat (k - p_len b))"
      "payload (mem s') (pbufs s') bs = drop (unat (k - p_len b)) (payload (mem s2) (pbufs s2) as)" by blast
    have "payload (mem s2) (pbufs s2) as = payload (mem s) (pbufs s) as" unfolding m2 by (rule payload_cong) (rule eq)
    then have "payload (mem s') (pbufs s') bs = drop (unat k) (payload (mem s) (pbufs s) (a # as))"
      using h(5) b(4) ku by simp
    moreover have "pbuf_free_header E p k s = Some (q, s')"
      using b 2 h(1) fr by (subst pbuf_free_header.simps) (simp add: s1_def)
    moreover have "packet (pbufs s') q bs (n - unat k)" using h(4) ku by simp
    moreover have "suffix bs (a # as)" using h(3) by (simp add: suffix_Cons)
    ultimately show ?thesis using h(2) m2 by auto
  qed
qed

section \<open>Allocation\<close>

lemma unat_align_size:
  assumes "unat n < 2 ^ 32 - 3"
  shows "unat (LWIP_MEM_ALIGN_SIZE n) = unat n + 3 - (unat n + 3) mod 4"
proof -
  have m: "(0xFFFFFFFC :: u64) = take_bit 32 (NOT (mask 2))"
    by (simp add: mask_eq_exp_minus_1 take_bit_eq_mask)
  have p: "unat (n + 3) = unat n + 3" using assms by (simp add: unat_plus_small)
  have "LWIP_MEM_ALIGN_SIZE n = take_bit 32 ((n + 3) AND NOT (mask 2))"
    unfolding LWIP_MEM_ALIGN_SIZE_def m by (rule bit_word_eqI) (auto simp: bit_simps)
  then have "unat (LWIP_MEM_ALIGN_SIZE n) = take_bit 32 (unat (n + 3) - unat (n + 3) mod 4)"
    by (simp only: unsigned_take_bit_eq unat_and_not_mask) simp
  also have "\<dots> = unat n + 3 - (unat n + 3) mod 4"
    unfolding p by (rule take_bit_nat_eq_self) (use assms in linarith)
  finally show ?thesis .
qed

lemma unat_align:
  assumes "unat a + 3 < 2 ^ 64"
  shows "unat (LWIP_MEM_ALIGN a) = unat a + 3 - (unat a + 3) mod 4"
proof -
  have m: "(3 :: u64) = mask 2" by (simp add: mask_eq_exp_minus_1)
  have p: "unat (a + 3) = unat a + 3" using assms by (simp add: unat_plus_small)
  show ?thesis unfolding LWIP_MEM_ALIGN_def using unat_and_not_mask [of "a + 3" 2] p by (simp only: m) simp
qed

lemma sizeof_pbuf [simp]: "SIZEOF_STRUCT_PBUF = 24"
  by (simp add: SIZEOF_STRUCT_PBUF_def LWIP_MEM_ALIGN_SIZE_def)

lemma layer_offset_le: "unat (layer_offset l) \<le> 54"
  by (cases l) simp_all

text \<open>The size of the block of a PBUF_RAM pbuf: the struct, the header space and the data, each aligned.\<close>

definition ram_size :: "u16 \<Rightarrow> u16 \<Rightarrow> nat" where
  "ram_size offset plen = 24 + unat (LWIP_MEM_ALIGN_SIZE (ucast offset)) + unat (LWIP_MEM_ALIGN_SIZE (ucast plen))"

lemma pbuf_alloc_ram_eq:
  assumes "e_malloc E (of_nat (ram_size (layer_offset l) plen)) (alloc s) = (p, A)" "p \<noteq> 0" "LWIP_MEM_ALIGN p = p"
    and "unat p + ram_size (layer_offset l) plen + 3 < 2 ^ 64"
  shows "\<exists>s' b. pbuf_alloc E l plen PBUF_RAM s = Some (p, s') \<and> mem s' = mem s \<and> alloc s' = A \<and> pbufs s' = (pbufs s)(p \<mapsto> b)
    \<and> packet (pbufs s') p [p] (unat plen) \<and> p_ref b = 1 \<and> freeable (pbufs s') p
    \<and> p_type_internal b AND PBUF_TYPE_FLAG_STRUCT_DATA_CONTIGUOUS \<noteq> 0
    \<and> unat p + 24 + unat (layer_offset l) \<le> unat (p_payload b)
    \<and> unat (p_payload b) + unat plen \<le> unat p + ram_size (layer_offset l) plen"
proof -
  let ?o = "layer_offset l"
  have o: "unat (ucast x :: u64) = unat x" for x :: u16
    using unat_u16_less [of x] by (simp add: unsigned_ucast_eq take_bit_nat_eq_self)
  have a: "unat (LWIP_MEM_ALIGN_SIZE (ucast x)) = unat x + 3 - (unat x + 3) mod 4" for x :: u16
    using unat_align_size [of "ucast x"] unat_u16_less [of x] unfolding o by simp
  let ?pl = "LWIP_MEM_ALIGN_SIZE (ucast ?o) + LWIP_MEM_ALIGN_SIZE (ucast plen)"
  have pl: "unat ?pl = unat (LWIP_MEM_ALIGN_SIZE (ucast ?o)) + unat (LWIP_MEM_ALIGN_SIZE (ucast plen))"
    using unat_u16_less [of plen] unat_u16_less [of ?o] by (subst unat_plus_small) (simp_all add: a)
  have z: "LWIP_MEM_ALIGN_SIZE 24 = 24" by (simp add: LWIP_MEM_ALIGN_SIZE_def)
  have al: "unat (24 + ?pl) = ram_size ?o plen"
    using unat_u16_less [of plen] layer_offset_le [of l] by (subst unat_plus_small) (simp_all add: pl a ram_size_def)
  then have aw: "24 + ?pl = of_nat (ram_size ?o plen)" by (metis of_nat_unat ucast_id)
  define b where "b = \<lparr>p_next = 0, p_payload = LWIP_MEM_ALIGN (p + SIZEOF_STRUCT_PBUF + ucast ?o), p_tot_len = plen, p_len = plen,
       p_type_internal = ucast PBUF_RAM, p_flags = 0, p_ref = 1, p_if_idx = 0\<rparr>"
  define s' where "s' = put_pbuf p b (s\<lparr>alloc := A\<rparr>)"
  have nw: "\<not> ?pl < LWIP_MEM_ALIGN_SIZE (ucast plen)" "\<not> 24 + ?pl < LWIP_MEM_ALIGN_SIZE (ucast plen)"
    using pl al by (simp_all add: word_less_nat_alt ram_size_def)
  have run: "pbuf_alloc E l plen PBUF_RAM s = Some (p, s')"
    using nw assms(1-3) unfolding aw [symmetric]
    by (simp add: pbuf_alloc_def pbuf_alloc_ram_def z mem_malloc_def Let_def pbuf_consts pbuf_init_alloced_pbuf_def s'_def b_def)
  have up: "unat (p + SIZEOF_STRUCT_PBUF + ucast ?o) = unat p + 24 + unat ?o"
    using assms(4) layer_offset_le [of l] by (simp add: unat_plus_small ram_size_def o a)
  have le: "24 + unat ?o \<le> ram_size ?o plen" unfolding ram_size_def a by linarith
  have pa: "unat (p_payload b) = unat p + 24 + unat ?o + 3 - (unat p + 24 + unat ?o + 3) mod 4"
    using unat_align [of "p + SIZEOF_STRUCT_PBUF + ucast ?o"] up assms(4) le by (simp add: b_def)
  have "(unat p + 3) mod 4 = 3"
    using unat_align [of p] assms(3,4) by (simp add: ram_size_def)
  then have p4: "(unat p + 24 + unat ?o + 3) mod 4 = (unat ?o + 3) mod 4" by presburger
  have "unat p + 24 + unat ?o \<le> unat (p_payload b)" unfolding pa by linarith
  moreover have "unat (p_payload b) + unat plen \<le> unat p + ram_size ?o plen"
    unfolding pa p4 ram_size_def a using mod_less_divisor [of 4 "unat plen + 3"] mod_less_eq_dividend [of "unat ?o + 3" 4] by linarith
  moreover have "packet (pbufs s') p [p] (unat plen)" using assms(2) by (simp add: s'_def packet_Cons packet_Nil b_def)
  moreover have "freeable (pbufs s') p" using assms(2,3) by (simp add: freeable_def s'_def b_def pbuf_consts)
  moreover have "mem s' = mem s" "alloc s' = A" "pbufs s' = (pbufs s)(p \<mapsto> b)" by (simp_all add: s'_def put_pbuf_def)
  moreover have "p_ref b = 1" "p_type_internal b AND PBUF_TYPE_FLAG_STRUCT_DATA_CONTIGUOUS \<noteq> 0" by (simp_all add: b_def pbuf_consts)
  ultimately show ?thesis using run by blast
qed

end
