(* ===== verification/BM_Pbuf_Copy.thy ===== *)
theory BM_Pbuf_Copy
  imports BM_Pbuf_Data BM_Pbuf_Chain
begin

text \<open>
  The data operations of \<^verbatim>\<open>pbuf.c\<close> on well-formed chains: each returns, and its effect on the data of the
  chain is that of an operation on byte lists.
\<close>

section \<open>Positions\<close>

abbreviation data :: "('k, 'm, 'z) lwip_scheme \<Rightarrow> addr list \<Rightarrow> u8 list" where
  "data s as \<equiv> payload (mem s) (pbufs s) as"

lemma skip_inside:
  assumes "chain (pbufs s) q as" "unat off < length (data s as)"
  shows "\<exists>as1 a as2 b i. as = as1 @ a # as2 \<and> a \<noteq> 0 \<and> pbufs s a = Some b \<and> pbuf_skip_const q off s = Some (a, i)
    \<and> unat off = length (data s as1) + unat i \<and> i < p_len b \<and> chain (pbufs s) (p_next b) as2"
  using assms
proof (induction as arbitrary: q off)
  case (Cons a as)
  obtain b where b: "q = a" "a \<noteq> 0" "pbufs s a = Some b" "chain (pbufs s) (p_next b) as"
    using Cons.prems(1) by (rule chain_Cons_obtain)
  show ?case
  proof (cases "p_len b \<le> off")
    case True
    then have u: "unat (off - p_len b) = unat off - unat (p_len b)" "unat (p_len b) \<le> unat off"
      by (simp_all add: unat_minus_small word_le_nat_alt)
    then have "unat (off - p_len b) < length (data s as)" using Cons.prems(2) b(3) by simp
    from Cons.IH [OF b(4) this] obtain as1 a' as2 b' i where h: "as = as1 @ a' # as2" "a' \<noteq> 0" "pbufs s a' = Some b'"
      "pbuf_skip_const (p_next b) (off - p_len b) s = Some (a', i)" "unat (off - p_len b) = length (data s as1) + unat i"
      "i < p_len b'" "chain (pbufs s) (p_next b') as2" by blast
    have "pbuf_skip_const q off s = Some (a', i)"
      using b True h(4) by (subst pbuf_skip_const.simps) simp
    moreover have "unat off = length (data s (a # as1)) + unat i" using h(5) u b(3) by simp
    ultimately show ?thesis using h by (intro exI [of _ "a # as1"]) auto
  next
    case False
    then have "pbuf_skip_const q off s = Some (a, off)"
      using b by (subst pbuf_skip_const.simps) simp
    then show ?thesis using b False by (intro exI [of _ "[]"]) auto
  qed
qed simp

lemma skip_outside:
  assumes "chain (pbufs s) q as" "length (data s as) \<le> unat off"
  shows "pbuf_skip_const q off s = Some (0, off - of_nat (length (data s as)))"
  using assms
proof (induction as arbitrary: q off)
  case Nil
  then show ?case by (subst pbuf_skip_const.simps) simp
next
  case (Cons a as)
  obtain b where b: "q = a" "a \<noteq> 0" "pbufs s a = Some b" "chain (pbufs s) (p_next b) as"
    using Cons.prems(1) by (rule chain_Cons_obtain)
  then have le: "p_len b \<le> off" using Cons.prems(2) by (simp add: word_le_nat_alt)
  then have "length (data s as) \<le> unat (off - p_len b)" using Cons.prems(2) b(3) by (simp add: unat_minus_small)
  from Cons.IH [OF b(4) this] show ?case
    using b le by (subst pbuf_skip_const.simps) (simp add: algebra_simps)
qed

lemma nth_payload:
  assumes "as = as1 @ a # as2" "P a = Some b" "i < p_len b"
  shows "payload m P as ! (length (payload m P as1) + unat i) = m (p_payload b + ucast i)"
proof -
  have "unat i < unat (p_len b)" using assms(3) by (simp add: word_less_nat_alt)
  then show ?thesis
    using assms by (simp add: payload_append nth_append pbuf_bytes_def)
qed

lemma pbuf_get_at_eq:
  assumes "chain (pbufs s) p as"
  shows "pbuf_get_at p off s = Some (if unat off < length (data s as) then data s as ! unat off else 0)"
proof (cases "unat off < length (data s as)")
  case True
  obtain as1 a as2 b i where h: "as = as1 @ a # as2" "a \<noteq> 0" "pbufs s a = Some b" "pbuf_skip_const p off s = Some (a, i)"
    "unat off = length (data s as1) + unat i" "i < p_len b"
    using skip_inside [OF assms True] by blast
  then have "pbuf_try_get_at p off s = Some (uint (data s as ! unat off))"
    using nth_payload [of as as1 a as2 "pbufs s" b i "mem s"] by (simp add: pbuf_try_get_at_def)
  then show ?thesis using True by (simp add: pbuf_get_at_def)
next
  case False
  then show ?thesis using skip_outside [OF assms, of off] by (simp add: pbuf_get_at_def pbuf_try_get_at_def)
qed

section \<open>Separate payloads\<close>

lemma sep_sub:
  assumes "sep a n b k" "i + j \<le> k" "k < 2 ^ 64"
  shows "sep a n (b + of_nat i) j"
proof (cases "n = 0 \<or> j = 0")
  case False
  then have h: "n \<le> unat (b - a)" "k \<le> unat (a - b)" using assms by (auto simp: sep_def)
  have i: "i < 2 ^ 64" using assms by simp
  have "k \<le> unat (- (b - a))" using h(2) by simp
  moreover have "b - a \<noteq> 0" using h(1) False by (intro notI) simp
  ultimately have "unat (b - a) + k \<le> 2 ^ 64"
    using unat_neg [of "b - a"] unat_u64_less [of "b - a"] by simp
  then have "unat ((b - a) + of_nat i) = unat (b - a) + i"
    using assms(2) False i by (subst unat_plus_small) simp_all
  moreover have "unat ((a - b) - of_nat i) = unat (a - b) - i"
    using h(2) assms(2) i by (subst unat_minus_small) (simp_all add: word_le_nat_alt)
  ultimately show ?thesis
    using h assms(2) unfolding sep_def by (simp add: algebra_simps) linarith
qed (auto simp: sep_def)

text \<open>No two pbufs of a chain share payload bytes, and none shares bytes with a given block.\<close>

definition off_block :: "(addr \<Rightarrow> pbuf option) \<Rightarrow> addr list \<Rightarrow> addr \<Rightarrow> nat \<Rightarrow> bool" where
  "off_block P as x n \<longleftrightarrow>
     (\<forall>a \<in> set as. case P a of None \<Rightarrow> True | Some b \<Rightarrow> sep (p_payload b) (unat (p_len b)) x n)"

fun spread :: "(addr \<Rightarrow> pbuf option) \<Rightarrow> addr list \<Rightarrow> bool" where
  "spread P [] \<longleftrightarrow> True"
| "spread P (a # as) \<longleftrightarrow>
     (case P a of None \<Rightarrow> True | Some b \<Rightarrow> off_block P as (p_payload b) (unat (p_len b))) \<and> spread P as"

lemma off_block_simps [simp]:
  "off_block P [] x n" 
  "off_block P (a # as) x n \<longleftrightarrow>
     (case P a of None \<Rightarrow> True | Some b \<Rightarrow> sep (p_payload b) (unat (p_len b)) x n) \<and> off_block P as x n"
  "off_block P (as @ bs) x n \<longleftrightarrow> off_block P as x n \<and> off_block P bs x n"
  by (auto simp: off_block_def)

lemma off_block_sub: "off_block P as x n \<Longrightarrow> i + j \<le> n \<Longrightarrow> n < 2 ^ 64 \<Longrightarrow> off_block P as (x + of_nat i) j"
  unfolding off_block_def using sep_sub by (fastforce split: option.splits)

lemma payload_write_off:
  assumes "off_block P as x (length bs)" "length bs \<le> 2 ^ 64"
  shows "payload (mem_write m x bs) P as = payload m P as"
  using assms by (induction as) (auto simp: pbuf_bytes_def mem_read_write_sep split: option.splits)

lemma spread_mid:
  assumes "spread P (as1 @ a # as2)" "P a = Some b"
  shows "off_block P as1 (p_payload b) (unat (p_len b))" "off_block P as2 (p_payload b) (unat (p_len b))"
  using assms by (induction as1) (auto simp: sep_sym split: option.splits)

lemma u16_le_2_64: "unat (l :: u16) < 2 ^ 64"
  using unat_u16_less [of l] by simp

text \<open>A write inside one pbuf replaces the bytes at its position in the data of the chain.\<close>

lemma payload_write_in:
  assumes "as = as1 @ a # as2" "P a = Some b" "spread P as" "i + length bs \<le> unat (p_len b)"
  shows "payload (mem_write m (p_payload b + of_nat i) bs) P as =
    (let k = length (payload m P as1) + i in take k (payload m P as) @ bs @ drop (k + length bs) (payload m P as))"
proof -
  let ?m = "mem_write m (p_payload b + of_nat i) bs" and ?r = "unat (p_len b) - i - length bs"
  have l: "length bs \<le> 2 ^ 64" "unat (p_len b) = i + length bs + ?r"
    using assms(4) u16_le_2_64 [of "p_len b"] by simp_all
  note o = spread_mid [OF assms(3) [unfolded assms(1)] assms(2)]
  have o1: "payload ?m P as1 = payload m P as1" "payload ?m P as2 = payload m P as2"
    using off_block_sub [OF o(1) assms(4) u16_le_2_64] off_block_sub [OF o(2) assms(4) u16_le_2_64] l(1)
    by (simp_all add: payload_write_off)
  have "pbuf_bytes ?m b = mem_read m (p_payload b) i @ bs @ mem_read m (p_payload b + of_nat (i + length bs)) ?r"
    unfolding pbuf_bytes_def using mem_read_write_in [of i bs ?r m "p_payload b"] l u16_le_2_64 [of "p_len b"] by simp
  moreover have "pbuf_bytes m b = mem_read m (p_payload b) i @ mem_read m (p_payload b + of_nat i) (length bs)
      @ mem_read m (p_payload b + of_nat (i + length bs)) ?r"
    unfolding pbuf_bytes_def using l(2) mem_read_add [of m "p_payload b" "i + length bs" ?r] mem_read_add [of m "p_payload b" i "length bs"]
    by simp
  ultimately show ?thesis
    unfolding assms(1) using assms(2) o1 by (simp add: payload_append Let_def)
qed

lemma mem_write_single: "mem_write m x [c] = m(x := c)"
  by simp

lemma pbuf_put_at_eq:
  assumes "chain (pbufs s) p as" "spread (pbufs s) as"
  shows "\<exists>s'. pbuf_put_at p off c s = Some s' \<and> pbufs s' = pbufs s \<and> data s' as = (data s as)[unat off := c]"
proof (cases "unat off < length (data s as)")
  case True
  obtain as1 a as2 b i where h: "as = as1 @ a # as2" "a \<noteq> 0" "pbufs s a = Some b" "pbuf_skip_const p off s = Some (a, i)"
    "unat off = length (data s as1) + unat i" "i < p_len b"
    using skip_inside [OF assms(1) True] by blast
  have "payload (mem_write (mem s) (p_payload b + of_nat (unat i)) [c]) (pbufs s) as = (data s as)[unat off := c]"
    using payload_write_in [OF h(1,3) assms(2), of "unat i" "[c]" "mem s"] h(5,6) True
    by (simp add: word_less_nat_alt Let_def upd_conv_take_nth_drop Suc_le_eq)
  then show ?thesis using h by (simp add: pbuf_put_at_def pbuf_skip_def)
next
  case False
  then show ?thesis using skip_outside [OF assms(1), of off]
    by (simp add: pbuf_put_at_def pbuf_skip_def list_update_beyond)
qed

section \<open>Copying out\<close>

lemma ucast_u16_add:
  "unat (a :: u16) + unat b < 65536 \<Longrightarrow> (ucast (a + b) :: u64) = ucast a + ucast b"
  by (intro word_unat_eq_iff [THEN iffD2])
    (simp add: unat_plus_small unsigned_ucast_eq take_bit_nat_eq_self)

lemma ucast_u64_of_nat: "(ucast (a :: u16) :: u64) = of_nat (unat a)"
  by simp

lemma pbufs_mem_upd [simp]: "pbufs (s\<lparr>mem := m\<rparr>) = pbufs s"
  by simp

lemma mem_read_take: "take j (mem_read m a n) = mem_read m a (min j n)"
  by (rule nth_equalityI) simp_all

lemma mem_read_drop: "i \<le> n \<Longrightarrow> drop i (mem_read m a n) = mem_read m (a + of_nat i) (n - i)"
  using mem_read_add [of m a i "n - i"] by simp

text \<open>A copy of \<open>l\<close> bytes from offset \<open>i\<close> of a pbuf takes \<open>n\<close> of them there and the others from the rest.\<close>

lemma copy_split:
  assumes "i \<le> unat (p_len b)" "n = min (unat (p_len b) - i) l"
  shows "take l (drop i (pbuf_bytes m b @ xs)) = mem_read m (p_payload b + of_nat i) n @ take (l - n) xs"
    and "min l (unat (p_len b) + length xs - i) = n + min (l - n) (length xs)"
proof -
  have e: "l - n = l - (unat (p_len b) - i)" "n = min l (unat (p_len b) - i)" using assms by simp_all
  show "take l (drop i (pbuf_bytes m b @ xs)) = mem_read m (p_payload b + of_nat i) n @ take (l - n) xs"
    using assms(1) unfolding e(1) unfolding e(2) by (simp add: pbuf_bytes_def mem_read_drop mem_read_take)
  show "min l (unat (p_len b) + length xs - i) = n + min (l - n) (length xs)"
    using assms by linarith
qed

lemma copy_partial_loop_eq:
  assumes "chain (pbufs s) p as" "off_block (pbufs s) as (d + ucast left) (unat len)"
    and "unat left + unat len < 65536"
  shows "copy_partial_loop p d len left off cp s =
    Some (cp + of_nat (min (unat len) (length (data s as) - unat off)),
      s\<lparr>mem := mem_write (mem s) (d + ucast left) (take (unat len) (drop (unat off) (data s as)))\<rparr>)"
  using assms
proof (induction as arbitrary: p len left off cp s)
  case Nil
  then show ?case by (subst copy_partial_loop.simps) simp
next
  case (Cons a as)
  obtain b where b: "p = a" "a \<noteq> 0" "pbufs s a = Some b" "chain (pbufs s) (p_next b) as"
    using Cons.prems(1) by (rule chain_Cons_obtain)
  have ob: "off_block (pbufs s) as (d + ucast left) (unat len)" using Cons.prems(2) by simp
  show ?case
  proof (cases "len = 0 \<or> off \<noteq> 0 \<and> p_len b \<le> off")
    case True
    show ?thesis
    proof (cases "len = 0")
      case False
      then have o: "off \<noteq> 0" "p_len b \<le> off" using True by auto
      then have u: "unat (off - p_len b) = unat off - unat (p_len b)" "unat (p_len b) \<le> unat off"
        by (simp_all add: unat_minus_small word_le_nat_alt)
      show ?thesis
        using Cons.IH [OF b(4) ob Cons.prems(3), of "off - p_len b" cp] b o False u
        by (subst copy_partial_loop.simps) (simp add: add.commute)
    qed (subst copy_partial_loop.simps, simp)
  next
    case False
    define n where "n = min (p_len b - off) len"
    define k where "k = unat (p_len b) - unat off"
    have le: "off \<le> p_len b" using False by auto
    then have u: "unat (p_len b - off) = k" "unat off \<le> unat (p_len b)"
      by (simp_all add: unat_minus_small word_le_nat_alt k_def)
    have n: "unat n = min k (unat len)" "n \<le> len" unfolding n_def u(1) [symmetric] by (simp_all add: min_def word_le_nat_alt)
    define bs where "bs = mem_read (mem s) (p_payload b + ucast off) (unat n)"
    define s1 where "s1 = mem_copy (d + ucast left) (p_payload b + ucast off) (unat n) s"
    have m1: "mem s1 = mem_write (mem s) (d + ucast left) bs" "pbufs s1 = pbufs s"
      by (simp_all add: s1_def mem_copy_def bs_def)
    have ln: "unat (len - n) = unat len - unat n" "unat n \<le> unat len" using n by (simp_all add: unat_minus_small word_le_nat_alt)
    have lf: "unat (left + n) = unat left + unat n" "d + ucast (left + n) = d + ucast left + of_nat (unat n)"
      using Cons.prems(3) ln(2) by (simp_all add: unat_plus_small ucast_u16_add add.assoc)
    have o2: "off_block (pbufs s1) as (d + ucast (left + n)) (unat (len - n))"
      unfolding m1(2) lf(2) ln(1) by (rule off_block_sub [OF ob]) (use ln(2) u16_le_2_64 [of len] in auto)
    have dt: "data s1 as = data s as"
      unfolding m1 by (rule payload_write_off)
        (use off_block_sub [OF ob, of 0 "unat n"] ln(2) u16_le_2_64 [of len] u16_le_2_64 [of n] in \<open>auto simp: bs_def\<close>)
    have IH: "copy_partial_loop (p_next b) d (len - n) (left + n) 0 (cp + n) s1 =
      Some (cp + n + of_nat (min (unat len - unat n) (length (data s as))),
        s1\<lparr>mem := mem_write (mem s1) (d + ucast left + of_nat (unat n)) (take (unat len - unat n) (data s as))\<rparr>)"
      using Cons.IH [of s1 "p_next b" "left + n" "len - n" 0 "cp + n"] b(4) o2 Cons.prems(3) lf ln dt m1(2) by simp
    have sp: "take (unat len) (drop (unat off) (data s (a # as))) = bs @ take (unat len - unat n) (data s as)"
      "min (unat len) (length (data s (a # as)) - unat off) = unat n + min (unat len - unat n) (length (data s as))"
      using copy_split(1) [OF u(2), of "unat n" "unat len" "mem s" "data s as"]
        copy_split(2) [OF u(2), of "unat n" "unat len" "data s as"] n(1) b(3) unfolding k_def bs_def
      by (simp_all only: payload.simps option.case length_append length_pbuf_bytes ucast_u64_of_nat)
    have w: "mem_write (mem s1) (d + ucast left + of_nat (unat n)) (take (unat len - unat n) (data s as))
      = mem_write (mem s) (d + ucast left) (take (unat len) (drop (unat off) (data s (a # as))))"
      unfolding m1 sp(1) by (simp add: mem_write_append bs_def)
    have c: "cp + n + of_nat (min (unat len - unat n) (length (data s as))) =
      cp + of_nat (min (unat len) (length (data s (a # as)) - unat off))"
      unfolding sp(2) by (simp add: add.assoc)
    have "s1\<lparr>mem := X\<rparr> = s\<lparr>mem := X\<rparr>" for X by (simp add: s1_def mem_copy_def)
    moreover have "copy_partial_loop p d len left off cp s = copy_partial_loop (p_next b) d (len - n) (left + n) 0 (cp + n) s1"
      using b False by (subst copy_partial_loop.simps) (auto simp: n_def s1_def Let_def)
    ultimately show ?thesis unfolding w [symmetric] c [symmetric] using IH by simp
  qed
qed

lemma pbuf_copy_partial_eq:
  assumes "chain (pbufs s) p as" "as \<noteq> []" "d \<noteq> 0" "off_block (pbufs s) as d (unat len)"
  shows "pbuf_copy_partial p d len off s =
    Some (of_nat (min (unat len) (length (data s as) - unat off)),
      s\<lparr>mem := mem_write (mem s) d (take (unat len) (drop (unat off) (data s as)))\<rparr>)"
proof -
  have "p \<noteq> 0" using assms(1,2) by (cases as) auto
  then show ?thesis
    using copy_partial_loop_eq [of s p as d 0 len off 0] assms unat_u16_less [of len] by (simp add: pbuf_copy_partial_def)
qed

section \<open>Copying in\<close>

text \<open>What a write to the payloads of a chain leaves alone: every block off the chain.\<close>

definition keeps :: "('k, 'm, 'z) lwip_scheme \<Rightarrow> addr list \<Rightarrow> ('k, 'm, 'z) lwip_scheme \<Rightarrow> bool" where
  "keeps s as s' \<longleftrightarrow> pbufs s' = pbufs s \<and> alloc s' = alloc s \<and>
     (\<forall>x n. n < 2 ^ 64 \<longrightarrow> off_block (pbufs s) as x n \<longrightarrow> mem_read (mem s') x n = mem_read (mem s) x n)"

lemma keeps_refl [simp]: "keeps s as s"
  by (simp add: keeps_def)

lemma keeps_trans: "keeps s as s' \<Longrightarrow> keeps s' as s'' \<Longrightarrow> keeps s as s''"
  by (auto simp: keeps_def)

lemma off_block_mono: "off_block P bs x n \<Longrightarrow> set as \<subseteq> set bs \<Longrightarrow> off_block P as x n"
  by (auto simp: off_block_def)

lemma keeps_mono: "keeps s as s' \<Longrightarrow> set as \<subseteq> set bs \<Longrightarrow> keeps s bs s'"
  unfolding keeps_def using off_block_mono by blast

lemma keeps_read:
  "keeps s as s' \<Longrightarrow> off_block (pbufs s) as x n \<Longrightarrow> n < 2 ^ 64 \<Longrightarrow> mem_read (mem s') x n = mem_read (mem s) x n"
  by (simp add: keeps_def)

lemma keeps_pbufs: "keeps s as s' \<Longrightarrow> pbufs s' = pbufs s"
  by (simp add: keeps_def)

lemma keeps_write:
  assumes "pbufs s a = Some b" "i + length bs \<le> unat (p_len b)"
  shows "keeps s [a] (s\<lparr>mem := mem_write (mem s) (p_payload b + of_nat i) bs\<rparr>)"
proof -
  have "mem_read (mem_write (mem s) (p_payload b + of_nat i) bs) x n = mem_read (mem s) x n"
    if "off_block (pbufs s) [a] x n" "n < 2 ^ 64" for x n
  proof (rule mem_read_write_sep)
    have "sep x n (p_payload b) (unat (p_len b))" using that(1) assms(1) by (simp add: sep_sym)
    then show "sep x n (p_payload b + of_nat i) (length bs)" by (rule sep_sub [OF _ assms(2) u16_le_2_64])
    show "length bs \<le> 2 ^ 64" using assms(2) u16_le_2_64 [of "p_len b"] by simp
  qed
  then show ?thesis by (simp add: keeps_def)
qed

lemma keeps_data:
  assumes "keeps s as s'" "\<And>a b. a \<in> set cs \<Longrightarrow> pbufs s a = Some b \<Longrightarrow> off_block (pbufs s) as (p_payload b) (unat (p_len b))"
  shows "data s' cs = data s cs"
  using assms(2)
proof (induction cs)
  case (Cons c cs)
  have "pbuf_bytes (mem s') b = pbuf_bytes (mem s) b" if "pbufs s c = Some b" for b
    unfolding pbuf_bytes_def using Cons.prems [of c b] that by (intro keeps_read [OF assms(1) _ u16_le_2_64]) simp
  moreover have "data s' cs = data s cs" by (rule Cons.IH) (use Cons.prems in auto)
  ultimately show ?case using keeps_pbufs [OF assms(1)] by (simp split: option.splits)
qed simp

text \<open>Two groups of pbufs off each other.\<close>

lemma off_block_swap:
  assumes "\<And>a b. a \<in> set as \<Longrightarrow> P a = Some b \<Longrightarrow> off_block P cs (p_payload b) (unat (p_len b))" "c \<in> set cs" "P c = Some d"
  shows "off_block P as (p_payload d) (unat (p_len d))"
  unfolding off_block_def using assms by (fastforce simp: off_block_def sep_sym split: option.splits)

lemma take_join:
  "n = min t (length bs) \<Longrightarrow> length r = t - n \<Longrightarrow>
    (c @ drop n bs) @ r @ drop (t - n) ds = (c @ r) @ drop t (bs @ ds)"
  by (cases "t \<le> length bs") simp_all

lemma take_loop_eq:
  assumes "chain (pbufs s) p as" "spread (pbufs s) as" "off_block (pbufs s) as (d + ct) (unat tot)" "unat tot \<le> length (data s as)"
  shows "\<exists>s'. pbuf_take_loop p d tot ct s = Some s' \<and> keeps s as s'
    \<and> data s' as = mem_read (mem s) (d + ct) (unat tot) @ drop (unat tot) (data s as)"
  using assms
proof (induction as arbitrary: p tot ct s)
  case Nil
  then have "tot = 0" by (simp add: unat_eq_0)
  then show ?case using Nil by (subst pbuf_take_loop.simps) (simp add: mem_read_def)
next
  case (Cons a as)
  obtain b where b: "p = a" "a \<noteq> 0" "pbufs s a = Some b" "chain (pbufs s) (p_next b) as"
    using Cons.prems(1) by (rule chain_Cons_obtain)
  show ?case
  proof (cases "tot = 0")
    case True
    then show ?thesis by (subst pbuf_take_loop.simps) (simp add: mem_read_def)
  next
    case False
    define n where "n = min tot (ucast (p_len b))"
    define bs where "bs = mem_read (mem s) (d + ct) (unat n)"
    define s1 where "s1 = mem_copy (p_payload b) (d + ct) (unat n) s"
    have ul: "unat (ucast (p_len b) :: u64) = unat (p_len b)"
      using unat_u16_less [of "p_len b"] by (simp add: unsigned_ucast_eq take_bit_nat_eq_self)
    have n: "unat n = min (unat tot) (unat (p_len b))" "n \<le> tot" "unat (tot - n) = unat tot - unat n"
      unfolding n_def ul [symmetric] by (simp_all add: min_def word_le_nat_alt unat_minus_small)
    have k1: "keeps s [a] s1"
      using keeps_write [OF b(3), of 0 bs] n(1) by (simp add: s1_def mem_copy_def bs_def)
    have ob: "off_block (pbufs s) as (p_payload b) (unat (p_len b))" "spread (pbufs s) as"
      using Cons.prems(2) b(3) by simp_all
    have "off_block (pbufs s) (a # as) (d + ct + of_nat (unat n)) (unat tot - unat n)"
      by (rule off_block_sub [OF Cons.prems(3)]) (use n(1) unat_u64_less [of tot] in auto)
    then have src: "off_block (pbufs s) [a] (d + (ct + n)) (unat (tot - n))" "off_block (pbufs s) as (d + (ct + n)) (unat (tot - n))"
      using n(3) by (simp_all add: algebra_simps)
    have p1: "pbufs s1 = pbufs s" and m1: "mem s1 = mem_write (mem s) (p_payload b) bs"
      by (simp_all add: s1_def mem_copy_def bs_def)
    have d1: "data s1 as = data s as"
      by (rule keeps_data [OF k1]) (use ob(1) b(3) in \<open>auto simp: off_block_def sep_sym split: option.splits\<close>)
    have "unat (tot - n) \<le> length (data s1 as)" using Cons.prems(4) b(3) n(1,3) d1 by simp
    then obtain s' where h: "pbuf_take_loop (p_next b) d (tot - n) (ct + n) s1 = Some s'" "keeps s1 as s'"
      "data s' as = mem_read (mem s1) (d + (ct + n)) (unat (tot - n)) @ drop (unat (tot - n)) (data s as)"
      using Cons.IH [of s1 "p_next b" "ct + n" "tot - n"] b(4) src(2) ob(2) d1 p1 by auto
    have r1: "mem_read (mem s1) (d + (ct + n)) (unat (tot - n)) = mem_read (mem s) (d + (ct + n)) (unat (tot - n))"
      using k1 src(1) unat_u64_less [of "tot - n"] by (simp add: keeps_def)
    have sp: "mem_read (mem s) (d + ct) (unat tot) = mem_read (mem s) (d + ct) (unat n) @ mem_read (mem s) (d + (ct + n)) (unat tot - unat n)"
      using mem_read_add [of "mem s" "d + ct" "unat n" "unat tot - unat n"] n(2) by (simp add: add.assoc word_le_nat_alt)
    have "pbuf_bytes (mem s') b = pbuf_bytes (mem s1) b"
      using h(2) ob(1) p1 u16_le_2_64 [of "p_len b"] by (simp add: keeps_def pbuf_bytes_def)
    also have "\<dots> = bs @ drop (unat n) (pbuf_bytes (mem s) b)"
      using mem_read_write_in [of 0 bs "unat (p_len b) - unat n" "mem s" "p_payload b"] n(1) u16_le_2_64 [of "p_len b"] m1
      by (simp add: pbuf_bytes_def bs_def mem_read_drop mem_read_def [of _ _ 0])
    finally have bb: "pbuf_bytes (mem s') b = bs @ drop (unat n) (pbuf_bytes (mem s) b)" .
    have "data s' (a # as) = pbuf_bytes (mem s') b @ data s' as" using keeps_pbufs [OF h(2)] p1 b(3) by simp
    also have "\<dots> = mem_read (mem s) (d + ct) (unat tot) @ drop (unat tot) (data s (a # as))"
      unfolding bb h(3) r1 sp using take_join [of "unat n" "unat tot" "pbuf_bytes (mem s) b"] n(1,3) b(3) by (simp add: bs_def)
    finally have "data s' (a # as) = mem_read (mem s) (d + ct) (unat tot) @ drop (unat tot) (data s (a # as))" .
    moreover have "pbuf_take_loop p d tot ct s = Some s'"
      using b False h(1) by (subst pbuf_take_loop.simps) (simp add: n_def s1_def Let_def)
    moreover have "keeps s (a # as) s'"
      using keeps_trans [OF keeps_mono [OF k1] keeps_mono [OF h(2)], of "a # as"] by auto
    ultimately show ?thesis by blast
  qed
qed

lemma pbuf_take_eq:
  assumes "packet (pbufs s) p as n" "as \<noteq> []" "spread (pbufs s) as" "d \<noteq> 0" "off_block (pbufs s) as d (unat len)" "unat len \<le> n"
  shows "\<exists>s'. pbuf_take p d len s = Some (ERR_OK, s') \<and> keeps s as s'
    \<and> data s' as = mem_read (mem s) d (unat len) @ drop (unat len) (data s as)"
proof -
  obtain a as' where a: "as = a # as'" using assms(2) by (cases as) auto
  obtain b where b: "p = a" "a \<noteq> 0" "pbufs s a = Some b"
    using assms(1) unfolding packet_def a by (blast elim: chain_Cons_obtain)
  have t: "unat (p_tot_len b) = n" using assms(1) b(3) by (simp add: packet_def a)
  have ul: "unat (ucast len :: u64) = unat len"
    using unat_u16_less [of len] by (simp add: unsigned_ucast_eq take_bit_nat_eq_self)
  have "length (data s as) = n" using assms(1) payload_length by (auto simp: packet_def)
  then show ?thesis
    using take_loop_eq [of s p as d 0 "ucast len"] assms b t ul
    by (auto simp: pbuf_take_def packet_def word_less_nat_alt)
qed

text \<open>
  The tail of a packet after one of its pbufs is a packet.
\<close>

lemma packet_tail:
  assumes "tot_ok P (as1 @ a # as2) n" "P a = Some b"
  shows "tot_ok P (a # as2) (n - length (payload m P as1))" "length (payload m P as1) \<le> n"
proof -
  have "tot_ok P (a # as2) (n - length (payload m P as1)) \<and> length (payload m P as1) \<le> n"
    using assms(1)
  proof (induction as1 arbitrary: n)
    case (Cons c as1)
    obtain d where d: "P c = Some d" "unat (p_len d) \<le> n" "tot_ok P (as1 @ a # as2) (n - unat (p_len d))"
      using Cons.prems by (auto split: option.splits)
    show ?case using Cons.IH [OF d(3)] d(1,2) by (auto simp: diff_diff_left)
  qed simp
  then show "tot_ok P (a # as2) (n - length (payload m P as1))" "length (payload m P as1) \<le> n" by simp_all
qed

lemma append_split: "xs @ us = ys @ vs \<Longrightarrow> length xs = length ys \<Longrightarrow> xs = ys \<and> us = vs"
  by simp

lemma length_payload_mem: "length (payload m P as) = length (payload m' P as)"
  by (induction as) (auto split: option.splits)

lemma spread_append: "spread P (as @ bs) \<Longrightarrow> spread P bs"
  by (induction as) (auto split: option.splits)

lemma off_block_cross:
  assumes "spread P (as1 @ a # as2)" "c \<in> set (as1 @ [a])" "P c = Some b"
  shows "off_block P as2 (p_payload b) (unat (p_len b))"
proof -
  obtain xs ys where "as1 @ [a] = xs @ c # ys" using assms(2) by (meson split_list)
  then have e: "as1 @ a # as2 = xs @ c # ys @ as2" by (metis append.assoc append_Cons append_Nil)
  have "spread P (c # ys @ as2)" using assms(1) unfolding e by (rule spread_append)
  then show ?thesis using assms(3) by simp
qed

lemma pbuf_take_at_eq:
  assumes "packet (pbufs s) p as n" "spread (pbufs s) as" "d \<noteq> 0" "unat d + unat len < 2 ^ 64" "off_block (pbufs s) as d (unat len)"
    and "unat off < n" "unat off + unat len \<le> n"
  shows "\<exists>s'. pbuf_take_at p d len off s = Some (ERR_OK, s') \<and> pbufs s' = pbufs s
    \<and> data s' as = take (unat off) (data s as) @ mem_read (mem s) d (unat len) @ drop (unat off + unat len) (data s as)"
proof -
  have nl: "length (data s as) = n" and ch: "chain (pbufs s) p as" and to: "tot_ok (pbufs s) as n"
    using assms(1) payload_length by (auto simp: packet_def)
  obtain as1 a as2 b i where h: "as = as1 @ a # as2" "a \<noteq> 0" "pbufs s a = Some b" "pbuf_skip_const p off s = Some (a, i)"
    "unat off = length (data s as1) + unat i" "i < p_len b" "chain (pbufs s) (p_next b) as2"
    using skip_inside [OF ch, of off] assms(6) nl by auto
  have tb: "tot_ok (pbufs s) (a # as2) (n - length (data s as1))" "length (data s as1) \<le> n"
    using packet_tail [OF to [unfolded h(1)] h(3), of "mem s"] by auto
  then have t2: "unat (p_tot_len b) = n - length (data s as1)" "tot_ok (pbufs s) as2 (n - length (data s as1) - unat (p_len b))"
    using h(3) by auto
  have iu: "unat i < unat (p_len b)" using h(6) by (simp add: word_less_nat_alt)
  define f where "f = min (p_len b - i) len"
  have f: "unat f = min (unat (p_len b) - unat i) (unat len)" "unat (len - f) = unat len - unat f" "unat f \<le> unat len"
    using h(6) unfolding f_def by (auto simp: min_def word_le_nat_alt unat_minus_small word_less_nat_alt)
  define bs where "bs = mem_read (mem s) d (unat f)"
  define s1 where "s1 = mem_copy (p_payload b + ucast i) d (unat f) s"
  have s1: "s1 = s\<lparr>mem := mem_write (mem s) (p_payload b + of_nat (unat i)) bs\<rparr>"
    by (simp add: s1_def mem_copy_def bs_def)
  have k1: "keeps s [a] s1" unfolding s1 by (rule keeps_write [OF h(3)]) (use f(1) iu in \<open>simp add: bs_def\<close>)
  have d1: "data s1 as = take (unat off) (data s as) @ bs @ drop (unat off + unat f) (data s as)"
    using payload_write_in [OF h(1,3) assms(2), of "unat i" bs "mem s"] f(1) iu h(5) by (simp add: s1 bs_def Let_def)
  have room: "\<not> unat (p_tot_len b) < unat i + unat len" using t2(1) assms(7) tb(2) h(5) by linarith
  have run: "pbuf_take_at p d len off s =
    (if 0 < len - f then pbuf_take (p_next b) (d + ucast f) (len - f) s1 else Some (ERR_OK, s1))"
    using h(2,3,4,6) room by (simp add: pbuf_take_at_def pbuf_skip_def f_def [symmetric] s1_def [symmetric] Let_def)
  show ?thesis
  proof (cases "len = f")
    case True
    then show ?thesis using run d1 s1 by (simp add: bs_def)
  next
    case False
    let ?n2 = "n - length (data s as1) - unat (p_len b)" and ?d = "d + ucast f"
    have "unat f < unat len" using False f(3) by (metis le_neq_implies_less unsigned_word_eqI)
    then have ff: "unat f = unat (p_len b) - unat i" "unat (len - f) \<le> ?n2" "0 < unat (len - f)"
      using f assms(7) h(5) iu by linarith+
    then have ne: "as2 \<noteq> []" using t2(2) by auto
    have sp2: "spread (pbufs s1) as2" using assms(2) spread_append [of _ "as1 @ [a]"] unfolding h(1) keeps_pbufs [OF k1] by auto
    have ud: "unat ?d = unat d + unat f"
      using assms(4) f(3) by (simp add: unat_plus_small unsigned_ucast_eq take_bit_nat_eq_self)
    then have "?d \<noteq> 0" using assms(3) by (metis add_is_0 unat_0 unat_eq_zero)
    moreover have ob: "off_block (pbufs s) as ?d (unat (len - f))"
      using off_block_sub [OF assms(5), of "unat f" "unat (len - f)"] f(2,3) u16_le_2_64 [of len] by simp
    moreover have "packet (pbufs s1) (p_next b) as2 ?n2"
      using h(1,7) t2(2) assms(1) keeps_pbufs [OF k1] by (auto simp: packet_def)
    ultimately obtain s' where t: "pbuf_take (p_next b) ?d (len - f) s1 = Some (ERR_OK, s')" "keeps s1 as2 s'"
      "data s' as2 = mem_read (mem s1) ?d (unat (len - f)) @ drop (unat (len - f)) (data s1 as2)"
      using pbuf_take_eq [of s1 "p_next b" as2 ?n2 ?d "len - f"] ne sp2 ff(2) h(1) keeps_pbufs [OF k1] by auto
    have d2: "data s' (as1 @ [a]) = data s1 (as1 @ [a])"
      by (rule keeps_data [OF t(2)]) (use off_block_cross [OF assms(2) [unfolded h(1)]] keeps_pbufs [OF k1] in auto)
    have r: "mem_read (mem s1) ?d (unat (len - f)) = mem_read (mem s) ?d (unat (len - f))"
      by (rule keeps_read [OF k1]) (use ob h(1) u16_le_2_64 [of "len - f"] in auto)
    have l: "length (data s1 (as1 @ [a])) = unat off + unat f"
      using h(3,5) iu ff(1) length_payload_mem [of "mem s1" "pbufs s" as1 "mem s"] keeps_pbufs [OF k1] by (simp add: payload_append)
    have sp: "data s1 as = data s1 (as1 @ [a]) @ data s1 as2" "data s' as = data s' (as1 @ [a]) @ data s' as2"
      unfolding h(1) by (simp_all add: payload_append)
    have "data s1 (as1 @ [a]) @ data s1 as2 = (take (unat off) (data s as) @ bs) @ drop (unat off + unat f) (data s as)"
      using d1 sp(1) by (simp only: append_assoc)
    moreover have "length (data s1 (as1 @ [a])) = length (take (unat off) (data s as) @ bs)"
      using l assms(6) nl by (simp add: bs_def)
    ultimately have D: "data s1 (as1 @ [a]) = take (unat off) (data s as) @ bs \<and> data s1 as2 = drop (unat off + unat f) (data s as)"
      by (rule append_split)
    have "data s' as = take (unat off) (data s as) @ mem_read (mem s) d (unat len) @ drop (unat off + unat len) (data s as)"
      unfolding sp(2) d2 D [THEN conjunct1] t(3) D [THEN conjunct2] r bs_def
      using mem_read_add [of "mem s" d "unat f" "unat (len - f)"] f(2,3) by (simp add: add.commute [of "unat len"])
    moreover have pos: "0 < len - f" using ff(3) by (simp only: word_less_nat_alt unat_0)
    moreover have "pbuf_take_at p d len off s = Some (ERR_OK, s')" unfolding run t(1) if_P [OF pos] ..
    moreover have "pbufs s' = pbufs s" using keeps_pbufs [OF t(2)] keeps_pbufs [OF k1] by simp
    ultimately show ?thesis by blast
  qed
qed

end
