(* ===== verification/BM_Pbuf_Search.thy ===== *)
theory BM_Pbuf_Search
  imports BM_Pbuf_Copy
begin

text \<open>Comparison and search in the data of a chain (\<^verbatim>\<open>pbuf_memcmp\<close>, \<^verbatim>\<open>pbuf_memfind\<close> and \<^verbatim>\<open>pbuf_strstr\<close>).\<close>

lemma unat_of_nat_u16 [simp]: "n < 65536 \<Longrightarrow> unat (of_nat n :: u16) = n"
  by (rule unat_of_nat_small) simp

lemma memcmp_loop_eq:
  assumes "chain (pbufs s) q as" "unat start + i + k \<le> length (data s as)" "unat start + i + k < 65536"
  shows "\<exists>r. memcmp_loop q start p2 (of_nat i) k s = Some r \<and>
    (r = 0 \<longleftrightarrow> (\<forall>j<k. data s as ! (unat start + i + j) = mem s (p2 + of_nat (i + j))))"
  using assms(2,3)
proof (induction k arbitrary: i)
  case (Suc k)
  have u: "unat (start + of_nat i) = unat start + i" using Suc.prems(2) by (subst unat_plus_small) simp_all
  have g: "pbuf_get_at q (start + of_nat i) s = Some (data s as ! (unat start + i))"
    using pbuf_get_at_eq [OF assms(1), of "start + of_nat i"] Suc.prems(1) u by simp
  have c: "(ucast (of_nat i :: u16) :: u64) = of_nat i"
    using Suc.prems(2) by (simp only: ucast_u64_of_nat) simp
  obtain r where r: "memcmp_loop q start p2 (of_nat (Suc i)) k s = Some r"
    "r = 0 \<longleftrightarrow> (\<forall>j<k. data s as ! (unat start + Suc i + j) = mem s (p2 + of_nat (Suc i + j)))"
    using Suc.IH [of "Suc i"] Suc.prems by auto
  have nz: "(of_nat (min (unat (of_nat i :: u16) + 1) 0xFFFF) :: u16) \<noteq> 0"
    using Suc.prems(2) unat_of_nat_u16 [of "min (i + 1) 0xFFFF"] by (auto simp: min_def split: if_splits)
  have sp: "(\<forall>j<Suc k. data s as ! (unat start + i + j) = mem s (p2 + of_nat (i + j))) \<longleftrightarrow>
      data s as ! (unat start + i) = mem s (p2 + of_nat i) \<and> (\<forall>j<k. data s as ! (unat start + Suc i + j) = mem s (p2 + of_nat (Suc i + j)))"
    by (simp only: All_less_Suc2) (simp add: algebra_simps)
  show ?case
  proof (cases "data s as ! (unat start + i) = mem s (p2 + of_nat i)")
    case True
    then show ?thesis using g c r sp by (simp add: add.commute)
  next
    case False
    then show ?thesis using g c nz sp by simp
  qed
qed simp

text \<open>The bytes at \<open>p2\<close> occur at position \<open>i\<close> of the data.\<close>

definition found_at :: "u8 list \<Rightarrow> u8 list \<Rightarrow> nat \<Rightarrow> bool" where
  "found_at xs pat i \<longleftrightarrow> i + length pat \<le> length xs \<and> take (length pat) (drop i xs) = pat"

lemma found_at_nth: "i + n \<le> length xs \<Longrightarrow>
  found_at xs (mem_read m p2 n) i \<longleftrightarrow> (\<forall>j<n. xs ! (i + j) = m (p2 + of_nat j))"
  by (auto simp: found_at_def list_eq_iff_nth_eq)

lemma pbuf_memcmp_eq:
  assumes "packet (pbufs s) p as n" "as \<noteq> []" "unat off + unat k \<le> n"
  shows "\<exists>r. pbuf_memcmp p off p2 k s = Some r \<and> (r = 0 \<longleftrightarrow> found_at (data s as) (mem_read (mem s) p2 (unat k)) (unat off))"
proof -
  have nl: "length (data s as) = n" and ch: "chain (pbufs s) p as" using assms(1) payload_length by (auto simp: packet_def)
  have n: "n < 65536" using packet_less [OF assms(1)] .
  obtain b where b: "pbufs s p = Some b" "unat (p_tot_len b) = n" using assms(1,2) by (cases as) (auto simp: packet_Cons)
  show ?thesis
  proof (cases "unat off < n")
    case True
    obtain as1 a as2 c i where h: "as = as1 @ a # as2" "a \<noteq> 0" "pbufs s a = Some c" "pbuf_skip_const p off s = Some (a, i)"
      "unat off = length (data s as1) + unat i" "chain (pbufs s) (p_next c) as2"
      using skip_inside [OF ch, of off] True nl by auto
    have ch2: "chain (pbufs s) a (a # as2)" using h(2,3,6) by simp
    have dt: "data s as = data s as1 @ data s (a # as2)" unfolding h(1) by (simp add: payload_append)
    have le: "unat i + unat k \<le> length (data s (a # as2))" "unat i + unat k < 65536"
      using assms(3) nl h(5) n unfolding dt by simp_all
    obtain r where r: "memcmp_loop a i p2 0 (unat k) s = Some r"
      "r = 0 \<longleftrightarrow> (\<forall>j<unat k. data s (a # as2) ! (unat i + j) = mem s (p2 + of_nat j))"
      using memcmp_loop_eq [OF ch2, of i 0 "unat k" p2] le by auto
    have "data s (a # as2) ! (unat i + j) = data s as ! (unat off + j)" for j
      unfolding dt h(5) by (simp add: nth_append add.assoc)
    then show ?thesis
      using b assms(3) h(4) r found_at_nth [of "unat off" "unat k" "data s as" "mem s" p2] nl
      by (simp add: pbuf_memcmp_def)
  next
    case False
    then have "k = 0" using assms(3) by (simp add: unat_eq_0 [symmetric])
    then show ?thesis using False b assms(3) skip_outside [OF ch, of off] nl
      by (simp add: pbuf_memcmp_def found_at_def mem_read_def)
  qed
qed

text \<open>The first position from \<open>i\<close> on, and its \<^verbatim>\<open>u16_t\<close> code with \<open>0xFFFF\<close> for none.\<close>

definition first_from :: "u8 list \<Rightarrow> u8 list \<Rightarrow> nat \<Rightarrow> nat option" where
  "first_from xs pat i = find (found_at xs pat) [i..<Suc (length xs)]"

definition pos_code :: "nat option \<Rightarrow> u16" where
  "pos_code r = (case r of None \<Rightarrow> 0xFFFF | Some j \<Rightarrow> of_nat j)"

lemma first_from_step:
  "first_from xs pat i = (if length xs < i then None else if found_at xs pat i then Some i else first_from xs pat (Suc i))"
  unfolding first_from_def by (subst upt_rec) (simp del: upt_Suc)

lemma first_from_none: "length xs < i + length pat \<Longrightarrow> first_from xs pat i = None"
  by (auto simp: first_from_def find_None_iff found_at_def)

lemma memfind_loop_eq:
  assumes "packet (pbufs s) p as n" "as \<noteq> []" "unat mx + unat k = n" "n < 65535"
  shows "memfind_loop p mm k i mx s = Some (pos_code (first_from (data s as) (mem_read (mem s) mm (unat k)) (unat i)))"
proof (induction "65536 - unat i" arbitrary: i rule: less_induct)
  case less
  let ?F = "found_at (data s as) (mem_read (mem s) mm (unat k))"
  have nl: "length (data s as) = n" using assms(1) payload_length by (auto simp: packet_def)
  show ?case
  proof (cases "i \<le> mx")
    case False
    then show ?thesis using assms(3) nl
      by (subst memfind_loop.simps) (simp add: first_from_none pos_code_def word_le_nat_alt)
  next
    case True
    then have im: "unat i \<le> unat mx" by (simp add: word_le_nat_alt)
    then obtain r where r: "pbuf_memcmp p i mm k s = Some r" "r = 0 \<longleftrightarrow> ?F (unat i)"
      using pbuf_memcmp_eq [OF assms(1,2), of i k mm] assms(3) by auto
    have u: "unat (i + 1) = Suc (unat i)" using im assms(3,4) by (subst unat_plus_small) simp_all
    then have "65536 - unat (i + 1) < 65536 - unat i" using unat_u16_less [of i] by linarith
    note IH = less [OF this, unfolded u]
    show ?thesis
      using True r IH im assms(3) nl
      by (subst memfind_loop.simps, subst first_from_step) (auto simp: pos_code_def)
  qed
qed

lemma pbuf_memfind_eq:
  assumes "packet (pbufs s) p as n" "as \<noteq> []" "n < 65535"
  shows "pbuf_memfind p mm k st s = Some (pos_code (first_from (data s as) (mem_read (mem s) mm (unat k)) (unat st)))"
proof -
  obtain b where b: "pbufs s p = Some b" "unat (p_tot_len b) = n" using assms(1,2) by (cases as) (auto simp: packet_Cons)
  have nl: "length (data s as) = n" using assms(1) payload_length by (auto simp: packet_def)
  show ?thesis
  proof (cases "unat k + unat st \<le> n")
    case True
    then have "unat (p_tot_len b - k) + unat k = n" using b(2) by (simp add: unat_minus_small word_le_nat_alt)
    then show ?thesis using True b memfind_loop_eq [OF assms(1,2) _ assms(3)] by (simp add: pbuf_memfind_def)
  next
    case False
    then show ?thesis using b nl by (simp add: pbuf_memfind_def first_from_none pos_code_def)
  qed
qed

end
