(* ===== verification/BM_Pbuf_Props.thy ===== *)
theory BM_Pbuf_Props
  imports BM_Pbuf_Search
begin

text \<open>The properties of the packet buffers, with witnesses on the packet of \<open>demo_lwip\<close>.\<close>

definition demo_two :: "(sim, u64) lwip" where
  "demo_two = put_pbuf 0x3000 \<lparr>p_next = 0, p_payload = 0x3020, p_tot_len = 2, p_len = 2, p_type_internal = 0x80,
     p_flags = 0, p_ref = 1, p_if_idx = 0\<rparr> demo_lwip"

definition demo_pat :: "(sim, u64) lwip" where
  "demo_pat = demo_lwip\<lparr>mem := mem_write (mem demo_lwip) 0x5000 [30, 40]\<rparr>"

lemma demo_chain: "chain (pbufs demo_lwip) 0x1000 [0x1000, 0x2000]"
  using demo_packet by (simp add: packet_def)

lemma demo_spread: "spread (pbufs demo_lwip) [0x1000, 0x2000]"
  by (simp add: demo_lwip_eval sep_def)

lemma demo_off_block: "off_block (pbufs demo_lwip) [0x1000, 0x2000] 0x5000 4"
  by (simp add: demo_lwip_eval sep_def)

lemma demo_freeable: "\<forall>a \<in> set [0x1000, 0x2000]. freeable (pbufs demo_lwip) a"
  by (simp add: demo_lwip_eval freeable_def pbuf_consts LWIP_MEM_ALIGN_def)

text \<open>
  C31. Concatenation.  \<open>pbuf_cat\<close> on two packets with no pbuf in common, whose lengths add up to at most
  65535, returns and makes one packet of them: its chain, its totals and its data are those of the first
  followed by those of the second, and no payload byte moves.
\<close>

theorem pbuf_cat_concatenates:
  assumes "packet (pbufs s) h as n" "as \<noteq> []" "packet (pbufs s) t bs m" "bs \<noteq> []" "set as \<inter> set bs = {}" "n + m < 65536"
  shows "\<exists>s'. pbuf_cat h t s = Some s' \<and> packet (pbufs s') h (as @ bs) (n + m) \<and> mem s' = mem s
    \<and> payload (mem s') (pbufs s') (as @ bs) = payload (mem s) (pbufs s) as @ payload (mem s) (pbufs s) bs"
  by (rule pbuf_cat_eq [OF assms])

theorem pbuf_cat_concatenates_witness:
  "\<exists>s'. pbuf_cat 0x1000 0x3000 demo_two = Some s' \<and> packet (pbufs s') 0x1000 [0x1000, 0x2000, 0x3000] 7
    \<and> payload (mem s') (pbufs s') [0x1000, 0x2000, 0x3000] = [10, 20, 30, 40, 50, 0, 0]"
proof -
  have p: "packet (pbufs demo_two) 0x1000 [0x1000, 0x2000] 5" "packet (pbufs demo_two) 0x3000 [0x3000] 2"
    "payload (mem demo_two) (pbufs demo_two) [0x1000, 0x2000] = [10, 20, 30, 40, 50]"
    "payload (mem demo_two) (pbufs demo_two) [0x3000] = [0, 0]"
    by (simp_all add: demo_two_def packet_def demo_lwip_eval pbuf_bytes_def mem_read_def upt_rec)
  show ?thesis using pbuf_cat_concatenates [OF p(1) _ p(2)] unfolding p(3,4) by auto
qed

text \<open>
  C24. Reference counts.  \<open>pbuf_free\<close> on a chain returns, hands exactly the longest prefix of pbufs with
  reference count 1 back to the allocator, in order, lowers the count of the pbuf after it by one, and
  leaves every other pbuf and all payload bytes as they are; it returns the number deallocated.
\<close>

theorem pbuf_free_releases:
  assumes "chain (pbufs s) p as" "as \<noteq> []" "distinct as" "\<forall>a \<in> set as. freeable (pbufs s) a"
  shows "pbuf_free E p s =
    Some (of_nat (length (released (pbufs s) as)),
      s\<lparr>alloc := fold (e_free E) (released (pbufs s) as) (alloc s), pbufs := release (pbufs s) as\<rparr>)"
  by (rule pbuf_free_eq [OF assms])

theorem pbuf_free_releases_witness:
  "\<exists>s'. pbuf_free demo_env 0x1000 demo_lwip = Some (2, s') \<and> pbufs s' 0x1000 = None \<and> pbufs s' 0x2000 = None"
proof -
  have r: "released (pbufs demo_lwip) [0x1000, 0x2000] = [0x1000, 0x2000]"
    by (simp add: released_def sole_ref_def demo_lwip_eval)
  show ?thesis
    using pbuf_free_releases [OF demo_chain _ _ demo_freeable, of demo_env] unfolding r by (simp add: release_def r)
qed

text \<open>
  C32. Reading out.  \<open>pbuf_copy_partial\<close> to a buffer off the payloads returns the number of bytes there
  are, at most \<open>len\<close>, and the buffer then holds the data of the chain from \<open>offset\<close> on; nothing else
  changes.
\<close>

theorem pbuf_copy_partial_reads:
  assumes "chain (pbufs s) p as" "as \<noteq> []" "dataptr \<noteq> 0" "off_block (pbufs s) as dataptr (unat len)"
  shows "pbuf_copy_partial p dataptr len offset s =
    Some (of_nat (min (unat len) (length (payload (mem s) (pbufs s) as) - unat offset)),
      s\<lparr>mem := mem_write (mem s) dataptr (take (unat len) (drop (unat offset) (payload (mem s) (pbufs s) as)))\<rparr>)"
  by (rule pbuf_copy_partial_eq [OF assms])

theorem pbuf_copy_partial_reads_witness:
  "pbuf_copy_partial 0x1000 0x5000 4 2 demo_lwip = Some (3, demo_lwip\<lparr>mem := mem_write (mem demo_lwip) 0x5000 [30, 40, 50]\<rparr>)"
  using pbuf_copy_partial_reads [OF demo_chain, of "0x5000" 4 2] demo_off_block unfolding demo_payload by simp

text \<open>
  C25. Writing in.  \<open>pbuf_take_at\<close> of a block off the payloads, within the packet, succeeds and replaces
  exactly the bytes from \<open>offset\<close> on, across as many pbufs as needed.
\<close>

theorem pbuf_take_at_writes:
  assumes "packet (pbufs s) p as n" "spread (pbufs s) as" "dataptr \<noteq> 0" "unat dataptr + unat len < 2 ^ 64"
    and "off_block (pbufs s) as dataptr (unat len)" "unat offset < n" "unat offset + unat len \<le> n"
  shows "\<exists>s'. pbuf_take_at p dataptr len offset s = Some (ERR_OK, s') \<and> pbufs s' = pbufs s
    \<and> payload (mem s') (pbufs s') as =
      take (unat offset) (payload (mem s) (pbufs s) as) @ mem_read (mem s) dataptr (unat len)
        @ drop (unat offset + unat len) (payload (mem s) (pbufs s) as)"
  using pbuf_take_at_eq [OF assms] .

theorem pbuf_take_at_writes_witness:
  "\<exists>s'. pbuf_take_at 0x1000 0x5000 2 2 demo_lwip = Some (ERR_OK, s')
    \<and> payload (mem s') (pbufs s') [0x1000, 0x2000] = [10, 20, 0, 0, 50]"
proof -
  have o: "off_block (pbufs demo_lwip) [0x1000, 0x2000] 0x5000 (unat (2 :: u16))" by (simp add: demo_lwip_eval sep_def)
  have m: "mem_read (mem demo_lwip) 0x5000 2 = [0, 0]" by (simp add: demo_lwip_eval mem_read_def upt_rec)
  show ?thesis
    using pbuf_take_at_writes [OF demo_packet demo_spread _ _ o, of 2] unfolding demo_payload by (auto simp: m simp del: payload.simps)
qed

text \<open>
  Single bytes.  After \<open>pbuf_put_at\<close> of a byte within the packet, \<open>pbuf_get_at\<close> at the same offset
  gives that byte, and at every other offset what it gave before.
\<close>

lemma pbuf_put_get_at:
  assumes "chain (pbufs s) p as" "spread (pbufs s) as" "unat off < length (payload (mem s) (pbufs s) as)"
  shows "\<exists>s'. pbuf_put_at p off c s = Some s' \<and>
    (\<forall>i. pbuf_get_at p i s' = (if i = off then Some c else pbuf_get_at p i s))"
proof -
  obtain s' where h: "pbuf_put_at p off c s = Some s'" "pbufs s' = pbufs s" "data s' as = (data s as)[unat off := c]"
    using pbuf_put_at_eq [OF assms(1,2)] by blast
  have "chain (pbufs s') p as" using assms(1) h(2) by simp
  then show ?thesis
    using h assms(3) pbuf_get_at_eq [of s' p as] pbuf_get_at_eq [OF assms(1)]
    by (auto simp: nth_list_update word_unat_eq_iff [symmetric])
qed

text \<open>
  C35. Search.  \<open>pbuf_memfind\<close> returns the first position from the start offset at which the pattern
  occurs in the data of the packet, in however many pbufs it lies, and \<open>0xFFFF\<close> if there is none.
\<close>

theorem pbuf_memfind_first:
  assumes "packet (pbufs s) p as n" "as \<noteq> []" "n < 0xFFFF"
  shows "pbuf_memfind p pat len start s =
    Some (pos_code (first_from (payload (mem s) (pbufs s) as) (mem_read (mem s) pat (unat len)) (unat start)))"
  using pbuf_memfind_eq [of s p as n pat len start] assms by simp

theorem pbuf_memfind_first_witness: "pbuf_memfind 0x1000 0x5000 2 0 demo_pat = Some 2"
proof -
  have p: "packet (pbufs demo_pat) 0x1000 [0x1000, 0x2000] 5" using demo_packet by (simp add: demo_pat_def)
  have d: "payload (mem demo_pat) (pbufs demo_pat) [0x1000, 0x2000] = [10, 20, 30, 40, 50]"
    "mem_read (mem demo_pat) 0x5000 2 = [30, 40]"
    by (simp_all add: demo_pat_def demo_lwip_eval pbuf_bytes_def mem_read_def upt_rec)
  have "first_from [10, 20, 30, 40, 50] [30, 40] 0 = Some 2"
    by (simp add: first_from_def found_at_def upt_rec)
  then show ?thesis using pbuf_memfind_first [OF p, of "0x5000" 2 0] d by (simp add: pos_code_def)
qed

text \<open>
  Headers.  Hiding a header and revealing it again is the identity, for a pbuf whose data follow
  its struct.
\<close>

lemma pbuf_header_inverse:
  assumes "pbuf_remove_header p k s = Some (0, s')" "pbufs s p = Some b" "p_len b \<le> p_tot_len b"
    and "p_type_internal b AND PBUF_TYPE_FLAG_STRUCT_DATA_CONTIGUOUS \<noteq> 0" "p + SIZEOF_STRUCT_PBUF \<le> p_payload b"
  shows "pbuf_add_header p k s' = Some (0, s)"
  by (rule pbuf_add_remove_header [OF assms])

text \<open>
  C34. Truncation.  \<open>pbuf_realloc\<close> to a length within the packet keeps a prefix of its pbufs and
  exactly the first bytes of its data, and the result is a packet of the new length.
\<close>

theorem pbuf_realloc_truncates:
  assumes "packet (pbufs s) p as n" "as \<noteq> []" "unat len \<le> n" "\<forall>a \<in> set as. freeable (pbufs s) a"
  shows "\<exists>s' bs. pbuf_realloc E p len s = Some s' \<and> prefix bs as \<and> packet (pbufs s') p bs (unat len)
    \<and> payload (mem s') (pbufs s') bs = take (unat len) (payload (mem s) (pbufs s) as)"
  using pbuf_realloc_eq [OF assms] by blast

theorem pbuf_realloc_truncates_witness:
  "\<exists>s' bs. pbuf_realloc demo_env 0x1000 2 demo_lwip = Some s' \<and> packet (pbufs s') 0x1000 bs 2
    \<and> payload (mem s') (pbufs s') bs = [10, 20]"
  using pbuf_realloc_truncates [OF demo_packet _ _ demo_freeable, of 2 demo_env] unfolding demo_payload by auto



text \<open>
  C39. Allocation.  When the C library's \<open>malloc\<close> gives an aligned block of the size asked for,
  \<open>pbuf_alloc\<close> of a PBUF_RAM returns a packet of one pbuf of the length asked for whose payload lies in
  the block, behind the struct and at least the header space of the layer.
\<close>

theorem pbuf_alloc_ram_block:
  assumes "e_malloc E (of_nat (ram_size (layer_offset l) plen)) (alloc s) = (p, A)" "p \<noteq> 0" "LWIP_MEM_ALIGN p = p"
    and "unat p + ram_size (layer_offset l) plen + 3 < 2 ^ 64"
  shows "\<exists>s' b. pbuf_alloc E l plen PBUF_RAM s = Some (p, s') \<and> pbufs s' = (pbufs s)(p \<mapsto> b) \<and> packet (pbufs s') p [p] (unat plen)
    \<and> unat p + 24 + unat (layer_offset l) \<le> unat (p_payload b)
    \<and> unat (p_payload b) + unat plen \<le> unat p + ram_size (layer_offset l) plen"
  using pbuf_alloc_ram_eq [OF assms] by blast

theorem pbuf_alloc_ram_block_witness:
  "\<exists>s' b. pbuf_alloc demo_env PBUF_TRANSPORT 100 PBUF_RAM demo_lwip = Some (0x10000, s') \<and> pbufs s' 0x10000 = Some b
    \<and> packet (pbufs s') 0x10000 [0x10000] 100 \<and> unat (p_payload b) + 100 \<le> 0x10000 + 24 + 56 + 100"
proof -
  have r: "ram_size (layer_offset PBUF_TRANSPORT) 100 = 24 + 56 + 100"
    by (simp add: ram_size_def LWIP_MEM_ALIGN_SIZE_def)
  have e: "e_malloc demo_env (of_nat (ram_size (layer_offset PBUF_TRANSPORT) 100)) (alloc demo_lwip) = (0x10000, 0x100C0)"
    unfolding r by (simp add: demo_lwip_eval)
  show ?thesis using pbuf_alloc_ram_block [OF e] unfolding r by (auto simp: LWIP_MEM_ALIGN_def)
qed

end
