(* ===== verification/BM_Timeouts.thy ===== *)
theory BM_Timeouts
  imports BM_Pbuf "HOL-Library.Multiset"
begin

text \<open>
  The timers of lwIP, \<^verbatim>\<open>core/timeouts.c\<close>, and the millisecond clock they run on, \<^verbatim>\<open>sys_now\<close> of
  \<^verbatim>\<open>net_glue.c\<close>.  The linked list \<^verbatim>\<open>next_timeout\<close> is a list of its structs, each with its address.
  The handlers of the protocols and the TCP lists are an environment.  Times are 32-bit words that
  wrap; the lemmas read them relative to a current time, within a window of \<open>2 ^ 30\<close> ms to each side.
\<close>

section \<open>The clock\<close>

definition sys_now :: "'k kernel \<Rightarrow> ('k, 'z) machine_scheme \<Rightarrow> u32 \<times> ('k, 'z) machine_scheme" where
  "sys_now K s = (let (ns, s1) = b_system K TIMECOUNTER 0 0 s in (ucast (ns div 1000000), s1))"

definition TIME_LESS_THAN :: "u32 \<Rightarrow> u32 \<Rightarrow> bool" where
  "TIME_LESS_THAN t compare_to \<longleftrightarrow> t - compare_to > 0x7FFFFFFF"

section \<open>The list of timeouts\<close>

text \<open>The protocol timers of this configuration, in the order of the table.\<close>

datatype protocol_tmr = tcp_tmr | ip_reass_tmr | etharp_tmr | dhcp_coarse_tmr | dhcp_fine_tmr

definition lwip_cyclic_timers :: "(u32 \<times> protocol_tmr) list" where
  "lwip_cyclic_timers = [(250, tcp_tmr), (1000, ip_reass_tmr), (1000, etharp_tmr),
     (60000, dhcp_coarse_tmr), (500, dhcp_fine_tmr)]"

text \<open>A function pointer: one of the two handlers of this file, null, or any other function.\<close>

datatype handler = Tcpip_tcp_timer | Lwip_cyclic_timer | Null_handler | Handler addr

text \<open>The argument of a handler: a pointer to an element of the table, or any other pointer.\<close>

datatype timer_arg = Cyclic nat | Arg addr

record timeo =
  t_addr :: addr
  t_time :: u32
  t_h :: handler
  t_arg :: timer_arg

record ('k, 'm) timers = "('k, 'm) lwip" +
  next_timeout :: "timeo list"
  current_timeout_due_time :: u32
  tcpip_tcp_timer_active :: bool

record ('m, 's) timer_env =
  te_pbuf :: "('m, 's) pbuf_env"
  te_tmr :: "protocol_tmr \<Rightarrow> 's \<Rightarrow> 's option"
  te_call :: "addr \<Rightarrow> timer_arg \<Rightarrow> 's \<Rightarrow> 's option"
  te_tcp_pcbs :: "'s \<Rightarrow> bool"

text \<open>The search of \<^verbatim>\<open>sys_timeout_abs\<close> for the place of a new timeout.\<close>

fun insert_after :: "timeo \<Rightarrow> timeo list \<Rightarrow> timeo list" where
  "insert_after n [] = []"
| "insert_after n [t] = [t, n]"
| "insert_after n (t # t' # ts) =
     (if TIME_LESS_THAN (t_time n) (t_time t') then t # n # t' # ts
      else t # insert_after n (t' # ts))"

definition insert_timeo :: "timeo \<Rightarrow> timeo list \<Rightarrow> timeo list" where
  "insert_timeo n ts =
     (case ts of [] \<Rightarrow> [n]
      | t # _ \<Rightarrow> if TIME_LESS_THAN (t_time n) (t_time t) then n # ts else insert_after n ts)"

definition SIZEOF_SYS_TIMEO :: u64 where "SIZEOF_SYS_TIMEO = 32"

definition sys_timeout_abs :: "('m, ('k, 'm, 'z) timers_scheme) timer_env \<Rightarrow> u32 \<Rightarrow> handler \<Rightarrow> timer_arg \<Rightarrow> ('k, 'm, 'z) timers_scheme \<Rightarrow> ('k, 'm, 'z) timers_scheme option" where
  "sys_timeout_abs E abs_time h a s = do {
     (p, s1) \<leftarrow> mem_malloc (te_pbuf E) (LWIP_MEM_ALIGN_SIZE SIZEOF_SYS_TIMEO) s;
     if p = 0 then None
     else Some (s1\<lparr>next_timeout :=
       insert_timeo \<lparr>t_addr = p, t_time = abs_time, t_h = h, t_arg = a\<rparr> (next_timeout s1)\<rparr>)}"

definition sys_timeout :: "'k kernel \<Rightarrow> ('m, ('k, 'm, 'z) timers_scheme) timer_env \<Rightarrow> u32 \<Rightarrow> handler \<Rightarrow> timer_arg \<Rightarrow> ('k, 'm, 'z) timers_scheme \<Rightarrow> ('k, 'm, 'z) timers_scheme option" where
  "sys_timeout K E msecs h a s =
     (if msecs > 0xFFFFFFFF div 4 then None
      else let (now, s1) = sys_now K s in sys_timeout_abs E (now + msecs) h a s1)"

text \<open>The unlinking loop of \<^verbatim>\<open>sys_untimeout\<close>: the removed struct, if any, and the list without it.\<close>

fun unlink_timeo :: "handler \<Rightarrow> timer_arg \<Rightarrow> timeo list \<Rightarrow> addr option \<times> timeo list" where
  "unlink_timeo h a [] = (None, [])"
| "unlink_timeo h a (t # ts) =
     (if t_h t = h \<and> t_arg t = a then (Some (t_addr t), ts)
      else let (r, ts') = unlink_timeo h a ts in (r, t # ts'))"

definition sys_untimeout :: "('m, ('k, 'm, 'z) timers_scheme) timer_env \<Rightarrow> handler \<Rightarrow> timer_arg \<Rightarrow> ('k, 'm, 'z) timers_scheme \<Rightarrow> ('k, 'm, 'z) timers_scheme option" where
  "sys_untimeout E h a s =
     (case unlink_timeo h a (next_timeout s) of
        (None, _) \<Rightarrow> Some s
      | (Some p, ts) \<Rightarrow> mem_free (te_pbuf E) p (s\<lparr>next_timeout := ts\<rparr>))"

section \<open>The handlers of the file\<close>

definition tcpip_tcp_timer :: "'k kernel \<Rightarrow> ('m, ('k, 'm, 'z) timers_scheme) timer_env \<Rightarrow> ('k, 'm, 'z) timers_scheme \<Rightarrow> ('k, 'm, 'z) timers_scheme option" where
  "tcpip_tcp_timer K E s = do {
     s1 \<leftarrow> te_tmr E tcp_tmr s;
     if te_tcp_pcbs E s1 then sys_timeout K E 250 Tcpip_tcp_timer (Arg 0) s1
     else Some (s1\<lparr>tcpip_tcp_timer_active := False\<rparr>)}"

definition tcp_timer_needed :: "'k kernel \<Rightarrow> ('m, ('k, 'm, 'z) timers_scheme) timer_env \<Rightarrow> ('k, 'm, 'z) timers_scheme \<Rightarrow> ('k, 'm, 'z) timers_scheme option" where
  "tcp_timer_needed K E s =
     (if \<not> tcpip_tcp_timer_active s \<and> te_tcp_pcbs E s
      then sys_timeout K E 250 Tcpip_tcp_timer (Arg 0) (s\<lparr>tcpip_tcp_timer_active := True\<rparr>)
      else Some s)"

text \<open>A pointer that is not to an element of the table has no interval and no handler: None.\<close>

definition lwip_cyclic_timer :: "'k kernel \<Rightarrow> ('m, ('k, 'm, 'z) timers_scheme) timer_env \<Rightarrow> timer_arg \<Rightarrow> ('k, 'm, 'z) timers_scheme \<Rightarrow> ('k, 'm, 'z) timers_scheme option" where
  "lwip_cyclic_timer K E a s =
     (case a of Arg _ \<Rightarrow> None
      | Cyclic i \<Rightarrow>
          if i \<ge> length lwip_cyclic_timers then None
          else do {
            s1 \<leftarrow> te_tmr E (snd (lwip_cyclic_timers ! i)) s;
            let (now, s2) = sys_now K s1;
            let next_timeout_time = current_timeout_due_time s2 + fst (lwip_cyclic_timers ! i);
            if TIME_LESS_THAN next_timeout_time now
            then sys_timeout_abs E (now + fst (lwip_cyclic_timers ! i)) Lwip_cyclic_timer a s2
            else sys_timeout_abs E next_timeout_time Lwip_cyclic_timer a s2})"

fun timeouts_init_loop :: "'k kernel \<Rightarrow> ('m, ('k, 'm, 'z) timers_scheme) timer_env \<Rightarrow> nat list \<Rightarrow> ('k, 'm, 'z) timers_scheme \<Rightarrow> ('k, 'm, 'z) timers_scheme option" where
  "timeouts_init_loop K E [] s = Some s"
| "timeouts_init_loop K E (i # is) s = do {
     s1 \<leftarrow> sys_timeout K E (fst (lwip_cyclic_timers ! i)) Lwip_cyclic_timer (Cyclic i) s;
     timeouts_init_loop K E is s1}"

definition sys_timeouts_init :: "'k kernel \<Rightarrow> ('m, ('k, 'm, 'z) timers_scheme) timer_env \<Rightarrow> ('k, 'm, 'z) timers_scheme \<Rightarrow> ('k, 'm, 'z) timers_scheme option" where
  "sys_timeouts_init K E s = timeouts_init_loop K E [1..<length lwip_cyclic_timers] s"

section \<open>Running the timers\<close>

definition call_handler :: "'k kernel \<Rightarrow> ('m, ('k, 'm, 'z) timers_scheme) timer_env \<Rightarrow> handler \<Rightarrow> timer_arg \<Rightarrow> ('k, 'm, 'z) timers_scheme \<Rightarrow> ('k, 'm, 'z) timers_scheme option" where
  "call_handler K E h a s =
     (case h of Null_handler \<Rightarrow> Some s
      | Tcpip_tcp_timer \<Rightarrow> tcpip_tcp_timer K E s
      | Lwip_cyclic_timer \<Rightarrow> lwip_cyclic_timer K E a s
      | Handler f \<Rightarrow> te_call E f a s)"

partial_function (option) check_loop :: "'k kernel \<Rightarrow> ('m, ('k, 'm, 'z) timers_scheme) timer_env \<Rightarrow> u32 \<Rightarrow> ('k, 'm, 'z) timers_scheme \<Rightarrow> ('k, 'm, 'z) timers_scheme option" where
  "check_loop K E now s =
     (case next_timeout s of
        [] \<Rightarrow> Some s
      | t # ts \<Rightarrow>
          if TIME_LESS_THAN now (t_time t) then Some s
          else do {
            s1 \<leftarrow> mem_free (te_pbuf E) (t_addr t)
                    (s\<lparr>next_timeout := ts, current_timeout_due_time := t_time t\<rparr>);
            s2 \<leftarrow> call_handler K E (t_h t) (t_arg t) s1;
            check_loop K E now s2})"

definition sys_check_timeouts :: "'k kernel \<Rightarrow> ('m, ('k, 'm, 'z) timers_scheme) timer_env \<Rightarrow> ('k, 'm, 'z) timers_scheme \<Rightarrow> ('k, 'm, 'z) timers_scheme option" where
  "sys_check_timeouts K E s = (let (now, s1) = sys_now K s in check_loop K E now s1)"

definition sys_restart_timeouts :: "'k kernel \<Rightarrow> ('k, 'm, 'z) timers_scheme \<Rightarrow> ('k, 'm, 'z) timers_scheme" where
  "sys_restart_timeouts K s =
     (case next_timeout s of [] \<Rightarrow> s
      | t0 # _ \<Rightarrow>
          let (now, s1) = sys_now K s
          in s1\<lparr>next_timeout := map (\<lambda>t. t\<lparr>t_time := (t_time t - t_time t0) + now\<rparr>) (next_timeout s1)\<rparr>)"

definition sys_timeouts_sleeptime :: "'k kernel \<Rightarrow> ('k, 'm, 'z) timers_scheme \<Rightarrow> (u32 \<times> ('k, 'm, 'z) timers_scheme) option" where
  "sys_timeouts_sleeptime K s =
     (case next_timeout s of [] \<Rightarrow> Some (0xFFFFFFFF, s)
      | t # _ \<Rightarrow>
          let (now, s1) = sys_now K s
          in if TIME_LESS_THAN (t_time t) now then Some (0, s1)
             else let ret = t_time t - now
                  in if ret > 0x7FFFFFFF then None else Some (ret, s1))"

section \<open>Times near the present\<close>

text \<open>A time relative to the present, and the window in which the wrapped comparison is exact.\<close>

definition rel_time :: "u32 \<Rightarrow> u32 \<Rightarrow> int" where
  "rel_time now t = sint (t - now)"

definition near_time :: "u32 \<Rightarrow> u32 \<Rightarrow> bool" where
  "near_time now t \<longleftrightarrow> - (2 ^ 30) < rel_time now t \<and> rel_time now t \<le> 2 ^ 30"

lemma sint_u32_add: "- (2 ^ 31) \<le> sint a + sint b \<Longrightarrow> sint a + sint b < 2 ^ 31 \<Longrightarrow> sint (a + b :: u32) = sint a + sint b"
  using signed_take_bit_int_eq_self [of 31 "sint a + sint b"] by (simp add: sint_word_ariths(1))

lemma sint_u32_diff: "- (2 ^ 31) \<le> sint a - sint b \<Longrightarrow> sint a - sint b < 2 ^ 31 \<Longrightarrow> sint (a - b :: u32) = sint a - sint b"
  using signed_take_bit_int_eq_self [of 31 "sint a - sint b"] by (simp add: sint_word_ariths(2))

lemma sint_u32: "sint (x :: u32) = (if unat x < 2 ^ 31 then int (unat x) else int (unat x) - 2 ^ 32)"
proof -
  have lt: "uint x < 2 ^ 32" using uint_bounded [of x] by simp
  have "uint x div 2 ^ 31 = (if uint x < 2 ^ 31 then 0 else 1)"
  proof (cases "uint x < 2 ^ 31")
    case False
    then show ?thesis using lt int_div_pos_eq [of "uint x" "2 ^ 31" 1 "uint x - 2 ^ 31"] by simp
  qed (simp add: div_pos_pos_trivial)
  then have "bit (uint x) 31 \<longleftrightarrow> \<not> uint x < 2 ^ 31" by (simp add: bit_iff_odd)
  moreover have "sint x = take_bit 32 (uint x) - 2 ^ 32 * of_bool (bit (uint x) 31)"
    using signed_take_bit_eq_take_bit_minus [of 31 "uint x"] by (simp add: sint_uint)
  moreover have "take_bit 32 (uint x) = uint x" using lt by (simp add: take_bit_int_eq_self)
  moreover have "unat x < 2 ^ 31 \<longleftrightarrow> uint x < 2 ^ 31"
    using of_nat_less_iff [where 'a = int, of "unat x" "2 ^ 31"] by simp
  ultimately show ?thesis by simp
qed

lemma time_less_sint: "TIME_LESS_THAN t u \<longleftrightarrow> sint (t - u) < 0"
proof -
  have "unat (t - u) < 2 ^ 32" using unat_less_len [of "t - u"] by simp
  then show ?thesis by (auto simp: TIME_LESS_THAN_def sint_u32 word_less_nat_alt simp del: of_nat_unat)
qed

lemma time_less_iff: "near_time now t \<Longrightarrow> near_time now u \<Longrightarrow> TIME_LESS_THAN t u \<longleftrightarrow> rel_time now t < rel_time now u"
  using sint_u32_diff [of "t - now" "u - now"]
  by (simp add: time_less_sint near_time_def rel_time_def)

lemma rel_time_0 [simp]: "rel_time now now = 0"
  by (simp add: rel_time_def)

lemma near_time_now [simp]: "near_time now now"
  by (simp add: near_time_def)

lemma rel_time_add:
  assumes "near_time now t" "d \<le> 0x3FFFFFFF"
  shows "rel_time now (t + d) = rel_time now t + int (unat d)"
proof -
  have "unat d \<le> 0x3FFFFFFF" using assms(2) by (simp add: word_le_nat_alt)
  then have "sint d = int (unat d)" by (simp add: sint_u32 del: of_nat_unat)
  then show ?thesis
    using assms sint_u32_add [of "t - now" d] \<open>unat d \<le> 0x3FFFFFFF\<close>
    by (simp add: near_time_def rel_time_def algebra_simps del: of_nat_unat)
qed

section \<open>The list stays sorted\<close>

definition timers_ok :: "u32 \<Rightarrow> timeo list \<Rightarrow> bool" where
  "timers_ok now ts \<longleftrightarrow> sorted (map (\<lambda>t. rel_time now (t_time t)) ts) \<and> (\<forall>t\<in>set ts. near_time now (t_time t))"

text \<open>A new timeout goes before the first later one, after those due at the same time.\<close>

lemma insert_after_eq:
  "insert_after n (t # ts) =
     t # takeWhile (\<lambda>u. \<not> TIME_LESS_THAN (t_time n) (t_time u)) ts @
     n # dropWhile (\<lambda>u. \<not> TIME_LESS_THAN (t_time n) (t_time u)) ts"
  by (induction ts arbitrary: t) auto

lemma insert_timeo_eq:
  "insert_timeo n ts = takeWhile (\<lambda>u. \<not> TIME_LESS_THAN (t_time n) (t_time u)) ts @
     n # dropWhile (\<lambda>u. \<not> TIME_LESS_THAN (t_time n) (t_time u)) ts"
  by (cases ts) (auto simp: insert_timeo_def insert_after_eq)

lemma mset_insert_timeo [simp]: "mset (insert_timeo n ts) = add_mset n (mset ts)"
  by (simp add: insert_timeo_eq) (metis mset_append takeWhile_dropWhile_id)

lemma set_insert_timeo [simp]: "set (insert_timeo n ts) = insert n (set ts)"
  by (metis mset_insert_timeo set_mset_add_mset_insert set_mset_mset)

lemma timers_ok_Cons: "timers_ok now (t # ts) \<longleftrightarrow> near_time now (t_time t) \<and> timers_ok now ts \<and>
    (\<forall>u\<in>set ts. rel_time now (t_time t) \<le> rel_time now (t_time u))"
  by (auto simp: timers_ok_def)

lemma timers_ok_insert:
  assumes "timers_ok now ts" "near_time now (t_time n)"
  shows "timers_ok now (insert_timeo n ts)"
  using assms
proof (induction ts)
  case Nil
  then show ?case by (simp add: insert_timeo_eq timers_ok_def)
next
  case (Cons t ts)
  then have ok: "near_time now (t_time t)" "timers_ok now ts" "timers_ok now (insert_timeo n ts)"
    and le: "\<forall>u\<in>set ts. rel_time now (t_time t) \<le> rel_time now (t_time u)"
    by (auto simp: timers_ok_Cons)
  have less: "TIME_LESS_THAN (t_time n) (t_time t) \<longleftrightarrow> rel_time now (t_time n) < rel_time now (t_time t)"
    by (rule time_less_iff [OF Cons.prems(2) ok(1)])
  show ?case
  proof (cases "TIME_LESS_THAN (t_time n) (t_time t)")
    case True
    then have "insert_timeo n (t # ts) = n # t # ts" by (simp add: insert_timeo_def)
    then show ?thesis using ok le less True Cons.prems(2) by (force simp: timers_ok_Cons)
  next
    case False
    then have "insert_timeo n (t # ts) = t # insert_timeo n ts" by (simp add: insert_timeo_eq)
    then show ?thesis using ok le less False by (auto simp: timers_ok_Cons)
  qed
qed

section \<open>The timers that lwIP schedules\<close>

text \<open>What the timers rely on: the protocol handlers return and leave the timers alone, memory for a
  timeout is there, and the clock stays in the window.\<close>

definition clock_ms :: "'k kernel \<Rightarrow> 'k \<Rightarrow> u32" where
  "clock_ms K k = ucast (fst (k_system K TIMECOUNTER 0 0 k) div 1000000)"

definition tmr_ok :: "('m, ('k, 'm, 'z) timers_scheme) timer_env \<Rightarrow> bool" where
  "tmr_ok E \<longleftrightarrow> (\<forall>p s. \<exists>s'. te_tmr E p s = Some s' \<and> next_timeout s' = next_timeout s \<and>
     current_timeout_due_time s' = current_timeout_due_time s)"

definition block_ok :: "addr \<Rightarrow> bool" where
  "block_ok p \<longleftrightarrow> p \<noteq> 0 \<and> LWIP_MEM_ALIGN p = p"

definition malloc_ok :: "('m, 's) pbuf_env \<Rightarrow> bool" where
  "malloc_ok E \<longleftrightarrow> (\<forall>n a. block_ok (fst (e_malloc E n a)))"

definition clock_within :: "'k kernel \<Rightarrow> u32 \<Rightarrow> bool" where
  "clock_within K now \<longleftrightarrow> (\<forall>k. 0 \<le> rel_time now (clock_ms K k) \<and> rel_time now (clock_ms K k) \<le> 2 ^ 29)"

definition lwip_entry :: "timeo \<Rightarrow> bool" where
  "lwip_entry t \<longleftrightarrow> block_ok (t_addr t) \<and>
     (t_h t = Tcpip_tcp_timer \<or>
      t_h t = Lwip_cyclic_timer \<and> (\<exists>i < length lwip_cyclic_timers. t_arg t = Cyclic i))"

text \<open>The cyclic timers in a list, and how far a list is from having none expired.\<close>

definition cyclic_args :: "timeo list \<Rightarrow> timer_arg multiset" where
  "cyclic_args ts = image_mset t_arg (filter_mset (\<lambda>t. t_h t = Lwip_cyclic_timer) (mset ts))"

definition overdue :: "u32 \<Rightarrow> timeo \<Rightarrow> nat" where
  "overdue now t = (if rel_time now (t_time t) < 0 then 2 else if rel_time now (t_time t) = 0 then 1 else 0)"

lemma sys_now_eq: "sys_now K s = (clock_ms K (kern s), s\<lparr>kern := snd (k_system K TIMECOUNTER 0 0 (kern s))\<rparr>)"
  by (simp add: sys_now_def b_system_def clock_ms_def split: prod.splits)

lemma mem_free_ok:
  "block_ok p \<Longrightarrow> mem_free E p s = Some (s\<lparr>alloc := e_free E p (alloc s), pbufs := (pbufs s)(p := None)\<rparr>)"
  by (simp add: mem_free_def block_ok_def)

lemma sys_timeout_abs_ok:
  assumes "malloc_ok (te_pbuf E)"
  shows "\<exists>n s'. sys_timeout_abs E t h a s = Some s' \<and> next_timeout s' = insert_timeo n (next_timeout s) \<and>
    block_ok (t_addr n) \<and> t_time n = t \<and> t_h n = h \<and> t_arg n = a"
proof -
  obtain p m where p: "e_malloc (te_pbuf E) (LWIP_MEM_ALIGN_SIZE SIZEOF_SYS_TIMEO) (alloc s) = (p, m)" by fastforce
  then have "block_ok p" using assms by (metis malloc_ok_def fst_conv)
  then have "sys_timeout_abs E t h a s = Some (s\<lparr>alloc := m, next_timeout :=
      insert_timeo \<lparr>t_addr = p, t_time = t, t_h = h, t_arg = a\<rparr> (next_timeout s)\<rparr>)"
    using p by (simp add: sys_timeout_abs_def mem_malloc_def block_ok_def)
  then show ?thesis using \<open>block_ok p\<close>
    by (intro exI [of _ "\<lparr>t_addr = p, t_time = t, t_h = h, t_arg = a\<rparr>"] exI conjI) auto
qed

lemma interval_bounds:
  assumes "i < length lwip_cyclic_timers"
  shows "fst (lwip_cyclic_timers ! i) \<le> 0x3FFFFFFF" "0 < unat (fst (lwip_cyclic_timers ! i))"
    "unat (fst (lwip_cyclic_timers ! i)) \<le> 60000"
proof -
  have "fst (lwip_cyclic_timers ! i) \<in> fst ` set lwip_cyclic_timers" using assms by simp
  then have "fst (lwip_cyclic_timers ! i) \<in> {250, 1000, 60000, 500}" by (simp add: lwip_cyclic_timers_def)
  then show "fst (lwip_cyclic_timers ! i) \<le> 0x3FFFFFFF" "0 < unat (fst (lwip_cyclic_timers ! i))"
    "unat (fst (lwip_cyclic_timers ! i)) \<le> 60000"
    by auto
qed

lemma clock_near: "clock_within K now \<Longrightarrow> near_time now (clock_ms K k)"
  unfolding clock_within_def near_time_def by (drule spec [of _ k]) simp

text \<open>The clock plus an interval is in the window and in the future.\<close>

lemma restart_from_clock:
  assumes "clock_within K now" "d \<le> 0x3FFFFFFF" "0 < unat d" "unat d \<le> 60000"
  shows "near_time now (clock_ms K k + d)" "0 < rel_time now (clock_ms K k + d)"
proof -
  have "rel_time now (clock_ms K k + d) = rel_time now (clock_ms K k) + int (unat d)"
    by (rule rel_time_add [OF clock_near [OF assms(1)] assms(2)])
  moreover have "0 \<le> rel_time now (clock_ms K k)" "rel_time now (clock_ms K k) \<le> 2 ^ 29"
    using assms(1) by (auto simp: clock_within_def)
  ultimately show "near_time now (clock_ms K k + d)" "0 < rel_time now (clock_ms K k + d)"
    using assms(3,4) by (auto simp: near_time_def simp del: of_nat_unat)
qed

lemma cyclic_step:
  assumes E: "tmr_ok E" "malloc_ok (te_pbuf E)" and K: "clock_within K now"
    and i: "i < length lwip_cyclic_timers"
    and due: "near_time now (current_timeout_due_time s)" "rel_time now (current_timeout_due_time s) \<le> 0"
  shows "\<exists>n s'. lwip_cyclic_timer K E (Cyclic i) s = Some s' \<and> next_timeout s' = insert_timeo n (next_timeout s) \<and>
    block_ok (t_addr n) \<and> t_h n = Lwip_cyclic_timer \<and> t_arg n = Cyclic i \<and> near_time now (t_time n) \<and>
    (if rel_time now (current_timeout_due_time s) < 0 then 0 \<le> rel_time now (t_time n) else 0 < rel_time now (t_time n))"
proof -
  let ?d = "fst (lwip_cyclic_timers ! i)" and ?due = "current_timeout_due_time s"
  note d = interval_bounds [OF i]
  obtain s1 where s1: "te_tmr E (snd (lwip_cyclic_timers ! i)) s = Some s1"
      "next_timeout s1 = next_timeout s" "current_timeout_due_time s1 = ?due"
    using E(1) by (metis tmr_ok_def)
  let ?now = "clock_ms K (kern s1)" and ?s2 = "s1\<lparr>kern := snd (k_system K TIMECOUNTER 0 0 (kern s1))\<rparr>"
  let ?t = "if TIME_LESS_THAN (?due + ?d) ?now then ?now + ?d else ?due + ?d"
  have run: "lwip_cyclic_timer K E (Cyclic i) s = sys_timeout_abs E ?t Lwip_cyclic_timer (Cyclic i) ?s2"
    using i s1 by (auto simp: lwip_cyclic_timer_def sys_now_eq)
  have next_due: "rel_time now (?due + ?d) = rel_time now ?due + int (unat ?d)"
    by (rule rel_time_add [OF due(1) d(1)])
  then have near: "near_time now (?due + ?d)" using due d by (auto simp: near_time_def simp del: of_nat_unat)
  have "near_time now ?t \<and> (if rel_time now ?due < 0 then 0 \<le> rel_time now ?t else 0 < rel_time now ?t)"
  proof (cases "TIME_LESS_THAN (?due + ?d) ?now")
    case True
    then show ?thesis using restart_from_clock [OF K d, of "kern s1"] by auto
  next
    case False
    then have "rel_time now ?now \<le> rel_time now (?due + ?d)"
      using time_less_iff [OF near clock_near [OF K, of "kern s1"]] by simp
    moreover have "0 \<le> rel_time now ?now" using K by (simp add: clock_within_def)
    ultimately show ?thesis using False near next_due d(2) due(2) by (auto simp del: of_nat_unat)
  qed
  moreover obtain n s' where "sys_timeout_abs E ?t Lwip_cyclic_timer (Cyclic i) ?s2 = Some s'"
      "next_timeout s' = insert_timeo n (next_timeout ?s2)"
      "block_ok (t_addr n)" "t_time n = ?t" "t_h n = Lwip_cyclic_timer" "t_arg n = Cyclic i"
    using sys_timeout_abs_ok [OF E(2)] by blast
  ultimately show ?thesis using run s1 by (intro exI [of _ n] exI [of _ s']) auto
qed

lemma tcp_timer_step:
  assumes E: "tmr_ok E" "malloc_ok (te_pbuf E)" and K: "clock_within K now"
  shows "\<exists>s'. tcpip_tcp_timer K E s = Some s' \<and>
    (next_timeout s' = next_timeout s \<or>
     (\<exists>n. next_timeout s' = insert_timeo n (next_timeout s) \<and> block_ok (t_addr n) \<and>
        t_h n = Tcpip_tcp_timer \<and> near_time now (t_time n) \<and> 0 < rel_time now (t_time n)))"
proof -
  obtain s1 where s1: "te_tmr E tcp_tmr s = Some s1" "next_timeout s1 = next_timeout s"
    using E(1) by (metis tmr_ok_def)
  let ?s2 = "s1\<lparr>kern := snd (k_system K TIMECOUNTER 0 0 (kern s1))\<rparr>"
  obtain n s' where n: "sys_timeout_abs E (clock_ms K (kern s1) + 250) Tcpip_tcp_timer (Arg 0) ?s2 = Some s'"
      "next_timeout s' = insert_timeo n (next_timeout ?s2)"
      "block_ok (t_addr n)" "t_time n = clock_ms K (kern s1) + 250" "t_h n = Tcpip_tcp_timer"
    using sys_timeout_abs_ok [OF E(2)] by blast
  moreover have "near_time now (t_time n)" "0 < rel_time now (t_time n)"
    using restart_from_clock [OF K, of 250 "kern s1"] n(4) by auto
  ultimately show ?thesis using s1
    by (cases "te_tcp_pcbs E s1") (auto simp: tcpip_tcp_timer_def sys_timeout_def sys_now_eq)
qed

text \<open>
  One round: an expired timer of lwIP is replaced by a later one, or by none if it was the TCP timer.
\<close>

definition round_to :: "u32 \<Rightarrow> timeo \<Rightarrow> timeo list \<Rightarrow> timeo list \<Rightarrow> bool" where
  "round_to now t ts ts' \<longleftrightarrow> t_h t = Tcpip_tcp_timer \<and> ts' = ts \<or>
     (\<exists>n. ts' = insert_timeo n ts \<and> lwip_entry n \<and> t_h n = t_h t \<and>
        (t_h t = Lwip_cyclic_timer \<longrightarrow> t_arg n = t_arg t) \<and>
        near_time now (t_time n) \<and> overdue now n < overdue now t)"

lemma handler_round:
  assumes E: "tmr_ok E" "malloc_ok (te_pbuf E)" and K: "clock_within K now"
    and t: "lwip_entry t" "near_time now (t_time t)" "rel_time now (t_time t) \<le> 0"
    and due: "current_timeout_due_time s = t_time t"
  shows "\<exists>s'. call_handler K E (t_h t) (t_arg t) s = Some s' \<and> round_to now t (next_timeout s) (next_timeout s')"
proof (cases "t_h t = Lwip_cyclic_timer")
  case True
  then obtain i where i: "i < length lwip_cyclic_timers" "t_arg t = Cyclic i" using t(1) by (auto simp: lwip_entry_def)
  obtain n s' where n: "lwip_cyclic_timer K E (Cyclic i) s = Some s'" "next_timeout s' = insert_timeo n (next_timeout s)"
      "block_ok (t_addr n)" "t_h n = Lwip_cyclic_timer" "t_arg n = Cyclic i" "near_time now (t_time n)"
      "if rel_time now (t_time t) < 0 then 0 \<le> rel_time now (t_time n) else 0 < rel_time now (t_time n)"
    using cyclic_step [OF E K i(1), of s] t due by auto
  have "overdue now n < overdue now t" using n(7) t(3) by (auto simp: overdue_def split: if_splits)
  then have "round_to now t (next_timeout s) (next_timeout s')"
    using n i True by (auto simp: round_to_def lwip_entry_def)
  then show ?thesis using n(1) i True by (simp add: call_handler_def)
next
  case False
  then have h: "t_h t = Tcpip_tcp_timer" using t(1) by (simp add: lwip_entry_def)
  obtain s' where s': "tcpip_tcp_timer K E s = Some s'"
      "next_timeout s' = next_timeout s \<or> (\<exists>n. next_timeout s' = insert_timeo n (next_timeout s) \<and>
        block_ok (t_addr n) \<and> t_h n = Tcpip_tcp_timer \<and> near_time now (t_time n) \<and> 0 < rel_time now (t_time n))"
    using tcp_timer_step [OF E K, of s] by blast
  have "round_to now t (next_timeout s) (next_timeout s')"
    using s'(2)
  proof
    assume "next_timeout s' = next_timeout s"
    then show ?thesis using h by (simp add: round_to_def)
  next
    assume "\<exists>n. next_timeout s' = insert_timeo n (next_timeout s) \<and> block_ok (t_addr n) \<and>
        t_h n = Tcpip_tcp_timer \<and> near_time now (t_time n) \<and> 0 < rel_time now (t_time n)"
    then obtain n where "next_timeout s' = insert_timeo n (next_timeout s)" "lwip_entry n" "t_h n = t_h t"
        "near_time now (t_time n)" "overdue now n < overdue now t"
      using h t(3) by (auto simp: lwip_entry_def overdue_def)
    then show ?thesis using h unfolding round_to_def by auto
  qed
  then show ?thesis using s'(1) h by (simp add: call_handler_def)
qed

lemma round_keeps:
  assumes "round_to now t ts ts'" "timers_ok now ts" "\<forall>u\<in>set ts. lwip_entry u" "lwip_entry t"
    and "rel_time now (t_time t) \<le> 0"
  shows "timers_ok now ts'" "\<forall>u\<in>set ts'. lwip_entry u" "cyclic_args ts' = cyclic_args (t # ts)"
    "sum_mset (image_mset (overdue now) (mset ts')) < sum_mset (image_mset (overdue now) (mset (t # ts)))"
proof -
  have pos: "0 < overdue now t" using assms(5) by (simp add: overdue_def)
  show "timers_ok now ts'" using assms(1,2) timers_ok_insert by (auto simp: round_to_def)
  show "\<forall>u\<in>set ts'. lwip_entry u" using assms(1,3) by (auto simp: round_to_def)
  show "cyclic_args ts' = cyclic_args (t # ts)" using assms(1,4) by (auto simp: round_to_def cyclic_args_def)
  show "sum_mset (image_mset (overdue now) (mset ts')) < sum_mset (image_mset (overdue now) (mset (t # ts)))"
    using assms(1) pos by (auto simp: round_to_def)
qed

lemma check_loop_settles:
  assumes E: "tmr_ok E" "malloc_ok (te_pbuf E)" and K: "clock_within K now"
    and ts: "timers_ok now (next_timeout s)" "\<forall>t\<in>set (next_timeout s). lwip_entry t"
  shows "\<exists>s'. check_loop K E now s = Some s' \<and> timers_ok now (next_timeout s') \<and>
    (\<forall>t\<in>set (next_timeout s'). lwip_entry t \<and> 0 < rel_time now (t_time t)) \<and>
    cyclic_args (next_timeout s') = cyclic_args (next_timeout s)"
  using ts
proof (induction "sum_mset (image_mset (overdue now) (mset (next_timeout s)))" arbitrary: s rule: less_induct)
  case less
  show ?case
  proof (cases "next_timeout s")
    case Nil
    then show ?thesis using less.prems by (simp add: check_loop.simps [of K E now s])
  next
    case (Cons t ts)
    have t: "near_time now (t_time t)" "lwip_entry t" "block_ok (t_addr t)" "timers_ok now ts" "\<forall>u\<in>set ts. lwip_entry u"
      and le: "\<forall>u\<in>set ts. rel_time now (t_time t) \<le> rel_time now (t_time u)"
      using less.prems Cons by (auto simp: timers_ok_Cons lwip_entry_def)
    have tl: "TIME_LESS_THAN now (t_time t) \<longleftrightarrow> 0 < rel_time now (t_time t)"
      using time_less_iff [OF near_time_now t(1)] by simp
    show ?thesis
    proof (cases "0 < rel_time now (t_time t)")
      case True
      then show ?thesis using Cons tl le less.prems by (force simp: check_loop.simps [of K E now s])
    next
      case False
      let ?s0 = "s\<lparr>next_timeout := ts, current_timeout_due_time := t_time t\<rparr>"
      define s1 where "s1 = ?s0\<lparr>alloc := e_free (te_pbuf E) (t_addr t) (alloc s), pbufs := (pbufs s)(t_addr t := None)\<rparr>"
      have free: "mem_free (te_pbuf E) (t_addr t) ?s0 = Some s1"
        by (simp add: s1_def mem_free_ok [OF t(3)])
      have "current_timeout_due_time s1 = t_time t" "next_timeout s1 = ts" by (simp_all add: s1_def)
      then obtain s2 where s2: "call_handler K E (t_h t) (t_arg t) s1 = Some s2" "round_to now t ts (next_timeout s2)"
        using handler_round [OF E K t(2,1), of s1] False by auto
      note keeps = round_keeps [OF s2(2) t(4,5,2)]
      have "check_loop K E now s = check_loop K E now s2"
        using Cons False tl free s2(1) by (simp add: check_loop.simps [of K E now s])
      then show ?thesis using less.hyps [of s2] keeps False Cons by simp
    qed
  qed
qed

lemma sys_timeout_ok:
  assumes "malloc_ok (te_pbuf E)" "msecs \<le> 0x3FFFFFFF"
  shows "\<exists>n s'. sys_timeout K E msecs h a s = Some s' \<and> next_timeout s' = insert_timeo n (next_timeout s) \<and>
    block_ok (t_addr n) \<and> t_time n = clock_ms K (kern s) + msecs \<and> t_h n = h \<and> t_arg n = a"
proof -
  have "sys_timeout K E msecs h a s = sys_timeout_abs E (clock_ms K (kern s) + msecs) h a
      (s\<lparr>kern := snd (k_system K TIMECOUNTER 0 0 (kern s))\<rparr>)"
    using assms(2) by (simp add: sys_timeout_def sys_now_eq linorder_not_less [symmetric])
  then show ?thesis
    using sys_timeout_abs_ok [OF assms(1), of "clock_ms K (kern s) + msecs" h a
        "s\<lparr>kern := snd (k_system K TIMECOUNTER 0 0 (kern s))\<rparr>"] by simp
qed

lemma timeouts_init_loop_ok:
  assumes "malloc_ok (te_pbuf E)" "clock_within K now" "\<forall>i\<in>set is. i < length lwip_cyclic_timers"
    and "timers_ok now (next_timeout s)" "\<forall>t\<in>set (next_timeout s). lwip_entry t"
  shows "\<exists>s'. timeouts_init_loop K E is s = Some s' \<and> timers_ok now (next_timeout s') \<and>
    (\<forall>t\<in>set (next_timeout s'). lwip_entry t) \<and>
    cyclic_args (next_timeout s') = image_mset Cyclic (mset is) + cyclic_args (next_timeout s)"
  using assms(3-5)
proof (induction "is" arbitrary: s)
  case (Cons i "is")
  then have i: "i < length lwip_cyclic_timers" by simp
  note d = interval_bounds [OF i]
  obtain n s' where n: "sys_timeout K E (fst (lwip_cyclic_timers ! i)) Lwip_cyclic_timer (Cyclic i) s = Some s'"
      "next_timeout s' = insert_timeo n (next_timeout s)" "block_ok (t_addr n)"
      "t_time n = clock_ms K (kern s) + fst (lwip_cyclic_timers ! i)" "t_h n = Lwip_cyclic_timer" "t_arg n = Cyclic i"
    using sys_timeout_ok [OF assms(1) d(1)] by blast
  have "near_time now (t_time n)" using restart_from_clock(1) [OF assms(2) d] n(4) by simp
  then have "timers_ok now (next_timeout s')" using timers_ok_insert Cons.prems(2) n(2) by simp
  moreover have "\<forall>t\<in>set (next_timeout s'). lwip_entry t"
    using n i Cons.prems(3) by (auto simp: lwip_entry_def)
  moreover have "cyclic_args (next_timeout s') = add_mset (Cyclic i) (cyclic_args (next_timeout s))"
    using n by (simp add: cyclic_args_def)
  ultimately show ?case using Cons.IH [of s'] Cons.prems(1) n(1) by simp
qed simp

lemma unlink_insert:
  assumes "t_h n = h" "t_arg n = a" "\<forall>t\<in>set ts. \<not> (t_h t = h \<and> t_arg t = a)" "set xs \<subseteq> set ts"
  shows "unlink_timeo h a (xs @ n # ys) = (Some (t_addr n), xs @ ys)"
  using assms by (induction xs) auto

section \<open>Properties\<close>

text \<open>The instances for the witnesses: a clock of one millisecond per reading that stops at 1000.\<close>

definition demo_clock :: "nat kernel" where
  "demo_clock = \<lparr>k_input = (\<lambda>k. (0, k)), k_output = (\<lambda>_ k. k), k_net_tx = (\<lambda>_ _ k. k),
     k_net_rx = (\<lambda>_ k. ([], k)), k_nvs_read = (\<lambda>_ _ _ k. ([], 0, k)), k_nvs_write = (\<lambda>_ _ _ _ k. (0, k)),
     k_system = (\<lambda>_ _ _ k. (of_nat (1000000 * min k 1000), Suc k))\<rparr>"

definition demo_timer_env :: "(unit, (nat, unit) timers) timer_env" where
  "demo_timer_env = \<lparr>te_pbuf = \<lparr>e_malloc = (\<lambda>_ m. (0x1000, m)), e_free = (\<lambda>_ m. m), e_custom_free = (\<lambda>_ s. Some s)\<rparr>,
     te_tmr = (\<lambda>_ s. Some s), te_call = (\<lambda>_ _ s. Some s), te_tcp_pcbs = (\<lambda>_. False)\<rparr>"

definition demo_timers :: "timeo list \<Rightarrow> nat \<Rightarrow> (nat, unit) timers" where
  "demo_timers ts k = \<lparr>mem = (\<lambda>_. 0), kern = k, dir = [], dir_loaded = False, files = [], scratch = [],
     heap_cur = 0, heap_end = 0, alloc = (), pbufs = (\<lambda>_. None), next_timeout = ts,
     current_timeout_due_time = 0, tcpip_tcp_timer_active = False\<rparr>"

lemma demo_clock_ms: "clock_ms demo_clock k = of_nat (min k 1000)"
proof -
  define m where "m = min k 1000"
  have m: "m \<le> 1000" by (simp add: m_def)
  then have "unat (of_nat (1000000 * m) :: u64) = 1000000 * m" by (intro unat_of_nat_small) simp
  then have "unat ((of_nat (1000000 * m) :: u64) div 1000000) = m" by (simp only: unat_div_distrib) simp
  then have "(of_nat (1000000 * m) :: u64) div 1000000 = of_nat m" using m by (metis of_nat_unat ucast_id)
  moreover have "ucast (of_nat m :: u64) = (of_nat m :: u32)" by transfer simp
  ultimately show ?thesis by (simp only: clock_ms_def demo_clock_def kernel.simps fst_conv flip: m_def)
qed

lemma demo_clock_within: "clock_within demo_clock 0"
proof -
  have "rel_time 0 (clock_ms demo_clock k) = int (min k 1000)" for k
    by (simp add: rel_time_def demo_clock_ms sint_u32 unat_of_nat_small del: of_nat_min)
  then show ?thesis by (auto simp: clock_within_def intro: order_trans [OF min.cobounded2])
qed

lemma demo_timer_env_ok: "tmr_ok demo_timer_env" "malloc_ok (te_pbuf demo_timer_env)"
  by (simp_all add: tmr_ok_def malloc_ok_def demo_timer_env_def block_ok_def LWIP_MEM_ALIGN_def)




text \<open>The ARP timer, due 3 s before the present, across the wrap of the clock.\<close>

definition demo_arp_timer :: timeo where
  "demo_arp_timer = \<lparr>t_addr = 0x1000, t_time = - 3000, t_h = Lwip_cyclic_timer, t_arg = Cyclic 2\<rparr>"


text \<open>
  C40.  Cancelling a timeout undoes scheduling it: when no timeout with that handler and argument is in
  the list, \<^verbatim>\<open>sys_untimeout\<close> after \<^verbatim>\<open>sys_timeout\<close> leaves the list as it was, wherever the new timeout was put.
\<close>

theorem sys_untimeout_inverse:
  assumes "malloc_ok (te_pbuf E)" "msecs \<le> 0x3FFFFFFF"
    and "\<forall>t\<in>set (next_timeout s). \<not> (t_h t = h \<and> t_arg t = a)"
  shows "\<exists>s1 s2. sys_timeout K E msecs h a s = Some s1 \<and> length (next_timeout s1) = Suc (length (next_timeout s)) \<and>
    sys_untimeout E h a s1 = Some s2 \<and> next_timeout s2 = next_timeout s"
proof -
  obtain n s1 where n: "sys_timeout K E msecs h a s = Some s1" "next_timeout s1 = insert_timeo n (next_timeout s)"
      "block_ok (t_addr n)" "t_h n = h" "t_arg n = a"
    using sys_timeout_ok [OF assms(1,2)] by blast
  let ?xs = "takeWhile (\<lambda>u. \<not> TIME_LESS_THAN (t_time n) (t_time u)) (next_timeout s)"
  have "set ?xs \<subseteq> set (next_timeout s)" by (auto dest: set_takeWhileD)
  then have "unlink_timeo h a (next_timeout s1) = (Some (t_addr n), next_timeout s)"
    using unlink_insert [OF n(4,5) assms(3)] by (simp add: n(2) insert_timeo_eq)
  then have "sys_untimeout E h a s1 = mem_free (te_pbuf E) (t_addr n) (s1\<lparr>next_timeout := next_timeout s\<rparr>)"
    by (simp add: sys_untimeout_def)
  moreover have "length (next_timeout s1) = Suc (length (next_timeout s))"
    using n(2) by (metis mset_insert_timeo size_add_mset size_mset)
  ultimately show ?thesis using n(1) by (simp add: mem_free_ok [OF n(3)])
qed

theorem sys_untimeout_inverse_witness:
  "\<exists>s1 s2. sys_timeout demo_clock demo_timer_env 500 (Handler 0x4000) (Arg 7) (demo_timers [demo_arp_timer] 0) = Some s1 \<and>
    length (next_timeout s1) = Suc 1 \<and>
    sys_untimeout demo_timer_env (Handler 0x4000) (Arg 7) s1 = Some s2 \<and> next_timeout s2 = [demo_arp_timer]"
proof -
  have "next_timeout (demo_timers [demo_arp_timer] 0) = [demo_arp_timer]" by (simp add: demo_timers_def)
  moreover have "t_h demo_arp_timer \<noteq> Handler 0x4000" by (simp add: demo_arp_timer_def)
  ultimately show ?thesis
    using sys_untimeout_inverse [OF demo_timer_env_ok(2), of 500 "demo_timers [demo_arp_timer] 0" "Handler 0x4000" "Arg 7" demo_clock]
    by simp
qed

end
