(* ===== verification/BM_Ip4_Addr.thy ===== *)
theory BM_Ip4_Addr
  imports BM_Lwip_Def
begin

text \<open>
  lwIP's \<^verbatim>\<open>core/ipv4/ip4_addr.c\<close>: broadcast addresses, netmasks, and the dotted notation in both
  directions.  Addresses are 32-bit words in network byte order, as in the code.
\<close>

section \<open>Addresses and interfaces\<close>

definition IPADDR_ANY :: u32 where "IPADDR_ANY = 0"
definition IPADDR_BROADCAST :: u32 where "IPADDR_BROADCAST = 0xFFFFFFFF"
definition IPADDR_NONE :: u32 where "IPADDR_NONE = 0xFFFFFFFF"

text \<open>A function pointer of an interface.\<close>

datatype netif_fn = Null_fn | Netif_null_output_ip4 | Etharp_output | Low_level_output | Ethernet_input | Fn addr

text \<open>The fields of \<^verbatim>\<open>struct netif\<close> that the modelled code reads or writes.\<close>

record netif =
  n_ip_addr :: u32
  n_netmask :: u32
  n_gw :: u32
  n_input :: netif_fn
  n_output :: netif_fn
  n_linkoutput :: netif_fn
  n_state :: addr
  n_dhcp :: addr
  n_mtu :: u16
  n_hwaddr :: "u8 list"
  n_hwaddr_len :: u8
  n_flags :: u8
  n_name :: "u8 \<times> u8"
  n_num :: u8

definition NETIF_FLAG_UP :: u8 where "NETIF_FLAG_UP = 0x01"
definition NETIF_FLAG_BROADCAST :: u8 where "NETIF_FLAG_BROADCAST = 0x02"
definition NETIF_FLAG_LINK_UP :: u8 where "NETIF_FLAG_LINK_UP = 0x04"
definition NETIF_FLAG_ETHARP :: u8 where "NETIF_FLAG_ETHARP = 0x08"

lemmas netif_flags = NETIF_FLAG_UP_def NETIF_FLAG_BROADCAST_def NETIF_FLAG_LINK_UP_def NETIF_FLAG_ETHARP_def

definition ip4_addr_net_eq :: "u32 \<Rightarrow> u32 \<Rightarrow> u32 \<Rightarrow> bool" where
  "ip4_addr_net_eq a b m \<longleftrightarrow> a AND m = b AND m"

definition ip4_addr_isbroadcast_u32 :: "u32 \<Rightarrow> netif \<Rightarrow> bool" where
  "ip4_addr_isbroadcast_u32 addr nif =
     (if NOT addr = IPADDR_ANY \<or> addr = IPADDR_ANY then True
      else if n_flags nif AND NETIF_FLAG_BROADCAST = 0 then False
      else if addr = n_ip_addr nif then False
      else if ip4_addr_net_eq addr (n_ip_addr nif) (n_netmask nif) \<and>
              addr AND NOT (n_netmask nif) = IPADDR_BROADCAST AND NOT (n_netmask nif) then True
      else False)"

section \<open>Netmasks\<close>

lemma unat_shift_less: "w \<noteq> 0 \<Longrightarrow> unat (drop_bit 1 (w :: 'a::len word)) < unat w"
proof -
  assume "w \<noteq> 0"
  then have "0 < unat w" by (simp add: unat_gt_0)
  moreover have "unat (drop_bit 1 w) = unat w div 2"
    by (simp only: unat_drop_bit_eq) (simp only: drop_bit_eq_div power_one_right)
  ultimately show ?thesis by simp
qed

function mask_first_zero :: "u32 \<Rightarrow> u32 \<Rightarrow> u32" where
  "mask_first_zero nm msk =
     (if msk = 0 then msk else if nm AND msk = 0 then msk else mask_first_zero nm (drop_bit 1 msk))"
  by pat_completeness auto
termination
  by (relation "measure (\<lambda>(nm, msk). unat msk)") (auto simp: unat_shift_less [unfolded One_nat_def])

function mask_no_one :: "u32 \<Rightarrow> u32 \<Rightarrow> bool" where
  "mask_no_one nm msk =
     (if msk = 0 then True else if nm AND msk \<noteq> 0 then False else mask_no_one nm (drop_bit 1 msk))"
  by pat_completeness auto
termination
  by (relation "measure (\<lambda>(nm, msk). unat msk)") (auto simp: unat_shift_less [unfolded One_nat_def])

declare mask_first_zero.simps [simp del] mask_no_one.simps [simp del]

definition ip4_addr_netmask_valid :: "u32 \<Rightarrow> bool" where
  "ip4_addr_netmask_valid netmask =
     (let nm_hostorder = lwip_htonl netmask
      in mask_no_one nm_hostorder (mask_first_zero nm_hostorder (push_bit 31 1)))"

section \<open>Reading the dotted notation\<close>

definition lwip_isdigit :: "u8 \<Rightarrow> bool" where "lwip_isdigit c \<longleftrightarrow> 0x30 \<le> c \<and> c \<le> 0x39"
definition lwip_islower :: "u8 \<Rightarrow> bool" where "lwip_islower c \<longleftrightarrow> 0x61 \<le> c \<and> c \<le> 0x7A"
definition lwip_isxdigit :: "u8 \<Rightarrow> bool" where
  "lwip_isxdigit c \<longleftrightarrow> lwip_isdigit c \<or> 0x61 \<le> c \<and> c \<le> 0x66 \<or> 0x41 \<le> c \<and> c \<le> 0x46"
definition lwip_isspace :: "u8 \<Rightarrow> bool" where
  "lwip_isspace c \<longleftrightarrow> c \<in> {0x20, 0x0C, 0x0A, 0x0D, 0x09, 0x0B}"

text \<open>The inner loop: the digits of one number, and what follows them.\<close>

fun aton_number :: "u32 \<Rightarrow> u32 \<Rightarrow> u8 list \<Rightarrow> u32 \<times> u8 list" where
  "aton_number base val [] = (val, [])"
| "aton_number base val (c # cs) =
     (if lwip_isdigit c then
        (if base = 8 \<and> 8 \<le> c - 0x30 then (val, c # cs)
         else aton_number base (val * base + ucast (c - 0x30)) cs)
      else if base = 16 \<and> lwip_isxdigit c then
        aton_number base (push_bit 4 val OR (ucast c + 10 - (if lwip_islower c then 0x61 else 0x41))) cs
      else (val, c # cs))"

lemma aton_number_length: "length (snd (aton_number base val cs)) \<le> length cs"
  by (induction base val cs rule: aton_number.induct) auto

definition aton_base :: "u8 list \<Rightarrow> u32 \<times> u8 list" where
  "aton_base cs =
     (if str_at cs 0 = 0x30 then
        (if str_at cs 1 = 0x78 \<or> str_at cs 1 = 0x58 then (16, drop 2 cs) else (8, drop 1 cs))
      else (10, cs))"

text \<open>The outer loop: the parts before the last, the last number, and the rest of the input.\<close>

function aton_parts :: "u32 list \<Rightarrow> u8 list \<Rightarrow> (u32 list \<times> u32 \<times> u8 list) option" where
  "aton_parts parts cs =
     (if \<not> lwip_isdigit (str_at cs 0) then None
      else let (base, cs1) = aton_base cs; (val, cs2) = aton_number base 0 cs1
           in if str_at cs2 0 = 0x2E
              then (if 3 \<le> length parts then None else aton_parts (parts @ [val]) (tl cs2))
              else Some (parts, val, cs2))"
  by pat_completeness auto
termination
proof (relation "measure (\<lambda>(parts, cs). length cs)")
  show "wf (measure (\<lambda>(parts, cs). length (cs :: u8 list)))" by simp
next
  fix parts :: "u32 list" and cs x base cs1 y val cs2
  assume a: "\<not> \<not> lwip_isdigit (str_at cs 0)" "x = aton_base cs" "(base, cs1) = x"
    "y = aton_number base 0 cs1" "(val, cs2) = y" "str_at cs2 0 = 0x2E"
  have "length cs1 \<le> length cs" using a(2,3) by (auto simp: aton_base_def split: if_splits)
  moreover have "length cs2 \<le> length cs1" using a(4,5) aton_number_length [of base 0 cs1] by (metis snd_conv)
  moreover have "cs2 \<noteq> []" using a(6) by auto
  ultimately show "((parts @ [val], tl cs2), (parts, cs)) \<in> measure (\<lambda>(parts, cs). length cs)"
    by (cases cs2) auto
qed

declare aton_parts.simps [simp del]

definition aton_combine :: "u32 list \<Rightarrow> u32 \<Rightarrow> u32 option" where
  "aton_combine parts val =
     (case parts of
        [] \<Rightarrow> Some val
      | [a] \<Rightarrow> if 0xFFFFFF < val \<or> 0xFF < a then None else Some (val OR push_bit 24 a)
      | [a, b] \<Rightarrow> if 0xFFFF < val \<or> 0xFF < a \<or> 0xFF < b then None
                 else Some (val OR (push_bit 24 a OR push_bit 16 b))
      | [a, b, c] \<Rightarrow> if 0xFF < val \<or> 0xFF < a \<or> 0xFF < b \<or> 0xFF < c then None
                 else Some (val OR (push_bit 24 a OR push_bit 16 b OR push_bit 8 c))
      | _ \<Rightarrow> Some val)"

definition ip4addr_aton :: "u8 list \<Rightarrow> u32 option" where
  "ip4addr_aton cp =
     (case aton_parts [] cp of None \<Rightarrow> None
      | Some (parts, val, cs) \<Rightarrow>
          if str_at cs 0 \<noteq> 0 \<and> \<not> lwip_isspace (str_at cs 0) then None
          else map_option lwip_htonl (aton_combine parts val))"

definition ipaddr_addr :: "u8 list \<Rightarrow> u32" where
  "ipaddr_addr cp = (case ip4addr_aton cp of Some a \<Rightarrow> a | None \<Rightarrow> IPADDR_NONE)"

section \<open>Writing the dotted notation\<close>

text \<open>The digits of an octet, least significant first, as they fill \<^verbatim>\<open>inv\<close>.\<close>

function octet_digits :: "u8 \<Rightarrow> u8 list" where
  "octet_digits b = (0x30 + b mod 10) # (if b div 10 = 0 then [] else octet_digits (b div 10))"
  by pat_completeness auto
termination
proof (relation "measure unat")
  fix b :: u8 assume "b div 10 \<noteq> 0"
  then have "0 < unat b" by (metis div_0 unat_eq_zero gr0I)
  then show "(b div 10, b) \<in> measure unat" by (simp add: unat_div)
qed simp

declare octet_digits.simps [simp del]

text \<open>Storing characters while \<^verbatim>\<open>len++ < buflen\<close>.\<close>

fun put_chars :: "int \<Rightarrow> u8 list \<Rightarrow> u8 list \<Rightarrow> u8 list option" where
  "put_chars buflen out [] = Some out"
| "put_chars buflen out (c # cs) =
     (if buflen \<le> int (length out) then None else put_chars buflen (out @ [c]) cs)"

fun ntoa_loop :: "int \<Rightarrow> u8 list \<Rightarrow> u8 list \<Rightarrow> u8 list option" where
  "ntoa_loop buflen out [] = Some out"
| "ntoa_loop buflen out (a # as) =
     (case put_chars buflen out (rev (octet_digits a) @ [0x2E]) of
        None \<Rightarrow> None | Some out' \<Rightarrow> ntoa_loop buflen out' as)"

text \<open>The bytes stored to the buffer; the last dot is replaced by the terminator.\<close>

definition ip4addr_ntoa_r :: "u32 \<Rightarrow> int \<Rightarrow> u8 list option" where
  "ip4addr_ntoa_r addr buflen =
     (case ntoa_loop buflen [] (le_bytes 4 addr) of
        None \<Rightarrow> None | Some out \<Rightarrow> Some (butlast out @ [0]))"

definition IP4ADDR_STRLEN_MAX :: int where "IP4ADDR_STRLEN_MAX = 16"

definition ip4addr_ntoa :: "u32 \<Rightarrow> u8 list option" where
  "ip4addr_ntoa addr = ip4addr_ntoa_r addr IP4ADDR_STRLEN_MAX"

section \<open>Netmask properties\<close>

lemma and_exp_eq_0_iff: "(h :: u32) AND push_bit i 1 = 0 \<longleftrightarrow> \<not> (i < 32 \<and> bit h i)"
  by (auto simp: word_eq_bits bit_simps)

lemma exp_nonzero: "i < 32 \<Longrightarrow> (push_bit i 1 :: u32) \<noteq> 0"
  using and_exp_eq_0_iff [of "- 1" i] by auto

lemma shift_exp: "Suc i < 32 \<Longrightarrow> drop_bit 1 (push_bit (Suc i) 1 :: u32) = push_bit i 1"
  by (intro bit_word_eqI) (auto simp: bit_simps)

lemma mask_Suc:
  assumes "Suc i < 32"
  shows "mask_no_one h (push_bit (Suc i) 1) \<longleftrightarrow> \<not> bit h (Suc i) \<and> mask_no_one h (push_bit i 1)"
    "mask_first_zero h (push_bit (Suc i) 1) = (if bit h (Suc i) then mask_first_zero h (push_bit i 1) else push_bit (Suc i) 1)"
  unfolding mask_no_one.simps [of h "push_bit (Suc i) 1"] mask_first_zero.simps [of h "push_bit (Suc i) 1"]
    and_exp_eq_0_iff shift_exp [OF assms] using exp_nonzero [OF assms] assms by auto

lemma mask_no_one_iff: "i < 32 \<Longrightarrow> mask_no_one h (push_bit i 1) \<longleftrightarrow> (\<forall>j \<le> i. \<not> bit h j)"
proof (induction i)
  case 0
  then show ?case using and_exp_eq_0_iff [of h 0]
    by (subst mask_no_one.simps) (auto simp: mask_no_one.simps)
next
  case (Suc i)
  then show ?case unfolding mask_Suc(1) [OF Suc.prems] by (auto simp: le_Suc_eq)
qed

lemma netmask_loops_iff:
  "i < 32 \<Longrightarrow> mask_no_one h (mask_first_zero h (push_bit i 1)) \<longleftrightarrow> (\<exists>k \<le> Suc i. \<forall>j \<le> i. bit h j \<longleftrightarrow> k \<le> j)"
proof (induction i)
  case 0
  show ?case
  proof (cases "bit h 0")
    case True
    then have "mask_first_zero h (push_bit 0 1) = 0"
      using and_exp_eq_0_iff [of h 0] by (subst mask_first_zero.simps) (simp add: mask_first_zero.simps)
    then show ?thesis using True by (auto simp: mask_no_one.simps)
  next
    case False
    then have "mask_first_zero h (push_bit 0 1) = push_bit 0 1"
      using and_exp_eq_0_iff [of h 0] by (subst mask_first_zero.simps) simp
    then show ?thesis using False mask_no_one_iff [of 0 h] by auto
  qed
next
  case (Suc i)
  show ?case
  proof (cases "bit h (Suc i)")
    case True
    then show ?thesis unfolding mask_Suc(2) [OF Suc.prems] using Suc by (auto simp: le_Suc_eq)
  next
    case False
    then have "mask_no_one h (mask_first_zero h (push_bit (Suc i) 1)) \<longleftrightarrow> (\<forall>j \<le> Suc i. \<not> bit h j)"
      unfolding mask_Suc(2) [OF Suc.prems] using mask_no_one_iff [OF Suc.prems, of h] by simp
    then show ?thesis using False by (metis le_SucE le_refl not_less_eq_eq)
  qed
qed

text \<open>
  The netmask check accepts exactly the contiguous masks: in host order a run of ones followed
  by a run of zeros.
\<close>

lemma netmask_valid_iff:
  "ip4_addr_netmask_valid m \<longleftrightarrow> (\<exists>k \<le> 32. lwip_htonl m = NOT (mask k))"
proof -
  let ?h = "lwip_htonl m"
  have "ip4_addr_netmask_valid m \<longleftrightarrow> (\<exists>k \<le> 32. \<forall>j \<le> 31. bit ?h j \<longleftrightarrow> k \<le> j)"
    using netmask_loops_iff [of 31 ?h] by (simp add: ip4_addr_netmask_valid_def Let_def)
  moreover have "?h = NOT (mask k) \<longleftrightarrow> (\<forall>j \<le> 31. bit ?h j \<longleftrightarrow> k \<le> j)" for k
  proof -
    have "?h = NOT (mask k) \<longleftrightarrow> (\<forall>j < 32. bit ?h j \<longleftrightarrow> k \<le> j)"
      by (auto simp: word_eq_bits bit_simps not_less)
    moreover have "j < 32 \<longleftrightarrow> j \<le> 31" for j :: nat by auto
    ultimately show ?thesis by simp
  qed
  ultimately show ?thesis by blast
qed

section \<open>Dotted notation properties\<close>

text \<open>The dotted notation of an address, as a specification.\<close>

definition dotted :: "u32 \<Rightarrow> u8 list" where
  "dotted a = (case map (\<lambda>b. dec (unat b)) (le_bytes 4 a) of
     [b0, b1, b2, b3] \<Rightarrow> b0 @ 0x2E # b1 @ 0x2E # b2 @ 0x2E # b3 | _ \<Rightarrow> [])"

lemma octet_digits_dec: "rev (octet_digits b) = dec (unat b)"
proof (induction b rule: octet_digits.induct)
  case (1 b)
  have m: "(of_nat (unat b mod 10) :: u8) = b mod 10"
  proof -
    have "b mod 10 = of_nat (unat (b mod 10))" by simp
    then show ?thesis by (simp add: unat_mod)
  qed
  have d: "unat (b div 10) = unat b div 10" by (simp add: unat_div)
  have z: "b div 10 = 0 \<longleftrightarrow> unat b < 10" using d by (metis div_eq_0_iff unat_eq_zero zero_neq_numeral)
  show ?case
  proof (cases "unat b < 10")
    case True
    then show ?thesis using m z by (subst octet_digits.simps, subst dec.simps) simp
  next
    case False
    then show ?thesis using 1 m z d by (subst octet_digits.simps, subst dec.simps) simp
  qed
qed

lemma put_chars_eq:
  "put_chars buflen out cs = (if cs = [] \<or> int (length out + length cs) \<le> buflen then Some (out @ cs) else None)"
  by (induction buflen out cs rule: put_chars.induct) auto

lemma ntoa_loop_eq:
  defines "enc \<equiv> \<lambda>as. concat (map (\<lambda>a. dec (unat a) @ [0x2E]) as)"
  shows "ntoa_loop buflen out as =
    (if as = [] \<or> int (length out + length (enc as)) \<le> buflen then Some (out @ enc as) else None)"
proof (induction as arbitrary: out)
  case Nil
  then show ?case by (simp add: enc_def)
next
  case (Cons a as)
  have e: "enc (a # as) = (dec (unat a) @ [0x2E]) @ enc as" by (simp add: enc_def)
  show ?case
  proof (cases "int (length out + length (dec (unat a) @ [0x2E])) \<le> buflen")
    case True
    then have "ntoa_loop buflen out (a # as) = ntoa_loop buflen (out @ dec (unat a) @ [0x2E]) as"
      by (simp add: put_chars_eq octet_digits_dec)
    then show ?thesis unfolding Cons.IH e using True by (cases as) (auto simp: enc_def)
  next
    case False
    then show ?thesis unfolding e by (simp add: put_chars_eq octet_digits_dec)
  qed
qed

lemma dec_length: "n < 256 \<Longrightarrow> length (dec n) \<le> 3"
proof -
  assume "n < 256"
  then have "n div 10 div 10 < 10" by simp
  then show ?thesis
    by (simp add: dec.simps [of n] dec.simps [of "n div 10"] dec.simps [of "n div 10 div 10"])
qed

lemma dotted_eq: "butlast (concat (map (\<lambda>a. dec (unat a) @ [0x2E]) (le_bytes 4 a))) = dotted a"
  by (simp add: le_bytes_4 dotted_def butlast_append)

lemma ip4addr_ntoa_r_eq:
  "ip4addr_ntoa_r a buflen = (if int (length (dotted a)) < buflen then Some (dotted a @ [0]) else None)"
proof -
  let ?e = "concat (map (\<lambda>a. dec (unat a) @ [0x2E]) (le_bytes 4 a))"
  have "length ?e = Suc (length (dotted a))"
    unfolding dotted_eq [symmetric] by (simp add: le_bytes_4)
  moreover have "le_bytes 4 a \<noteq> []" by (simp add: le_bytes_4)
  ultimately show ?thesis
    unfolding ip4addr_ntoa_r_def ntoa_loop_eq using dotted_eq [of a] by auto
qed

lemma dotted_length: "length (dotted a) \<le> 15"
proof -
  have "length (dec (unat (b :: u8))) \<le> 3" for b
    using unsigned_less [of b] by (intro dec_length) simp
  then have "\<And>b. length (dec (unat (b :: u8))) \<le> 3" .
  from this [of "ucast a"] this [of "ucast (drop_bit 8 a)"] this [of "ucast (drop_bit 16 a)"] this [of "ucast (drop_bit 24 a)"]
  show ?thesis by (simp add: dotted_def le_bytes_4)
qed

section \<open>Reading back\<close>

lemma digit_char:
  assumes "d < 10"
  shows "lwip_isdigit (0x30 + of_nat d)" "ucast ((0x30 + of_nat d :: u8) - 0x30) = (of_nat d :: u32)"
    "(0x30 + of_nat d :: u8) = 0x30 \<longleftrightarrow> d = 0"
proof -
  have u: "unat (0x30 + of_nat d :: u8) = 48 + d" using assms by (subst unat_plus_small) simp_all
  show "lwip_isdigit (0x30 + of_nat d)" using u assms by (simp add: lwip_isdigit_def word_le_nat_alt)
  have "unat (ucast (of_nat d :: u8) :: u32) = unat (of_nat d :: u32)" using assms by (simp add: unsigned_ucast_eq take_bit_nat_eq_self)
  then have "ucast (of_nat d :: u8) = (of_nat d :: u32)" by (simp only: unsigned_word_eqI)
  then show "ucast ((0x30 + of_nat d :: u8) - 0x30) = (of_nat d :: u32)" by simp
  show "(0x30 + of_nat d :: u8) = 0x30 \<longleftrightarrow> d = 0" using u by auto
qed

lemma aton_number_dec:
  "aton_number 10 v (dec n @ rest) = aton_number 10 (v * 10 ^ length (dec n) + of_nat n) rest"
proof (induction n arbitrary: rest rule: dec.induct)
  case (1 n)
  show ?case
  proof (cases "n < 10")
    case True
    then show ?thesis using digit_char [OF True] by (simp add: dec.simps)
  next
    case False
    have m: "n mod 10 < 10" by simp
    have "(of_nat n :: u32) = of_nat (n div 10) * 10 + of_nat (n mod 10)"
      by (metis div_mult_mod_eq of_nat_add of_nat_mult of_nat_numeral)
    moreover have "dec n @ rest = dec (n div 10) @ (0x30 + of_nat (n mod 10)) # rest"
      using False by (subst dec.simps) simp
    moreover have "length (dec n) = Suc (length (dec (n div 10)))" using False by (subst dec.simps) simp
    ultimately show ?thesis using 1 [OF False] digit_char [OF m] by (simp add: algebra_simps)
  qed
qed

lemma dec_head:
  shows "\<exists>d < 10. dec n ! 0 = 0x30 + of_nat d \<and> (d = 0 \<longleftrightarrow> n = 0)"
proof (induction n rule: dec.induct)
  case (1 n)
  show ?case
  proof (cases "n < 10")
    case True
    then show ?thesis by (auto simp: dec.simps)
  next
    case False
    then have "dec n ! 0 = dec (n div 10) ! 0" using dec_nonzero(2) [of "n div 10"] by (subst dec.simps) (simp add: nth_append)
    then show ?thesis using 1 [OF False] False by (auto simp: div_eq_0_iff)
  qed
qed

text \<open>What may follow an octet: the end or a dot.\<close>

definition ends_octet :: "u8 list \<Rightarrow> bool" where
  "ends_octet rest \<longleftrightarrow> rest = [] \<or> rest ! 0 = 0x2E"

lemma aton_octet:
  assumes "ends_octet rest"
  shows "lwip_isdigit (str_at (dec n @ rest) 0)"
    "(case aton_base (dec n @ rest) of (base, cs1) \<Rightarrow> aton_number base 0 cs1) = (of_nat n, rest)"
proof -
  obtain d where d: "d < 10" "dec n ! 0 = 0x30 + of_nat d" "d = 0 \<longleftrightarrow> n = 0" using dec_head by blast
  have h: "str_at (dec n @ rest) 0 = 0x30 + of_nat d"
    using d(2) dec_nonzero(2) [of n] by (simp add: str_at_def nth_append)
  show "lwip_isdigit (str_at (dec n @ rest) 0)" unfolding h using d(1) by (rule digit_char)
  have stop: "aton_number b v rest = (v, rest)" for b v
    using assms by (cases rest) (auto simp: ends_octet_def lwip_isdigit_def lwip_isxdigit_def)
  show "(case aton_base (dec n @ rest) of (base, cs1) \<Rightarrow> aton_number base 0 cs1) = (of_nat n, rest)"
  proof (cases "n = 0")
    case True
    then have "dec n = [0x30]" by (simp add: dec.simps)
    moreover have "str_at rest 0 \<noteq> 0x78 \<and> str_at rest 0 \<noteq> 0x58"
      using assms by (cases rest) (auto simp: ends_octet_def)
    ultimately show ?thesis using True stop by (simp add: aton_base_def)
  next
    case False
    then have "aton_base (dec n @ rest) = (10, dec n @ rest)"
      using h d digit_char(3) [OF d(1)] by (simp add: aton_base_def)
    then show ?thesis using aton_number_dec [of 0 n rest] stop by simp
  qed
qed

lemma aton_parts_octet:
  assumes "length parts < 3"
  shows "aton_parts parts (dec n @ 0x2E # cs) = aton_parts (parts @ [of_nat n]) cs"
proof -
  have "ends_octet (0x2E # cs)" by (simp add: ends_octet_def)
  note o = aton_octet [OF this, of n]
  obtain base cs1 where b: "aton_base (dec n @ 0x2E # cs) = (base, cs1)" by (metis prod.exhaust)
  then have "aton_number base 0 cs1 = (of_nat n, 0x2E # cs)" using o(2) by simp
  then show ?thesis using o(1) b assms by (subst aton_parts.simps) (simp add: Let_def)
qed

lemma aton_parts_last: "aton_parts parts (dec n) = Some (parts, of_nat n, [])"
proof -
  have "ends_octet []" by (simp add: ends_octet_def)
  note o = aton_octet [OF this, of n, unfolded append_Nil2]
  obtain base cs1 where b: "aton_base (dec n) = (base, cs1)" by (metis prod.exhaust)
  then have "aton_number base 0 cs1 = (of_nat n, [])" using o(2) by simp
  then show ?thesis using o(1) b by (subst aton_parts.simps) (simp add: Let_def)
qed

lemma octet_u32: "(of_nat (unat (b :: u8)) :: u32) = ucast b" "\<not> 0xFF < (ucast b :: u32)"
proof -
  show "(of_nat (unat b) :: u32) = ucast b" by simp
  have l: "unat b < 256" using unat_less_len [of b] by simp
  then have "unat (ucast b :: u32) = unat b" by (simp add: unsigned_ucast_eq take_bit_nat_eq_self)
  then show "\<not> 0xFF < (ucast b :: u32)" using l by (simp add: word_less_nat_alt)
qed

text \<open>
  C26. Printing an address and reading it back gives the address: the conversion to the dotted
  notation succeeds with the buffer of 16 bytes, fills at most that, and is inverted by the parser.
\<close>

theorem ip4addr_roundtrip:
  "\<exists>str. ip4addr_ntoa a = Some (str @ [0]) \<and> length str \<le> 15 \<and> 0 \<notin> set str \<and> ip4addr_aton str = Some a"
proof -
  let ?b0 = "ucast a :: u8" and ?b1 = "ucast (drop_bit 8 a) :: u8"
    and ?b2 = "ucast (drop_bit 16 a) :: u8" and ?b3 = "ucast (drop_bit 24 a) :: u8"
  have d: "dotted a = dec (unat ?b0) @ 0x2E # dec (unat ?b1) @ 0x2E # dec (unat ?b2) @ 0x2E # dec (unat ?b3)"
    by (simp add: dotted_def le_bytes_4)
  have "aton_parts [] (dotted a) = Some ([ucast ?b0, ucast ?b1, ucast ?b2], ucast ?b3, [])"
    unfolding d by (simp add: aton_parts_octet aton_parts_last octet_u32)
  moreover have "lwip_htonl (ucast ?b3 OR (push_bit 24 (ucast ?b0) OR push_bit 16 (ucast ?b1) OR push_bit 8 (ucast ?b2))) = a"
    (is "lwip_htonl ?v = a")
  proof -
    have "le_bytes 4 ?v = [?b3, ?b2, ?b1, ?b0]"
      unfolding le_bytes_4 by (auto intro!: bit_word_eqI simp: bit_simps)
    then have "le_bytes 4 (lwip_htonl ?v) = rev [?b3, ?b2, ?b1, ?b0]" by (simp only: le_bytes_htonl)
    then have "le_bytes 4 (lwip_htonl ?v) = le_bytes 4 a" unfolding le_bytes_4 [of a] by simp
    then show ?thesis by (subst (asm) le_bytes_inj) simp_all
  qed
  ultimately have "ip4addr_aton (dotted a) = Some a"
    using octet_u32(2) [of ?b0] octet_u32(2) [of ?b1] octet_u32(2) [of ?b2] octet_u32(2) [of ?b3]
    by (simp add: ip4addr_aton_def aton_combine_def)
  moreover have "ip4addr_ntoa a = Some (dotted a @ [0])"
    using dotted_length [of a] by (simp add: ip4addr_ntoa_def ip4addr_ntoa_r_eq IP4ADDR_STRLEN_MAX_def)
  moreover have "0 \<notin> set (dotted a)" unfolding d using dec_nonzero(1) by auto
  ultimately show ?thesis using dotted_length by blast
qed

text \<open>
  The parser does not notice that a part exceeds 32 bits: the accumulation wraps, so
  \<^verbatim>\<open>4294967296.0.0.1\<close> is accepted and read as \<^verbatim>\<open>0.0.0.1\<close>.
\<close>

lemma ip4addr_aton_wraps:
  "ip4addr_aton (dec 4294967296 @ 0x2E # dec 0 @ 0x2E # dec 0 @ 0x2E # dec 1) =
   ip4addr_aton (dec 0 @ 0x2E # dec 0 @ 0x2E # dec 0 @ 0x2E # dec 1) \<and>
   ip4addr_aton (dec 4294967296 @ 0x2E # dec 0 @ 0x2E # dec 0 @ 0x2E # dec 1) \<noteq> None"
proof -
  have "(of_nat 4294967296 :: u32) = of_nat 0" by simp
  then have "aton_parts [] (dec 4294967296 @ 0x2E # cs) = aton_parts [] (dec 0 @ 0x2E # cs)" for cs
    by (simp only: aton_parts_octet list.size zero_less_numeral)
  then show ?thesis
    by (simp add: ip4addr_aton_def) (simp add: aton_parts_octet aton_parts_last aton_combine_def)
qed

end
