(* ===== verification/BM_Netif.thy ===== *)
theory BM_Netif
  imports BM_Timeouts BM_Ip4_Addr
begin

text \<open>
  The network interfaces of lwIP, \<^verbatim>\<open>core/netif.c\<close>, in this configuration (IPv4 only, several interfaces,
  no loopback, no callbacks).  The structs are a store keyed by address, \<^verbatim>\<open>netif_list\<close> is the list of
  their addresses.  What the functions call in the protocols is an environment.
\<close>

section \<open>The struct and its store\<close>

record ('k, 'm) netifs = "('k, 'm) timers" +
  netif_store :: "addr \<Rightarrow> netif option"
  netif_list :: "addr list"
  netif_default :: addr
  netif_num :: u8

text \<open>What the interfaces call: the users of an address (TCP and UDP), ARP and DHCP.\<close>

record ('m, 's) netif_env =
  ne_timer :: "('m, 's) timer_env"
  ne_ip_addr_changed :: "u32 \<Rightarrow> u32 option \<Rightarrow> 's \<Rightarrow> 's option"
  ne_etharp_gratuitous :: "addr \<Rightarrow> 's \<Rightarrow> 's option"
  ne_etharp_cleanup :: "addr \<Rightarrow> 's \<Rightarrow> 's option"
  ne_dhcp_link_up :: "addr \<Rightarrow> 's \<Rightarrow> 's option"

definition upd_netif :: "addr \<Rightarrow> (netif \<Rightarrow> netif) \<Rightarrow> ('k, 'm, 'z) netifs_scheme \<Rightarrow> ('k, 'm, 'z) netifs_scheme option" where
  "upd_netif i f s =
     (case netif_store s i of None \<Rightarrow> None
      | Some n \<Rightarrow> Some (s\<lparr>netif_store := (netif_store s)(i \<mapsto> f n)\<rparr>))"

definition netif_get_index :: "netif \<Rightarrow> u8" where
  "netif_get_index n = n_num n + 1"

definition netif_null_output_ip4 :: err_t where
  "netif_null_output_ip4 = - 12"

section \<open>Addresses\<close>

definition netif_issue_reports :: "('m, ('k, 'm, 'z) netifs_scheme) netif_env \<Rightarrow> addr \<Rightarrow> u8 \<Rightarrow> ('k, 'm, 'z) netifs_scheme \<Rightarrow> ('k, 'm, 'z) netifs_scheme option" where
  "netif_issue_reports E i report_type s =
     (case netif_store s i of None \<Rightarrow> None
      | Some n \<Rightarrow>
          if n_flags n AND NETIF_FLAG_LINK_UP = 0 \<or> n_flags n AND NETIF_FLAG_UP = 0 then Some s
          else if report_type AND 1 \<noteq> 0 \<and> n_ip_addr n \<noteq> 0 \<and> n_flags n AND NETIF_FLAG_ETHARP \<noteq> 0
          then ne_etharp_gratuitous E i s
          else Some s)"

definition netif_do_set_ipaddr :: "('m, ('k, 'm, 'z) netifs_scheme) netif_env \<Rightarrow> addr \<Rightarrow> u32 \<Rightarrow> ('k, 'm, 'z) netifs_scheme \<Rightarrow> ('k, 'm, 'z) netifs_scheme option" where
  "netif_do_set_ipaddr E i ipaddr s =
     (case netif_store s i of None \<Rightarrow> None
      | Some n \<Rightarrow>
          if ipaddr = n_ip_addr n then Some s
          else do {
            s1 \<leftarrow> ne_ip_addr_changed E (n_ip_addr n) (Some ipaddr) s;
            s2 \<leftarrow> upd_netif i (n_ip_addr_update (\<lambda>_. ipaddr)) s1;
            netif_issue_reports E i 1 s2})"

definition netif_do_set_netmask :: "addr \<Rightarrow> u32 \<Rightarrow> ('k, 'm, 'z) netifs_scheme \<Rightarrow> ('k, 'm, 'z) netifs_scheme option" where
  "netif_do_set_netmask i netmask s =
     (case netif_store s i of None \<Rightarrow> None
      | Some n \<Rightarrow> if netmask = n_netmask n then Some s else upd_netif i (n_netmask_update (\<lambda>_. netmask)) s)"

definition netif_do_set_gw :: "addr \<Rightarrow> u32 \<Rightarrow> ('k, 'm, 'z) netifs_scheme \<Rightarrow> ('k, 'm, 'z) netifs_scheme option" where
  "netif_do_set_gw i gw s =
     (case netif_store s i of None \<Rightarrow> None
      | Some n \<Rightarrow> if gw = n_gw n then Some s else upd_netif i (n_gw_update (\<lambda>_. gw)) s)"

text \<open>The public setters take a pointer to an address; a null pointer (None) is the address 0.\<close>

definition addr_or_any :: "u32 option \<Rightarrow> u32" where
  "addr_or_any p = (case p of None \<Rightarrow> 0 | Some a \<Rightarrow> a)"

definition netif_set_ipaddr :: "('m, ('k, 'm, 'z) netifs_scheme) netif_env \<Rightarrow> addr \<Rightarrow> u32 option \<Rightarrow> ('k, 'm, 'z) netifs_scheme \<Rightarrow> ('k, 'm, 'z) netifs_scheme option" where
  "netif_set_ipaddr E i ipaddr s = (if i = 0 then Some s else netif_do_set_ipaddr E i (addr_or_any ipaddr) s)"

definition netif_set_netmask :: "addr \<Rightarrow> u32 option \<Rightarrow> ('k, 'm, 'z) netifs_scheme \<Rightarrow> ('k, 'm, 'z) netifs_scheme option" where
  "netif_set_netmask i netmask s = (if i = 0 then Some s else netif_do_set_netmask i (addr_or_any netmask) s)"

definition netif_set_gw :: "addr \<Rightarrow> u32 option \<Rightarrow> ('k, 'm, 'z) netifs_scheme \<Rightarrow> ('k, 'm, 'z) netifs_scheme option" where
  "netif_set_gw i gw s = (if i = 0 then Some s else netif_do_set_gw i (addr_or_any gw) s)"

definition netif_set_addr :: "('m, ('k, 'm, 'z) netifs_scheme) netif_env \<Rightarrow> addr \<Rightarrow> u32 option \<Rightarrow> u32 option \<Rightarrow> u32 option \<Rightarrow> ('k, 'm, 'z) netifs_scheme \<Rightarrow> ('k, 'm, 'z) netifs_scheme option" where
  "netif_set_addr E i ipaddr netmask gw s = do {
     let remove = (addr_or_any ipaddr = 0);
     s1 \<leftarrow> (if remove then netif_do_set_ipaddr E i (addr_or_any ipaddr) s else Some s);
     s2 \<leftarrow> netif_do_set_netmask i (addr_or_any netmask) s1;
     s3 \<leftarrow> netif_do_set_gw i (addr_or_any gw) s2;
     if remove then Some s3 else netif_do_set_ipaddr E i (addr_or_any ipaddr) s3}"

section \<open>State changes\<close>

definition netif_set_default :: "addr \<Rightarrow> ('k, 'm, 'z) netifs_scheme \<Rightarrow> ('k, 'm, 'z) netifs_scheme" where
  "netif_set_default i s = s\<lparr>netif_default := i\<rparr>"

definition netif_set_up :: "('m, ('k, 'm, 'z) netifs_scheme) netif_env \<Rightarrow> addr \<Rightarrow> ('k, 'm, 'z) netifs_scheme \<Rightarrow> ('k, 'm, 'z) netifs_scheme option" where
  "netif_set_up E i s =
     (if i = 0 then Some s
      else case netif_store s i of None \<Rightarrow> None
      | Some n \<Rightarrow>
          if n_flags n AND NETIF_FLAG_UP \<noteq> 0 then Some s
          else do {
            s1 \<leftarrow> upd_netif i (\<lambda>n. n\<lparr>n_flags := n_flags n OR NETIF_FLAG_UP\<rparr>) s;
            netif_issue_reports E i 3 s1})"

definition netif_set_down :: "('m, ('k, 'm, 'z) netifs_scheme) netif_env \<Rightarrow> addr \<Rightarrow> ('k, 'm, 'z) netifs_scheme \<Rightarrow> ('k, 'm, 'z) netifs_scheme option" where
  "netif_set_down E i s =
     (if i = 0 then Some s
      else case netif_store s i of None \<Rightarrow> None
      | Some n \<Rightarrow>
          if n_flags n AND NETIF_FLAG_UP = 0 then Some s
          else do {
            s1 \<leftarrow> upd_netif i (\<lambda>n. n\<lparr>n_flags := n_flags n AND NOT NETIF_FLAG_UP\<rparr>) s;
            if n_flags n AND NETIF_FLAG_ETHARP \<noteq> 0 then ne_etharp_cleanup E i s1 else Some s1})"

definition netif_set_link_up :: "('m, ('k, 'm, 'z) netifs_scheme) netif_env \<Rightarrow> addr \<Rightarrow> ('k, 'm, 'z) netifs_scheme \<Rightarrow> ('k, 'm, 'z) netifs_scheme option" where
  "netif_set_link_up E i s =
     (if i = 0 then Some s
      else case netif_store s i of None \<Rightarrow> None
      | Some n \<Rightarrow>
          if n_flags n AND NETIF_FLAG_LINK_UP \<noteq> 0 then Some s
          else do {
            s1 \<leftarrow> upd_netif i (\<lambda>n. n\<lparr>n_flags := n_flags n OR NETIF_FLAG_LINK_UP\<rparr>) s;
            s2 \<leftarrow> ne_dhcp_link_up E i s1;
            netif_issue_reports E i 3 s2})"

definition netif_set_link_down :: "addr \<Rightarrow> ('k, 'm, 'z) netifs_scheme \<Rightarrow> ('k, 'm, 'z) netifs_scheme option" where
  "netif_set_link_down i s =
     (if i = 0 then Some s
      else case netif_store s i of None \<Rightarrow> None
      | Some n \<Rightarrow>
          if n_flags n AND NETIF_FLAG_LINK_UP = 0 then Some s
          else upd_netif i (\<lambda>n. n\<lparr>n_flags := n_flags n AND NOT NETIF_FLAG_LINK_UP\<rparr>) s)"

section \<open>Adding and removing\<close>

text \<open>
  One pass of the search for a number over the list, counting the interfaces: the number to try next
  and whether the old one was taken.  None is a failed assertion.
\<close>

fun num_scan :: "(addr \<Rightarrow> netif option) \<Rightarrow> addr \<Rightarrow> u8 \<Rightarrow> nat \<Rightarrow> addr list \<Rightarrow> (u8 \<times> bool) option" where
  "num_scan st i num cnt [] = Some (num, False)"
| "num_scan st i num cnt (j # js) =
     (if j = i \<or> Suc cnt > 255 then None
      else case st j of None \<Rightarrow> None
      | Some n \<Rightarrow> if n_num n = num then Some (num + 1, True) else num_scan st i num (Suc cnt) js)"

partial_function (option) num_loop :: "(addr \<Rightarrow> netif option) \<Rightarrow> addr \<Rightarrow> addr list \<Rightarrow> u8 \<Rightarrow> u8 option" where
  "num_loop st i js num = do {
     (num1, taken) \<leftarrow> num_scan st i (if num = 255 then 0 else num) 0 js;
     if taken then num_loop st i js num1 else Some num1}"

text \<open>The result is the interface, or a null pointer when its \<^verbatim>\<open>init\<close> fails.\<close>

definition netif_add :: "('m, ('k, 'm, 'z) netifs_scheme) netif_env \<Rightarrow> addr \<Rightarrow> u32 option \<Rightarrow> u32 option \<Rightarrow> u32 option \<Rightarrow> addr \<Rightarrow> (addr \<Rightarrow> ('k, 'm, 'z) netifs_scheme \<Rightarrow> (err_t \<times> ('k, 'm, 'z) netifs_scheme) option) \<Rightarrow> netif_fn \<Rightarrow> ('k, 'm, 'z) netifs_scheme \<Rightarrow> (addr \<times> ('k, 'm, 'z) netifs_scheme) option" where
  "netif_add E i ipaddr netmask gw st init inp s =
     (if i = 0 then Some (0, s)
      else do {
        s1 \<leftarrow> upd_netif i (\<lambda>n. n\<lparr>n_ip_addr := 0, n_netmask := 0, n_gw := 0, n_output := Netif_null_output_ip4,
                n_mtu := 0, n_flags := 0, n_dhcp := 0, n_state := st, n_num := netif_num s, n_input := inp\<rparr>) s;
        s2 \<leftarrow> netif_set_addr E i ipaddr netmask gw s1;
        (e, s3) \<leftarrow> init i s2;
        if e \<noteq> ERR_OK then Some (0, s3)
        else do {
          n \<leftarrow> netif_store s3 i;
          num \<leftarrow> num_loop (netif_store s3) i (netif_list s3) (n_num n);
          s4 \<leftarrow> upd_netif i (n_num_update (\<lambda>_. num)) s3;
          Some (i, s4\<lparr>netif_num := (if num = 254 then 0 else num + 1), netif_list := i # netif_list s4\<rparr>)}})"

definition netif_remove :: "('m, ('k, 'm, 'z) netifs_scheme) netif_env \<Rightarrow> addr \<Rightarrow> ('k, 'm, 'z) netifs_scheme \<Rightarrow> ('k, 'm, 'z) netifs_scheme option" where
  "netif_remove E i s =
     (if i = 0 then Some s
      else do {
        n \<leftarrow> netif_store s i;
        s1 \<leftarrow> (if n_ip_addr n \<noteq> 0 then ne_ip_addr_changed E (n_ip_addr n) None s else Some s);
        n1 \<leftarrow> netif_store s1 i;
        s2 \<leftarrow> (if n_flags n1 AND NETIF_FLAG_UP \<noteq> 0 then netif_set_down E i s1 else Some s1);
        let s3 = (if netif_default s2 = i then netif_set_default 0 s2 else s2);
        Some (s3\<lparr>netif_list := remove1 i (netif_list s3)\<rparr>)})"

section \<open>Names and indices\<close>

definition netif_get_by_index :: "u8 \<Rightarrow> ('k, 'm, 'z) netifs_scheme \<Rightarrow> addr" where
  "netif_get_by_index idx s =
     (if idx = 0 then 0
      else case find (\<lambda>j. map_option netif_get_index (netif_store s j) = Some idx) (netif_list s) of
        None \<Rightarrow> 0 | Some j \<Rightarrow> j)"

text \<open>
  \<^verbatim>\<open>atoi\<close> of the C library on the string at an address, with the accumulator wrapping at 32 bits; the
  fuel bounds the string.  None is a string longer than that.
\<close>

fun atoi_digits :: "nat \<Rightarrow> (nat \<Rightarrow> u8) \<Rightarrow> u32 \<Rightarrow> u32 option" where
  "atoi_digits 0 str n = None"
| "atoi_digits (Suc f) str n =
     (if str 0 - 0x30 < 10 then atoi_digits f (\<lambda>j. str (Suc j)) (10 * n - ucast (str 0 - 0x30)) else Some n)"

fun atoi_skip :: "nat \<Rightarrow> (nat \<Rightarrow> u8) \<Rightarrow> (nat \<Rightarrow> u8) option" where
  "atoi_skip 0 str = None"
| "atoi_skip (Suc f) str =
     (if str 0 = 0x20 \<or> str 0 - 0x09 < 5 then atoi_skip f (\<lambda>j. str (Suc j)) else Some str)"

definition atoi :: "nat \<Rightarrow> (nat \<Rightarrow> u8) \<Rightarrow> u32 option" where
  "atoi f str = do {
     str1 \<leftarrow> atoi_skip f str;
     let neg = (str1 0 = 0x2D);
     n \<leftarrow> atoi_digits f (if str1 0 = 0x2D \<or> str1 0 = 0x2B then (\<lambda>j. str1 (Suc j)) else str1) 0;
     Some (if neg then n else - n)}"

definition netif_find :: "nat \<Rightarrow> addr \<Rightarrow> ('k, 'm, 'z) netifs_scheme \<Rightarrow> addr option" where
  "netif_find f nm s =
     (if nm = 0 then Some 0
      else do {
        v \<leftarrow> atoi f (at (mem s) (nm + 2));
        let num = (ucast v :: u8);
        if num = 0 \<and> mem s (nm + 2) \<noteq> 0x30 then Some 0
        else case find (\<lambda>j. case netif_store s j of None \<Rightarrow> False
                        | Some n \<Rightarrow> num = n_num n \<and> mem s nm = fst (n_name n) \<and> mem s (nm + 1) = snd (n_name n))
                    (netif_list s) of
            None \<Rightarrow> Some 0 | Some j \<Rightarrow> Some j})"

definition netif_name_to_index :: "nat \<Rightarrow> addr \<Rightarrow> ('k, 'm, 'z) netifs_scheme \<Rightarrow> u8 option" where
  "netif_name_to_index f nm s = do {
     j \<leftarrow> netif_find f nm s;
     if j = 0 then Some 0
     else do {n \<leftarrow> netif_store s j; Some (netif_get_index n)}}"

definition netif_index_to_name :: "u8 \<Rightarrow> addr \<Rightarrow> ('k, 'm, 'z) netifs_scheme \<Rightarrow> (addr \<times> ('k, 'm, 'z) netifs_scheme) option" where
  "netif_index_to_name idx nm s =
     (let j = netif_get_by_index idx s
      in if j = 0 then Some (0, s)
         else do {
           n \<leftarrow> netif_store s j;
           let m1 = (mem s)(nm := fst (n_name n), nm + 1 := snd (n_name n));
           out \<leftarrow> lwip_itoa (mem_read m1 (nm + 2) 4) (ucast idx - 1);
           Some (nm, s\<lparr>mem := mem_write m1 (nm + 2) out\<rparr>)})"

section \<open>The search for a number\<close>

definition nums :: "(addr \<Rightarrow> netif option) \<Rightarrow> addr list \<Rightarrow> u8 set" where
  "nums st js = (\<lambda>j. n_num (the (st j))) ` set js"

lemma num_scan_eq:
  assumes "i \<notin> set js" "cnt + length js \<le> 255" "\<forall>j\<in>set js. st j \<noteq> None"
  shows "num_scan st i num cnt js = Some (if num \<in> nums st js then (num + 1, True) else (num, False))"
  using assms by (induction js arbitrary: cnt) (auto simp: nums_def)

text \<open>How many numbers lie between the one to try and a free one, around the circle of 255.\<close>

definition num_dist :: "u8 \<Rightarrow> u8 \<Rightarrow> nat" where
  "num_dist free num = (unat free + 255 - (if num = 255 then 0 else unat num)) mod 255"

lemma num_dist_step:
  assumes "free \<noteq> 255" "(if num = 255 then 0 else num) \<noteq> free"
  shows "num_dist free ((if num = 255 then 0 else num) + 1) < num_dist free num"
proof -
  define p where "p = (if num = 255 then 0 else num)"
  have "unat p < 256" "unat free < 256" using unat_less_len [of p] unat_less_len [of free] by simp_all
  moreover have "unat p \<noteq> 255" "unat free \<noteq> 255" "unat p \<noteq> unat free"
    using assms by (auto simp: p_def word_unat_eq_iff)
  ultimately have b: "unat p < 255" "unat free < 255" "unat p \<noteq> unat free" by auto
  have "unat (p + 1) = unat p + 1" using b by (simp add: unat_plus_small)
  then have pos: "(if p + 1 = 255 then 0 else unat (p + 1)) = (unat p + 1) mod 255"
    using b by (auto simp: word_unat_eq_iff)
  have "num_dist free num = (unat free + 255 - unat p) mod 255" by (auto simp: num_dist_def p_def)
  moreover have "num_dist free (p + 1) = (unat free + 255 - (unat p + 1) mod 255) mod 255"
    unfolding num_dist_def pos ..
  moreover have "(f + 255 - (q + 1) mod 255) mod 255 < (f + 255 - q) mod 255"
    if "q < 255" "f < 255" "q \<noteq> f" for q f :: nat
  proof (cases "q < f")
    case True
    then have "(f + 255 - (q + 1)) mod 255 = f - (q + 1)" "(f + 255 - q) mod 255 = f - q"
      using that mod_add_self2 [of "f - (q + 1)" 255] mod_add_self2 [of "f - q" 255] by auto
    then show ?thesis using that True by simp
  next
    case False
    then show ?thesis using that by (cases "q = 254") auto
  qed
  ultimately show ?thesis using b by (simp add: p_def)
qed

lemma num_loop_finds:
  assumes "i \<notin> set js" "length js \<le> 255" "\<forall>j\<in>set js. st j \<noteq> None"
    and "free \<noteq> 255" "free \<notin> nums st js"
  shows "\<exists>r. num_loop st i js num = Some r \<and> r \<notin> nums st js \<and> r \<noteq> 255"
proof (induction "num_dist free num" arbitrary: num rule: less_induct)
  case less
  let ?p = "if num = 255 then 0 else num"
  have scan: "num_scan st i ?p 0 js = Some (if ?p \<in> nums st js then (?p + 1, True) else (?p, False))"
    using num_scan_eq [OF assms(1) _ assms(3), of 0 ?p] assms(2) by simp
  show ?case
  proof (cases "?p \<in> nums st js")
    case True
    then have "num_loop st i js num = num_loop st i js (?p + 1)"
      using scan by (simp add: num_loop.simps [of st i js num])
    moreover have "num_dist free (?p + 1) < num_dist free num"
      using num_dist_step [OF assms(4)] True assms(5) by metis
    ultimately show ?thesis using less by metis
  next
    case False
    then have "num_loop st i js num = Some ?p" using scan by (simp add: num_loop.simps [of st i js num])
    then show ?thesis using False by auto
  qed
qed

lemma free_num:
  assumes "length js < 255"
  shows "\<exists>free. free \<noteq> 255 \<and> free \<notin> nums st js"
proof -
  have "card (nums st js) < 255"
    using assms card_image_le [of "set js" "\<lambda>j. n_num (the (st j))"] card_length [of js] by (auto simp: nums_def)
  moreover have "card (UNIV - {255 :: u8}) = 255" by (simp add: card_Diff_singleton card_word)
  ultimately have "\<not> UNIV - {255} \<subseteq> nums st js"
    using card_mono [of "nums st js" "UNIV - {255}"] by (auto simp: nums_def)
  then show ?thesis by blast
qed

section \<open>The list of interfaces\<close>

definition netifs_ok :: "('k, 'm, 'z) netifs_scheme \<Rightarrow> bool" where
  "netifs_ok s \<longleftrightarrow> distinct (netif_list s) \<and> 0 \<notin> set (netif_list s) \<and>
     (\<forall>j\<in>set (netif_list s). netif_store s j \<noteq> None) \<and> 255 \<notin> nums (netif_store s) (netif_list s) \<and>
     inj_on (\<lambda>j. n_num (the (netif_store s j))) (set (netif_list s))"

text \<open>What adding relies on: the users of an address leave the interfaces alone, and \<^verbatim>\<open>init\<close> succeeds and
  changes its own struct only.\<close>

definition addr_changed_ok :: "('m, ('k, 'm, 'z) netifs_scheme) netif_env \<Rightarrow> bool" where
  "addr_changed_ok E \<longleftrightarrow> (\<forall>a b s. \<exists>s'. ne_ip_addr_changed E a b s = Some s' \<and>
     netif_store s' = netif_store s \<and> netif_list s' = netif_list s)"

definition init_ok :: "(addr \<Rightarrow> ('k, 'm, 'z) netifs_scheme \<Rightarrow> (err_t \<times> ('k, 'm, 'z) netifs_scheme) option) \<Rightarrow> bool" where
  "init_ok init \<longleftrightarrow> (\<forall>i s. netif_store s i \<noteq> None \<longrightarrow> (\<exists>n s'. init i s = Some (ERR_OK, s') \<and>
     netif_store s' = (netif_store s)(i \<mapsto> n) \<and> netif_list s' = netif_list s))"

lemma upd_netif_Some:
  "netif_store s i = Some n \<Longrightarrow> upd_netif i f s = Some (s\<lparr>netif_store := (netif_store s)(i \<mapsto> f n)\<rparr>)"
  by (simp add: upd_netif_def)

lemma do_set_ipaddr_down:
  assumes "addr_changed_ok E" "netif_store s i = Some n" "n_flags n = 0"
  shows "\<exists>s'. netif_do_set_ipaddr E i a s = Some s' \<and> netif_list s' = netif_list s \<and>
    netif_store s' = (netif_store s)(i \<mapsto> n\<lparr>n_ip_addr := a\<rparr>)"
proof (cases "a = n_ip_addr n")
  case True
  then show ?thesis using assms by (auto simp: netif_do_set_ipaddr_def fun_upd_idem)
next
  case False
  obtain s1 where s1: "ne_ip_addr_changed E (n_ip_addr n) (Some a) s = Some s1"
      "netif_store s1 = netif_store s" "netif_list s1 = netif_list s"
    using assms(1) by (metis addr_changed_ok_def)
  then show ?thesis using False assms
    by (simp add: netif_do_set_ipaddr_def upd_netif_Some netif_issue_reports_def)
qed

lemma do_set_netmask_eq: "netif_store s i = Some n \<Longrightarrow>
    \<exists>s'. netif_do_set_netmask i a s = Some s' \<and> netif_list s' = netif_list s \<and>
      netif_store s' = (netif_store s)(i \<mapsto> n\<lparr>n_netmask := a\<rparr>)"
  by (cases "a = n_netmask n") (auto simp: netif_do_set_netmask_def upd_netif_Some fun_upd_idem)

lemma do_set_gw_eq: "netif_store s i = Some n \<Longrightarrow>
    \<exists>s'. netif_do_set_gw i a s = Some s' \<and> netif_list s' = netif_list s \<and>
      netif_store s' = (netif_store s)(i \<mapsto> n\<lparr>n_gw := a\<rparr>)"
  by (cases "a = n_gw n") (auto simp: netif_do_set_gw_def upd_netif_Some fun_upd_idem)

lemma set_addr_down:
  assumes "addr_changed_ok E" "netif_store s i = Some n" "n_flags n = 0"
  shows "\<exists>s'. netif_set_addr E i ip nm gw s = Some s' \<and> netif_list s' = netif_list s \<and>
    netif_store s' = (netif_store s)(i \<mapsto> n\<lparr>n_ip_addr := addr_or_any ip, n_netmask := addr_or_any nm, n_gw := addr_or_any gw\<rparr>)"
proof -
  let ?rm = "addr_or_any ip = 0"
  let ?n1 = "if ?rm then n\<lparr>n_ip_addr := addr_or_any ip\<rparr> else n"
  have "\<exists>s1. (if ?rm then netif_do_set_ipaddr E i (addr_or_any ip) s else Some s) = Some s1 \<and>
      netif_list s1 = netif_list s \<and> netif_store s1 = (netif_store s)(i \<mapsto> ?n1)"
    using do_set_ipaddr_down [OF assms] assms(2) by (auto simp: fun_upd_idem)
  then obtain s1 where s1: "(if ?rm then netif_do_set_ipaddr E i (addr_or_any ip) s else Some s) = Some s1"
      "netif_list s1 = netif_list s" "netif_store s1 = (netif_store s)(i \<mapsto> ?n1)" by blast
  obtain s2 where s2: "netif_do_set_netmask i (addr_or_any nm) s1 = Some s2" "netif_list s2 = netif_list s"
      "netif_store s2 = (netif_store s)(i \<mapsto> ?n1\<lparr>n_netmask := addr_or_any nm\<rparr>)"
    using do_set_netmask_eq [of s1 i ?n1] s1 by auto
  obtain s3 where s3: "netif_do_set_gw i (addr_or_any gw) s2 = Some s3" "netif_list s3 = netif_list s"
      "netif_store s3 = (netif_store s)(i \<mapsto> ?n1\<lparr>n_netmask := addr_or_any nm, n_gw := addr_or_any gw\<rparr>)"
    using do_set_gw_eq [of s2 i "?n1\<lparr>n_netmask := addr_or_any nm\<rparr>"] s2 by auto
  have run: "netif_set_addr E i ip nm gw s = (if ?rm then Some s3 else netif_do_set_ipaddr E i (addr_or_any ip) s3)"
    using s1(1) s2(1) s3(1) by (simp add: netif_set_addr_def Let_def)
  show ?thesis
  proof (cases ?rm)
    case True
    then show ?thesis using run s3 by simp
  next
    case False
    have eq: "n\<lparr>n_netmask := addr_or_any nm, n_gw := addr_or_any gw, n_ip_addr := addr_or_any ip\<rparr> =
        n\<lparr>n_ip_addr := addr_or_any ip, n_netmask := addr_or_any nm, n_gw := addr_or_any gw\<rparr>"
      by (cases n) simp
    show ?thesis
      using False run s3 assms(3) do_set_ipaddr_down [OF assms(1), of s3 i
          "n\<lparr>n_netmask := addr_or_any nm, n_gw := addr_or_any gw\<rparr>" "addr_or_any ip", unfolded eq]
      by simp
  qed
qed

lemma nums_upd: "i \<notin> set js \<Longrightarrow> nums (st(i := x)) js = nums st js"
  by (auto simp: nums_def)

lemma minus_1_u8: "- 1 = (255 :: u8)"
  by simp

lemma index_nonzero: "(num :: u8) \<noteq> 255 \<Longrightarrow> num + 1 \<noteq> 0"
  by (simp add: add_eq_0_iff2 minus_1_u8)

lemma get_by_index_eq:
  assumes "netifs_ok s" "j \<in> set (netif_list s)" "netif_store s j = Some n"
  shows "netif_get_index n \<noteq> 0" "netif_get_by_index (netif_get_index n) s = j"
proof -
  have "n_num n \<noteq> 255" using assms by (force simp: netifs_ok_def nums_def)
  then show nz: "netif_get_index n \<noteq> 0"
    using index_nonzero by (simp add: netif_get_index_def)
  let ?P = "\<lambda>k. map_option netif_get_index (netif_store s k) = Some (netif_get_index n)"
  have uniq: "k = j" if "k \<in> set (netif_list s)" "?P k" for k
  proof -
    have "n_num (the (netif_store s k)) = n_num (the (netif_store s j))"
      using that(2) assms(3) by (auto simp: netif_get_index_def)
    then show ?thesis using assms that(1) by (auto simp: netifs_ok_def inj_on_def)
  qed
  have "find ?P (netif_list s) \<noteq> None" using assms by (auto simp: find_None_iff)
  then obtain k where "find ?P (netif_list s) = Some k" by blast
  then have "k \<in> set (netif_list s)" "?P k" by (auto simp: find_Some_iff)
  then have "k = j" by (rule uniq)
  then show "netif_get_by_index (netif_get_index n) s = j"
    using \<open>find ?P (netif_list s) = Some k\<close> nz by (simp add: netif_get_by_index_def)
qed

lemma netifs_ok_add:
  assumes "netifs_ok s" "i \<notin> set (netif_list s)" "i \<noteq> 0" "n_num n \<notin> nums (netif_store s) (netif_list s)" "n_num n \<noteq> 255"
    and s': "netif_store s' = (netif_store s)(i \<mapsto> n)" "netif_list s' = i # netif_list s"
  shows "netifs_ok s'"
proof -
  let ?num = "\<lambda>s j. n_num (the (netif_store s j))" and ?js = "set (netif_list s)"
  have eq: "?num s' j = ?num s j" if "j \<in> ?js" for j using that assms(2) by (auto simp: s'(1))
  have "inj_on (?num s') ?js" using assms(1) by (simp add: netifs_ok_def eq cong: inj_on_cong)
  moreover have img: "?num s' ` ?js = nums (netif_store s) (netif_list s)" by (simp add: nums_def eq cong: image_cong)
  moreover have "?num s' i = n_num n" by (simp add: s'(1))
  ultimately have "inj_on (?num s') (insert i ?js)" using assms(2,4) by (simp add: inj_on_insert)
  moreover have "nums (netif_store s') (netif_list s') = insert (n_num n) (nums (netif_store s) (netif_list s))"
    unfolding nums_def s'(2) using img \<open>?num s' i = n_num n\<close> by (simp add: nums_def)
  ultimately show ?thesis using assms by (auto simp: netifs_ok_def)
qed

text \<open>The state in which \<^verbatim>\<open>netif_add\<close> searches for the number.\<close>

lemma netif_add_search:
  assumes E: "addr_changed_ok E" "init_ok init" and i: "i \<noteq> 0" "netif_store s i = Some n0" "i \<notin> set (netif_list s)"
  shows "\<exists>n s3. netif_store s3 = (netif_store s)(i \<mapsto> n) \<and> netif_list s3 = netif_list s \<and>
    netif_add E i ip nm gw st init inp s = do {
      num \<leftarrow> num_loop (netif_store s3) i (netif_list s) (n_num n);
      Some (i, s3\<lparr>netif_store := (netif_store s)(i \<mapsto> n\<lparr>n_num := num\<rparr>),
        netif_num := (if num = 254 then 0 else num + 1), netif_list := i # netif_list s\<rparr>)}"
proof -
  define n1 where "n1 = n0\<lparr>n_ip_addr := 0, n_netmask := 0, n_gw := 0, n_output := Netif_null_output_ip4,
    n_mtu := 0, n_flags := 0, n_dhcp := 0, n_state := st, n_num := netif_num s, n_input := inp\<rparr>"
  define s1 where "s1 = s\<lparr>netif_store := (netif_store s)(i \<mapsto> n1)\<rparr>"
  have s1: "upd_netif i (\<lambda>n. n\<lparr>n_ip_addr := 0, n_netmask := 0, n_gw := 0, n_output := Netif_null_output_ip4,
      n_mtu := 0, n_flags := 0, n_dhcp := 0, n_state := st, n_num := netif_num s, n_input := inp\<rparr>) s = Some s1"
    by (simp add: upd_netif_Some [OF i(2)] s1_def n1_def)
  have "netif_store s1 i = Some n1" "n_flags n1 = 0" by (simp_all add: s1_def n1_def)
  then obtain s2 n2 where s2: "netif_set_addr E i ip nm gw s1 = Some s2" "netif_list s2 = netif_list s"
      "netif_store s2 = (netif_store s)(i \<mapsto> n2)"
    using set_addr_down [OF E(1), of s1 i n1 ip nm gw] by (auto simp: s1_def)
  then obtain n s3 where s3: "init i s2 = Some (ERR_OK, s3)" "netif_store s3 = (netif_store s)(i \<mapsto> n)"
      "netif_list s3 = netif_list s"
    using E(2) unfolding init_ok_def by (metis fun_upd_same fun_upd_upd option.distinct(1))
  have "netif_add E i ip nm gw st init inp s = do {
      num \<leftarrow> num_loop (netif_store s3) i (netif_list s) (n_num n);
      Some (i, s3\<lparr>netif_store := (netif_store s)(i \<mapsto> n\<lparr>n_num := num\<rparr>),
        netif_num := (if num = 254 then 0 else num + 1), netif_list := i # netif_list s\<rparr>)}"
    using i(1) s1 s2(1) s3 by (simp add: netif_add_def upd_netif_Some)
  then show ?thesis using s3(2,3) by blast
qed

section \<open>Reading numbers\<close>

definition is_digit :: "u8 \<Rightarrow> bool" where
  "is_digit c \<longleftrightarrow> c - 0x30 < 10"

lemma atoi_digits_eq:
  assumes "length ds < f" "\<forall>i<length ds. str i = ds ! i" "\<forall>c\<in>set ds. is_digit c" "\<not> is_digit (str (length ds))"
  shows "atoi_digits f str n = Some (foldl (\<lambda>n c. 10 * n - ucast (c - 0x30)) n ds)"
  using assms
proof (induction ds arbitrary: f str n)
  case Nil
  then show ?case by (cases f) (simp_all add: is_digit_def)
next
  case (Cons d ds)
  then obtain f' where f: "f = Suc f'" by (cases f) auto
  have "str 0 = d" using Cons.prems(2) by force
  moreover have "\<forall>i<length ds. str (Suc i) = ds ! i" using Cons.prems(2) by force
  ultimately show ?case using Cons f by (simp add: is_digit_def)
qed

lemma digit_value: "d < 10 \<Longrightarrow> (ucast (0x30 + of_nat d - 0x30 :: u8) :: u32) = of_nat d" "d < 10 \<Longrightarrow> is_digit (0x30 + of_nat d)"
proof -
  assume "d < 10"
  then have d: "unat (of_nat d :: u8) = d" by (simp add: unat_of_nat_small)
  then show "is_digit (0x30 + of_nat d)" using \<open>d < 10\<close> by (simp add: is_digit_def word_less_nat_alt)
  have "(ucast (of_nat d :: u8) :: u32) = of_nat (unat (of_nat d :: u8))" by simp
  then show "(ucast (0x30 + of_nat d - 0x30 :: u8) :: u32) = of_nat d" by (simp only: d add_diff_cancel_left')
qed

lemma digit_not_special: "is_digit c \<Longrightarrow> \<not> (c = 0x20 \<or> c - 0x09 < 5) \<and> c \<noteq> 0x2D \<and> c \<noteq> 0x2B"
proof -
  assume "is_digit c"
  then have d: "unat (c - 0x30) < 10" by (simp add: is_digit_def word_less_nat_alt)
  then have "unat (0x30 + (c - 0x30)) = unat (0x30 :: u8) + unat (c - 0x30)" by (intro unat_plus_small) simp
  then have "unat c = 48 + unat (c - 0x30)" by simp
  moreover from this have "unat (c - 0x09) = unat c - 9" by (intro unat_minus_small [THEN trans]) (simp_all add: word_le_nat_alt)
  ultimately show ?thesis using d by (auto simp: word_less_nat_alt)
qed

lemma dec_value: "foldl (\<lambda>n c. 10 * n - ucast (c - 0x30)) 0 (dec k) = - (of_nat k :: u32)" "\<forall>c\<in>set (dec k). is_digit c"
proof (induction k rule: dec.induct)
  case (1 k)
  have split: "(of_nat k :: u32) = 10 * of_nat (k div 10) + of_nat (k mod 10)"
    by (metis mult_div_mod_eq of_nat_add of_nat_mult of_nat_numeral)
  show "foldl (\<lambda>n c. 10 * n - ucast (c - 0x30)) 0 (dec k) = - (of_nat k :: u32)"
  proof (cases "k < 10")
    case True
    then show ?thesis using digit_value(1) [of k] by (simp add: dec.simps [of k])
  next
    case False
    then show ?thesis
      unfolding dec.simps [of k] using 1(1) [OF False] digit_value(1) [of "k mod 10"] by (simp add: split)
  qed
  show "\<forall>c\<in>set (dec k). is_digit c"
    using 1(2) digit_value(2) [of k] digit_value(2) [of "k mod 10"] by (subst dec.simps) auto
qed

lemma atoi_dec:
  assumes "length (dec k) < f" "\<forall>i<length (dec k). str i = dec k ! i" "str (length (dec k)) = 0"
  shows "atoi f str = Some (of_nat k)"
proof -
  have ne: "dec k \<noteq> []" by (rule dec_nonzero(2))
  then have "is_digit (str 0)" using assms(2) dec_value(2) [of k] by (metis length_greater_0_conv nth_mem)
  then have c: "\<not> (str 0 = 0x20 \<or> str 0 - 0x09 < 5)" "str 0 \<noteq> 0x2D" "str 0 \<noteq> 0x2B"
    by (simp_all add: digit_not_special)
  have "\<not> is_digit (str (length (dec k)))" by (simp add: assms(3) is_digit_def)
  with assms dec_value have "atoi_digits f str 0 = Some (- of_nat k)" by (simp add: atoi_digits_eq)
  moreover have "atoi_skip f str = Some str" using c(1) assms(1) by (cases f) auto
  ultimately show ?thesis using c(2,3) by (simp add: atoi_def)
qed

section \<open>Properties\<close>

text \<open>
  C36.  \<^verbatim>\<open>netif_add\<close> always finds a number: with fewer than 255 interfaces in the list, the search ends
  and the new interface gets an index that is not 0 and that no other has, so that
  \<^verbatim>\<open>netif_get_by_index\<close> returns it; the interfaces already there keep their structs.
\<close>

theorem netif_add_own_index:
  assumes "addr_changed_ok E" "init_ok init" "netifs_ok s" "length (netif_list s) < 255"
    and "i \<noteq> 0" "i \<notin> set (netif_list s)" "netif_store s i = Some n0"
  shows "\<exists>s' n. netif_add E i ip nm gw st init inp s = Some (i, s') \<and> netifs_ok s' \<and>
    netif_list s' = i # netif_list s \<and> netif_store s' = (netif_store s)(i \<mapsto> n) \<and>
    netif_get_index n \<noteq> 0 \<and> netif_get_by_index (netif_get_index n) s' = i"
proof -
  let ?js = "netif_list s"
  obtain n s3 where s3: "netif_store s3 = (netif_store s)(i \<mapsto> n)" "netif_list s3 = ?js"
      "netif_add E i ip nm gw st init inp s = do {
        num \<leftarrow> num_loop (netif_store s3) i ?js (n_num n);
        Some (i, s3\<lparr>netif_store := (netif_store s)(i \<mapsto> n\<lparr>n_num := num\<rparr>),
          netif_num := (if num = 254 then 0 else num + 1), netif_list := i # ?js\<rparr>)}"
    using netif_add_search [OF assms(1,2,5,7,6)] by blast
  obtain free where "free \<noteq> 255" "free \<notin> nums (netif_store s3) ?js" using free_num [OF assms(4)] by blast
  moreover have "\<forall>j\<in>set ?js. netif_store s3 j \<noteq> None" using assms(3) by (simp add: s3(1) netifs_ok_def)
  ultimately obtain r where r: "num_loop (netif_store s3) i ?js (n_num n) = Some r"
      "r \<notin> nums (netif_store s3) ?js" "r \<noteq> 255"
    using num_loop_finds [OF assms(6), of "netif_store s3" free "n_num n"] assms(4) by auto
  define s' where "s' = s3\<lparr>netif_store := (netif_store s)(i \<mapsto> n\<lparr>n_num := r\<rparr>),
          netif_num := (if r = 254 then 0 else r + 1), netif_list := i # ?js\<rparr>"
  have "r \<notin> nums (netif_store s) ?js" using r(2) assms(6) by (simp add: s3(1) nums_upd)
  then have ok: "netifs_ok s'"
    by (intro netifs_ok_add [OF assms(3,6,5), where n = "n\<lparr>n_num := r\<rparr>"]) (simp_all add: s'_def r(3))
  have "netif_store s' i = Some (n\<lparr>n_num := r\<rparr>)" by (simp add: s'_def)
  note get_by_index_eq [OF ok _ this]
  then show ?thesis using s3(3) r(1) ok by (intro exI [of _ s'] exI [of _ "n\<lparr>n_num := r\<rparr>"]) (simp add: s'_def)
qed

text \<open>An interface in an empty list, and an \<^verbatim>\<open>init\<close> that names it.\<close>

definition demo_netif :: netif where
  "demo_netif = \<lparr>n_ip_addr = 0, n_netmask = 0, n_gw = 0, n_input = Null_fn, n_output = Null_fn, n_linkoutput = Null_fn,
     n_state = 0, n_dhcp = 0, n_mtu = 0, n_hwaddr = [0, 0, 0, 0, 0, 0], n_hwaddr_len = 0, n_flags = 0,
     n_name = (0x65, 0x6E), n_num = 0\<rparr>"

definition demo_netifs :: "addr list \<Rightarrow> (nat, unit) netifs" where
  "demo_netifs js = \<lparr>mem = (\<lambda>_. 0), kern = 0, dir = [], dir_loaded = False, files = [], scratch = [],
     heap_cur = 0, heap_end = 0, alloc = (), pbufs = (\<lambda>_. None), next_timeout = [],
     current_timeout_due_time = 0, tcpip_tcp_timer_active = False,
     netif_store = [0x3000 \<mapsto> demo_netif, 0x4000 \<mapsto> demo_netif], netif_list = js, netif_default = 0, netif_num = 0\<rparr>"

definition demo_netif_env :: "(unit, (nat, unit) netifs) netif_env" where
  "demo_netif_env = \<lparr>ne_timer = \<lparr>te_pbuf = \<lparr>e_malloc = (\<lambda>_ m. (0x1000, m)), e_free = (\<lambda>_ m. m), e_custom_free = (\<lambda>_ s. Some s)\<rparr>,
       te_tmr = (\<lambda>_ s. Some s), te_call = (\<lambda>_ _ s. Some s), te_tcp_pcbs = (\<lambda>_. False)\<rparr>,
     ne_ip_addr_changed = (\<lambda>_ _ s. Some s), ne_etharp_gratuitous = (\<lambda>_ s. Some s),
     ne_etharp_cleanup = (\<lambda>_ s. Some s), ne_dhcp_link_up = (\<lambda>_ s. Some s)\<rparr>"

definition demo_init :: "addr \<Rightarrow> (nat, unit) netifs \<Rightarrow> (err_t \<times> (nat, unit) netifs) option" where
  "demo_init i s = do {s1 \<leftarrow> upd_netif i (n_mtu_update (\<lambda>_. 1500)) s; Some (ERR_OK, s1)}"

lemma demo_init_ok: "init_ok demo_init"
  by (auto simp: init_ok_def demo_init_def upd_netif_def)

lemma demo_addr_changed_ok: "addr_changed_ok demo_netif_env"
  by (simp add: addr_changed_ok_def demo_netif_env_def)

theorem netif_add_own_index_witness:
  "\<exists>s' n. netif_add demo_netif_env 0x3000 None None None 0 demo_init Ethernet_input (demo_netifs [0x4000]) = Some (0x3000, s') \<and>
    netif_list s' = [0x3000, 0x4000] \<and> netif_store s' 0x3000 = Some n \<and>
    netif_get_index n \<noteq> 0 \<and> netif_get_by_index (netif_get_index n) s' = 0x3000"
proof -
  have "netifs_ok (demo_netifs [0x4000])" by (simp add: netifs_ok_def demo_netifs_def nums_def demo_netif_def)
  moreover have "netif_list (demo_netifs [0x4000]) = [0x4000]" "netif_store (demo_netifs [0x4000]) 0x3000 = Some demo_netif"
    by (simp_all add: demo_netifs_def)
  ultimately show ?thesis
    using netif_add_own_index [OF demo_addr_changed_ok demo_init_ok, of "demo_netifs [0x4000]" "0x3000" demo_netif None None None 0 Ethernet_input]
    by auto
qed

lemma ucast_u32_u8: "(ucast (ucast (x :: u8) :: u32) :: u8) = x"
  by (rule bit_word_eqI) (simp add: bit_simps)

text \<open>The name that \<^verbatim>\<open>netif_index_to_name\<close> writes: the two letters, the decimal number, a zero byte.\<close>

lemma index_to_name_eq:
  assumes "netifs_ok s" "j \<in> set (netif_list s)" "netif_store s j = Some n"
  shows "\<exists>s'. netif_index_to_name (netif_get_index n) nm s = Some (nm, s') \<and>
    netif_store s' = netif_store s \<and> netif_list s' = netif_list s \<and>
    mem s' nm = fst (n_name n) \<and> mem s' (nm + 1) = snd (n_name n) \<and> length (dec (unat (n_num n))) < 4 \<and>
    (\<forall>i < length (dec (unat (n_num n))). at (mem s') (nm + 2) i = dec (unat (n_num n)) ! i) \<and>
    at (mem s') (nm + 2) (length (dec (unat (n_num n)))) = 0"
proof -
  let ?ds = "dec (unat (n_num n))" and ?num = "ucast (netif_get_index n) - 1 :: u32"
  let ?m1 = "(mem s)(nm := fst (n_name n), nm + 1 := snd (n_name n))"
  have j: "j \<noteq> 0" "n_num n \<noteq> 255" using assms by (force simp: netifs_ok_def nums_def)+
  have "unat (n_num n) < 255" using unat_less_len [of "n_num n"] j(2) by (auto simp: word_unat_eq_iff)
  then have "unat (netif_get_index n) = unat (n_num n) + 1" by (simp add: netif_get_index_def unat_plus_small)
  then have "(of_nat (unat (netif_get_index n)) :: u32) = of_nat (unat (n_num n)) + 1" by (simp only: of_nat_add of_nat_1)
  then have num: "?num = of_nat (unat (n_num n))" by simp
  have "length ?ds < 4" using dec_length [of "unat (n_num n)"] unat_less_len [of "n_num n"] by simp
  have "unat ?num = unat (n_num n)"
    unfolding num using \<open>unat (n_num n) < 255\<close> by (intro unat_of_nat_small) simp
  then have sint: "sint ?num = int (unat (n_num n))"
    using \<open>unat (n_num n) < 255\<close> unfolding sint_u32 by simp
  then have "sint ?num \<noteq> - (2 ^ 31)" "\<not> sint ?num < 0" "nat \<bar>sint ?num\<bar> = unat (n_num n)" by (simp_all del: of_nat_unat)
  then obtain out where out: "lwip_itoa (mem_read ?m1 (nm + 2) 4) ?num = Some out" "length out = 4"
      "takeWhile (\<lambda>b. b \<noteq> 0) out = ?ds"
    using lwip_itoa_eq [of "mem_read ?m1 (nm + 2) 4" ?num] \<open>length ?ds < 4\<close> by (auto simp: itoa_sign_def)
  let ?s' = "s\<lparr>mem := mem_write ?m1 (nm + 2) out\<rparr>"
  have run: "netif_index_to_name (netif_get_index n) nm s = Some (nm, ?s')"
    using get_by_index_eq(2) [OF assms] j(1) assms(3) out(1) by (simp add: netif_index_to_name_def)
  have at: "at (mem ?s') (nm + 2) i = out ! i" if "i < 4" for i
    using that out(2) by (simp add: at_def mem_write_at)
  have "out ! length ?ds = 0"
    using nth_length_takeWhile [of "\<lambda>b. b \<noteq> 0" out] out \<open>length ?ds < 4\<close> by simp
  moreover have "out ! i = ?ds ! i" if "i < length ?ds" for i
    using takeWhile_nth [of i "\<lambda>b. b \<noteq> 0" out] that out(3) by simp
  moreover have "mem ?s' nm = fst (n_name n)" "mem ?s' (nm + 1) = snd (n_name n)"
    using out(2) unat_neg [of "1 :: u64"] by (simp_all add: mem_write_at)
  ultimately show ?thesis using run at \<open>length ?ds < 4\<close> by (intro exI [of _ ?s']) simp
qed

text \<open>
  Names and indices of interfaces agree: the name that \<^verbatim>\<open>netif_index_to_name\<close> writes for an
  interface of the list (its two letters, then its number in decimal) is found by \<^verbatim>\<open>netif_find\<close> and
  leads back to the interface and to its index.
\<close>

lemma netif_name_roundtrip:
  assumes "netifs_ok s" "j \<in> set (netif_list s)" "netif_store s j = Some n" "nm \<noteq> 0" "4 \<le> f"
  shows "\<exists>s'. netif_index_to_name (netif_get_index n) nm s = Some (nm, s') \<and>
    netif_find f nm s' = Some j \<and> netif_name_to_index f nm s' = Some (netif_get_index n)"
proof -
  let ?ds = "dec (unat (n_num n))"
  obtain s' where s': "netif_index_to_name (netif_get_index n) nm s = Some (nm, s')"
      "netif_store s' = netif_store s" "netif_list s' = netif_list s"
      "mem s' nm = fst (n_name n)" "mem s' (nm + 1) = snd (n_name n)" "length ?ds < 4"
      "\<forall>i < length ?ds. at (mem s') (nm + 2) i = ?ds ! i" "at (mem s') (nm + 2) (length ?ds) = 0"
    using index_to_name_eq [OF assms(1-3)] by blast
  have v: "atoi f (at (mem s') (nm + 2)) = Some (of_nat (unat (n_num n)))"
    using atoi_dec [OF _ s'(7,8)] s'(6) assms(5) by simp
  let ?P = "\<lambda>j. case netif_store s' j of None \<Rightarrow> False
    | Some n' \<Rightarrow> n_num n = n_num n' \<and> mem s' nm = fst (n_name n') \<and> mem s' (nm + 1) = snd (n_name n')"
  have zero: "mem s' (nm + 2) = 0x30" if "n_num n = 0"
    using s'(7) that by (simp add: dec.simps at_def)
  have Pj: "?P j" using assms(3) s' by simp
  then have "find ?P (netif_list s') \<noteq> None" using assms(2) s'(3) by (auto simp: find_None_iff)
  then obtain k where k: "find ?P (netif_list s') = Some k" by blast
  then have "k \<in> set (netif_list s)" "?P k" using s'(3) by (auto simp: find_Some_iff)
  then have "k = j" using assms(1-3) s'(2) by (fastforce simp: netifs_ok_def inj_on_def split: option.splits)
  moreover have "(ucast (of_nat (unat (n_num n)) :: u32) :: u8) = n_num n" by (simp add: ucast_u32_u8)
  ultimately have "netif_find f nm s' = Some j"
    using v k zero assms(4) by (auto simp: netif_find_def Let_def ucast_u32_u8 cong: option.case_cong)
  moreover have "j \<noteq> 0" using assms(1,2) by (auto simp: netifs_ok_def)
  ultimately show ?thesis using s'(1,2) assms(3) by (simp add: netif_name_to_index_def)
qed

end
