(* ===== verification/BM_Ethernet.thy ===== *)
theory BM_Ethernet
  imports BM_Netif BM_Pbuf_Copy
begin

text \<open>
  The Ethernet layer: the driver functions of \<^verbatim>\<open>src/app/net_glue.c\<close> (\<^verbatim>\<open>low_level_output\<close>,
  \<^verbatim>\<open>bmos_netif_init\<close>) and lwIP's \<^verbatim>\<open>netif/ethernet.c\<close>.  The protocols above (IP, ARP, DHCP, TCP) are an
  environment; the lemmas follow a packet from lwIP's chain to the frame handed to the kernel.
\<close>

section \<open>State and environment\<close>

text \<open>The seed of \<^verbatim>\<open>rand\<close> in the C library.\<close>

record ('k, 'm) link = "('k, 'm) netifs" +
  rand_seed :: u64

text \<open>
  The addresses of the static objects \<^verbatim>\<open>txbuf\<close> and \<^verbatim>\<open>bmos_netif\<close> and of the kernel's receive buffer, and the
  protocols.
\<close>

record ('m, 's) link_env =
  le_netif :: "('m, 's) netif_env"
  le_txbuf :: addr
  le_rxbuf :: addr
  le_bmos_netif :: addr
  le_ip4_input :: "addr \<Rightarrow> addr \<Rightarrow> 's \<Rightarrow> 's option"
  le_etharp_input :: "addr \<Rightarrow> addr \<Rightarrow> 's \<Rightarrow> 's option"
  le_linkoutput :: "netif_fn \<Rightarrow> addr \<Rightarrow> addr \<Rightarrow> 's \<Rightarrow> (err_t \<times> 's) option"
  le_input :: "netif_fn \<Rightarrow> addr \<Rightarrow> addr \<Rightarrow> 's \<Rightarrow> (err_t \<times> 's) option"
  le_udp_init :: "'s \<Rightarrow> 's option"
  le_tcp_init :: "'s \<Rightarrow> 's option"
  le_dhcp_start :: "addr \<Rightarrow> 's \<Rightarrow> 's option"
  le_dhcp_state :: "addr \<Rightarrow> 's \<Rightarrow> u8"

abbreviation le_pbuf :: "('m, 's) link_env \<Rightarrow> ('m, 's) pbuf_env" where
  "le_pbuf E \<equiv> te_pbuf (ne_timer (le_netif E))"

section \<open>The random numbers\<close>

definition srand :: "u32 \<Rightarrow> ('k, 'm, 'z) link_scheme \<Rightarrow> ('k, 'm, 'z) link_scheme" where
  "srand v s = s\<lparr>rand_seed := ucast (v - 1)\<rparr>"

definition rand :: "('k, 'm, 'z) link_scheme \<Rightarrow> u32 \<times> ('k, 'm, 'z) link_scheme" where
  "rand s = (let seed = 6364136223846793005 * rand_seed s + 1
             in (ucast (drop_bit 33 seed), s\<lparr>rand_seed := seed\<rparr>))"

definition bmos_lwip_rand :: "('k, 'm, 'z) link_scheme \<Rightarrow> u32 \<times> ('k, 'm, 'z) link_scheme" where
  "bmos_lwip_rand s = rand s"

section \<open>The driver\<close>

definition low_level_output :: "'k kernel \<Rightarrow> ('m, ('k, 'm, 'z) link_scheme) link_env \<Rightarrow> addr \<Rightarrow> ('k, 'm, 'z) link_scheme \<Rightarrow> (err_t \<times> ('k, 'm, 'z) link_scheme) option" where
  "low_level_output K E p s = do {
     b \<leftarrow> pbufs s p;
     if p_tot_len b > 1522 then Some (ERR_BUF, s)
     else do {
       (_, s1) \<leftarrow> pbuf_copy_partial p (le_txbuf E) (p_tot_len b) 0 s;
       b1 \<leftarrow> pbufs s1 p;
       Some (ERR_OK, b_net_tx K (mem_read (mem s1) (le_txbuf E) (unat (p_tot_len b1))) 0 s1)}}"

text \<open>The six octets of the MAC address in the word that \<^verbatim>\<open>NET_STATUS\<close> returns.\<close>

definition mac_octets :: "u64 \<Rightarrow> u8 list" where
  "mac_octets mac = [ucast (drop_bit 40 mac AND 0xFF), ucast (drop_bit 32 mac AND 0xFF), ucast (drop_bit 24 mac AND 0xFF),
     ucast (drop_bit 16 mac AND 0xFF), ucast (drop_bit 8 mac AND 0xFF), ucast (mac AND 0xFF)]"

definition bmos_netif_init :: "'k kernel \<Rightarrow> addr \<Rightarrow> ('k, 'm, 'z) link_scheme \<Rightarrow> (err_t \<times> ('k, 'm, 'z) link_scheme) option" where
  "bmos_netif_init K i s = do {
     let (mac, s1) = b_system K NET_STATUS 0 0 s;
     s2 \<leftarrow> upd_netif i (\<lambda>n. n\<lparr>n_name := (0x65, 0x6E), n_output := Etharp_output, n_linkoutput := Low_level_output,
            n_mtu := 1500, n_hwaddr_len := 6,
            n_flags := NETIF_FLAG_BROADCAST OR NETIF_FLAG_ETHARP OR NETIF_FLAG_LINK_UP, n_hwaddr := mac_octets mac\<rparr>) s1;
     Some (ERR_OK, s2)}"

text \<open>The call \<^verbatim>\<open>netif->linkoutput(netif, p)\<close>.\<close>

definition linkoutput :: "'k kernel \<Rightarrow> ('m, ('k, 'm, 'z) link_scheme) link_env \<Rightarrow> netif_fn \<Rightarrow> addr \<Rightarrow> addr \<Rightarrow> ('k, 'm, 'z) link_scheme \<Rightarrow> (err_t \<times> ('k, 'm, 'z) link_scheme) option" where
  "linkoutput K E f i p s =
     (case f of Null_fn \<Rightarrow> None
      | Low_level_output \<Rightarrow> low_level_output K E p s
      | _ \<Rightarrow> le_linkoutput E f i p s)"

section \<open>Frames\<close>

definition SIZEOF_ETH_HDR :: u16 where "SIZEOF_ETH_HDR = 14"
definition PBUF_FLAG_LLBCAST :: u8 where "PBUF_FLAG_LLBCAST = 0x08"
definition PBUF_FLAG_LLMCAST :: u8 where "PBUF_FLAG_LLMCAST = 0x10"

lemmas ethernet_consts = SIZEOF_ETH_HDR_def PBUF_FLAG_LLBCAST_def PBUF_FLAG_LLMCAST_def

text \<open>The flags that the destination address adds.\<close>

definition dest_flags :: "u8 list \<Rightarrow> u8" where
  "dest_flags dest =
     (if dest ! 0 AND 1 = 0 then 0
      else if dest ! 0 = 0x01 then (if dest ! 1 = 0x00 \<and> dest ! 2 = 0x5E then PBUF_FLAG_LLMCAST else 0)
      else if dest = [0xFF, 0xFF, 0xFF, 0xFF, 0xFF, 0xFF] then PBUF_FLAG_LLBCAST else 0)"

definition free_and_return :: "('m, ('k, 'm, 'z) link_scheme) link_env \<Rightarrow> addr \<Rightarrow> ('k, 'm, 'z) link_scheme \<Rightarrow> (err_t \<times> ('k, 'm, 'z) link_scheme) option" where
  "free_and_return E p s = do {(_, s1) \<leftarrow> pbuf_free (le_pbuf E) p s; Some (ERR_OK, s1)}"

text \<open>The two protocols of the switch: check the flag, move over the header, pass the packet on.\<close>

definition pass_up :: "('m, ('k, 'm, 'z) link_scheme) link_env \<Rightarrow> (addr \<Rightarrow> addr \<Rightarrow> ('k, 'm, 'z) link_scheme \<Rightarrow> ('k, 'm, 'z) link_scheme option) \<Rightarrow> netif \<Rightarrow> addr \<Rightarrow> addr \<Rightarrow> ('k, 'm, 'z) link_scheme \<Rightarrow> (err_t \<times> ('k, 'm, 'z) link_scheme) option" where
  "pass_up E up n p i s =
     (if n_flags n AND NETIF_FLAG_ETHARP = 0 then free_and_return E p s
      else do {
        (r, s1) \<leftarrow> pbuf_remove_header p (ucast SIZEOF_ETH_HDR) s;
        if r \<noteq> 0 then free_and_return E p s1
        else do {s2 \<leftarrow> up p i s1; Some (ERR_OK, s2)}})"

definition ethernet_input :: "('m, ('k, 'm, 'z) link_scheme) link_env \<Rightarrow> addr \<Rightarrow> addr \<Rightarrow> ('k, 'm, 'z) link_scheme \<Rightarrow> (err_t \<times> ('k, 'm, 'z) link_scheme) option" where
  "ethernet_input E p i s = do {
     b \<leftarrow> pbufs s p;
     if p_len b \<le> SIZEOF_ETH_HDR then free_and_return E p s
     else do {
       n \<leftarrow> netif_store s i;
       let ethhdr = p_payload b;
       let type = (of_le_bytes (mem_read (mem s) (ethhdr + 12) 2) :: u16);
       let b1 = (if p_if_idx b = 0 then b\<lparr>p_if_idx := netif_get_index n\<rparr> else b);
       let s1 = put_pbuf p (b1\<lparr>p_flags := p_flags b1 OR dest_flags (mem_read (mem s) ethhdr 6)\<rparr>) s;
       if type = lwip_htons 0x0800 then pass_up E (le_ip4_input E) n p i s1
       else if type = lwip_htons 0x0806 then pass_up E (le_etharp_input E) n p i s1
       else free_and_return E p s1}}"

text \<open>The MAC addresses are passed as their octets.\<close>

definition ethernet_output :: "'k kernel \<Rightarrow> ('m, ('k, 'm, 'z) link_scheme) link_env \<Rightarrow> addr \<Rightarrow> addr \<Rightarrow> u8 list \<Rightarrow> u8 list \<Rightarrow> u16 \<Rightarrow> ('k, 'm, 'z) link_scheme \<Rightarrow> (err_t \<times> ('k, 'm, 'z) link_scheme) option" where
  "ethernet_output K E i p src dst eth_type s = do {
     (r, s1) \<leftarrow> pbuf_add_header p (ucast SIZEOF_ETH_HDR) s;
     if r \<noteq> 0 then Some (ERR_BUF, s1)
     else do {
       b \<leftarrow> pbufs s1 p;
       let ethhdr = p_payload b;
       let m1 = mem_write (mem s1) (ethhdr + 12) (le_bytes 2 (lwip_htons eth_type));
       let m2 = mem_write m1 ethhdr dst;
       let s2 = s1\<lparr>mem := mem_write m2 (ethhdr + 6) src\<rparr>;
       n \<leftarrow> netif_store s2 i;
       if n_hwaddr_len n \<noteq> 6 then None
       else linkoutput K E (n_linkoutput n) i p s2}}"

section \<open>From a chain to a frame\<close>

lemma low_level_output_eq:
  assumes "packet (pbufs s) p as n" "as \<noteq> []" "n \<le> 1522" "le_txbuf E \<noteq> 0" "off_block (pbufs s) as (le_txbuf E) n"
  shows "low_level_output K E p s = Some (ERR_OK, s\<lparr>mem := mem_write (mem s) (le_txbuf E) (data s as),
    kern := k_net_tx K (data s as) 0 (kern s)\<rparr>)"
proof -
  obtain a as' b where b: "as = a # as'" "p = a" "pbufs s p = Some b" "unat (p_tot_len b) = n"
    using assms(1,2) by (cases as) (auto simp: packet_Cons)
  have len: "length (data s as) = n" using assms(1) payload_length by (auto simp: packet_def)
  have chain: "chain (pbufs s) p as" using assms(1) by (simp add: packet_def)
  have "pbuf_copy_partial p (le_txbuf E) (p_tot_len b) 0 s =
      Some (of_nat n, s\<lparr>mem := mem_write (mem s) (le_txbuf E) (data s as)\<rparr>)"
    using pbuf_copy_partial_eq [OF chain assms(2,4), of "p_tot_len b" 0] assms(5) b(4) len by simp
  moreover have "\<not> p_tot_len b > 1522" using assms(3) b(4) by (simp add: word_less_nat_alt)
  moreover have "mem_read (mem_write (mem s) (le_txbuf E) (data s as)) (le_txbuf E) n = data s as"
    using mem_read_write_same [of "data s as"] len assms(3) by simp
  ultimately show ?thesis using b by (simp add: low_level_output_def b_net_tx_def)
qed

lemma low_level_output_long:
  assumes "packet (pbufs s) p as n" "as \<noteq> []" "1522 < n"
  shows "low_level_output K E p s = Some (ERR_BUF, s)"
  using assms by (cases as) (auto simp: packet_Cons low_level_output_def word_less_nat_alt)

text \<open>The header written by \<^verbatim>\<open>ethernet_output\<close>, read back, and what stays behind it.\<close>

lemma eth_header_bytes:
  assumes "length dst = 6" "length src = 6" "length ty = 2" "k < 65536"
  shows "mem_read (mem_write (mem_write (mem_write m (a + 12) ty) a dst) (a + 6) src) a (14 + k) =
    dst @ src @ ty @ mem_read m (a + 14) k"
proof -
  let ?m1 = "mem_write m (a + 12) ty"
  let ?m2 = "mem_write ?m1 a dst"
  have "mem_read (mem_write ?m2 (a + 6) src) a (14 + k) = mem_read ?m2 a 6 @ src @ mem_read ?m2 (a + 12) (2 + k)"
    using mem_read_write_in [of 6 src "2 + k" ?m2 a] assms(2,4) by (simp add: add.commute)
  moreover have "mem_read ?m2 a 6 = dst" using mem_read_write_same [of dst ?m1 a] assms(1) by simp
  moreover have "sep (a + 12) (2 + k) a 6" using assms(4) by (simp add: sep_def)
  then have "mem_read ?m2 (a + 12) (2 + k) = mem_read ?m1 (a + 12) (2 + k)"
    using assms(1) by (simp add: mem_read_write_sep)
  moreover have "mem_read ?m1 (a + 12) (2 + k) = ty @ mem_read m (a + 14) k"
    using mem_read_write_in [of 0 ty k m "a + 12"] assms(3,4) by (simp add: mem_read_def [of _ _ 0] add.commute)
  ultimately show ?thesis by simp
qed

text \<open>The packet with room for the header in front of its first buffer.\<close>

definition with_header :: "pbuf \<Rightarrow> pbuf" where
  "with_header b = b\<lparr>p_payload := p_payload b - 14, p_tot_len := p_tot_len b + 14, p_len := p_len b + 14\<rparr>"

lemma add_eth_header:
  assumes "packet (pbufs s) p (p # as) n" "pbufs s p = Some b" "n + 14 < 65536"
    and "p_type_internal b AND PBUF_TYPE_FLAG_STRUCT_DATA_CONTIGUOUS \<noteq> 0" "p + SIZEOF_STRUCT_PBUF \<le> p_payload b - 14"
  shows "pbuf_add_header p 14 s = Some (0, put_pbuf p (with_header b) s)"
    "packet ((pbufs s)(p \<mapsto> with_header b)) p (p # as) (n + 14)"
    "unat (p_len (with_header b)) = unat (p_len b) + 14"
proof -
  have b: "p \<noteq> 0" "p \<notin> set as" "unat (p_tot_len b) = n" "unat (p_len b) \<le> n" "packet (pbufs s) (p_next b) as (n - unat (p_len b))"
    using assms(1,2) by (auto simp: packet_Cons)
  have u: "unat (p_tot_len b + 14) = n + 14" "unat (p_len b + 14) = unat (p_len b) + 14"
    using b assms(3) by (simp_all add: unat_plus_small)
  then show "unat (p_len (with_header b)) = unat (p_len b) + 14" by (simp add: with_header_def)
  have "unat (14 :: u16) = 14" by simp
  then have "\<not> 14 + p_tot_len b < 14" using u(1) by (simp only: word_less_nat_alt add.commute [of 14 "p_tot_len b"])
  then show "pbuf_add_header p 14 s = Some (0, put_pbuf p (with_header b) s)"
    using assms(2,4,5) b(1) by (simp add: pbuf_add_header_def pbuf_add_header_impl_def with_header_def Let_def not_less)
  show "packet ((pbufs s)(p \<mapsto> with_header b)) p (p # as) (n + 14)"
    using b u by (simp add: packet_Cons packet_upd with_header_def)
qed

text \<open>The header in memory and the payload behind it, as \<^verbatim>\<open>ethernet_output\<close> leaves them.\<close>

definition eth_written :: "memory \<Rightarrow> addr \<Rightarrow> u8 list \<Rightarrow> u8 list \<Rightarrow> u16 \<Rightarrow> memory" where
  "eth_written m a src dst eth_type = mem_write (mem_write (mem_write m (a + 12) (rev (le_bytes 2 eth_type))) a dst) (a + 6) src"

lemma eth_written_off:
  assumes "sep x k a 14" "length src = 6" "length dst = 6"
  shows "mem_read (eth_written m a src dst ty) x k = mem_read m x k"
proof -
  have sp: "sep x k (a + of_nat i) j" if "i + j \<le> 14" for i j using sep_sub [OF assms(1) that] by simp
  have "sep x k (a + 12) 2" "sep x k a 6" "sep x k (a + 6) 6" using sp [of 12 2] sp [of 0 6] sp [of 6 6] by simp_all
  then show ?thesis using assms(2,3) by (simp add: eth_written_def mem_read_write_sep)
qed

lemma eth_written_data:
  assumes "packet (pbufs s) p (p # as) n" "pbufs s p = Some b" "n + 14 < 65536" "length src = 6" "length dst = 6"
    and "spread ((pbufs s)(p \<mapsto> with_header b)) (p # as)"
  shows "payload (eth_written (mem s) (p_payload b - 14) src dst eth_type) ((pbufs s)(p \<mapsto> with_header b)) (p # as) =
    dst @ src @ rev (le_bytes 2 eth_type) @ data s (p # as)"
proof -
  define P where "P = (pbufs s)(p \<mapsto> with_header b)"
  define a where "a = p_payload b - 14"
  define m where "m = eth_written (mem s) a src dst eth_type"
  have lb: "unat (p_len b) \<le> n" "p \<notin> set as" using assms(1,2) by (auto simp: packet_Cons)
  have l: "unat (p_len (with_header b)) = unat (p_len b) + 14"
    using lb assms(3) by (simp add: with_header_def unat_plus_small)
  have wb: "p_payload (with_header b) = a" by (simp add: with_header_def a_def)
  have "mem_read m a (14 + unat (p_len b)) = dst @ src @ rev (le_bytes 2 eth_type) @ mem_read (mem s) (a + 14) (unat (p_len b))"
    unfolding m_def eth_written_def
    using eth_header_bytes [OF assms(5,4), of "rev (le_bytes 2 eth_type)" "unat (p_len b)" "mem s" a] unat_u16_less [of "p_len b"] by simp
  then have first: "pbuf_bytes m (with_header b) = dst @ src @ rev (le_bytes 2 eth_type) @ pbuf_bytes (mem s) b"
    using l wb by (simp add: pbuf_bytes_def a_def add.commute)
  have offb: "off_block P as a (14 + unat (p_len b))"
    using assms(6) l by (simp add: P_def wb add.commute)
  have off: "payload (mem_write m0 (a + of_nat j) bs) P as = payload m0 P as" if "j + length bs \<le> 14" for m0 j bs
    using payload_write_off [OF off_block_sub [OF offb, of j "length bs"]] that unat_u16_less [of "p_len b"] by simp
  have "payload m P as = payload (mem s) P as"
    unfolding m_def eth_written_def using off [of 6 src] off [of 0 dst] off [of 12 "rev (le_bytes 2 eth_type)"] assms(4,5) by simp
  moreover have "payload (mem s) P as = payload (mem s) (pbufs s) as" using lb(2) by (simp add: P_def)
  ultimately show ?thesis using first assms(2) by (simp add: P_def m_def a_def)
qed

lemma ethernet_output_eq:
  assumes "packet (pbufs s) p (p # as) n" "pbufs s p = Some b" "n + 14 \<le> 1522"
    and "p_type_internal b AND PBUF_TYPE_FLAG_STRUCT_DATA_CONTIGUOUS \<noteq> 0" "p + SIZEOF_STRUCT_PBUF \<le> p_payload b - 14"
    and "spread ((pbufs s)(p \<mapsto> with_header b)) (p # as)"
    and "off_block ((pbufs s)(p \<mapsto> with_header b)) (p # as) (le_txbuf E) (n + 14)" "le_txbuf E \<noteq> 0"
    and "netif_store s i = Some nif" "n_hwaddr_len nif = 6" "n_linkoutput nif = Low_level_output"
    and "length src = 6" "length dst = 6"
  shows "ethernet_output K E i p src dst eth_type s = Some (ERR_OK, s\<lparr>pbufs := (pbufs s)(p \<mapsto> with_header b),
    mem := mem_write (eth_written (mem s) (p_payload b - 14) src dst eth_type) (le_txbuf E) (dst @ src @ rev (le_bytes 2 eth_type) @ data s (p # as)),
    kern := k_net_tx K (dst @ src @ rev (le_bytes 2 eth_type) @ data s (p # as)) 0 (kern s)\<rparr>)"
proof -
  define P where "P = (pbufs s)(p \<mapsto> with_header b)"
  define m where "m = eth_written (mem s) (p_payload b - 14) src dst eth_type"
  define s2 where "s2 = s\<lparr>pbufs := P, mem := m\<rparr>"
  note hd = add_eth_header [OF assms(1,2) _ assms(4,5)]
  have pk: "packet P p (p # as) (n + 14)" using hd(2) assms(3) by (simp add: P_def)
  have d: "data s2 (p # as) = dst @ src @ rev (le_bytes 2 eth_type) @ data s (p # as)"
    using eth_written_data [OF assms(1,2) _ assms(12,13,6)] assms(3) by (simp add: s2_def P_def m_def)
  have "ethernet_output K E i p src dst eth_type s = low_level_output K E p s2"
    using hd(1) assms(3,9-11)
    by (simp add: ethernet_output_def SIZEOF_ETH_HDR_def put_pbuf_def linkoutput_def le_bytes_htons s2_def P_def m_def
        eth_written_def with_header_def Let_def)
  also have "\<dots> = Some (ERR_OK, s2\<lparr>mem := mem_write (mem s2) (le_txbuf E) (data s2 (p # as)),
      kern := k_net_tx K (data s2 (p # as)) 0 (kern s2)\<rparr>)"
    using pk assms(3,7,8) by (intro low_level_output_eq [where n = "n + 14"]) (simp_all add: s2_def P_def)
  finally show ?thesis unfolding d by (simp add: s2_def P_def m_def)
qed

section \<open>Properties\<close>

text \<open>
  C29.  Sending: \<^verbatim>\<open>ethernet_output\<close> on the BareMetal interface hands the kernel exactly one frame, the
  destination and source addresses, the type in network order and then the bytes of the packet,
  whatever buffers the packet is chained from.  The packet has room for the header in its first
  buffer, the frame is at most 1522 bytes, and the buffers overlap neither each other nor the
  driver's own buffer.
\<close>

theorem ethernet_output_frame:
  assumes "packet (pbufs s) p (p # as) n" "pbufs s p = Some b" "n + 14 \<le> 1522"
    and "p_type_internal b AND PBUF_TYPE_FLAG_STRUCT_DATA_CONTIGUOUS \<noteq> 0" "p + SIZEOF_STRUCT_PBUF \<le> p_payload b - 14"
    and "spread ((pbufs s)(p \<mapsto> with_header b)) (p # as)"
    and "off_block ((pbufs s)(p \<mapsto> with_header b)) (p # as) (le_txbuf E) (n + 14)" "le_txbuf E \<noteq> 0"
    and "netif_store s i = Some nif" "n_hwaddr_len nif = 6" "n_linkoutput nif = Low_level_output"
    and "length src = 6" "length dst = 6"
  shows "\<exists>s'. ethernet_output K E i p src dst eth_type s = Some (ERR_OK, s') \<and>
    kern s' = k_net_tx K (dst @ src @ rev (le_bytes 2 eth_type) @ data s (p # as)) 0 (kern s)"
  using ethernet_output_eq [OF assms] by simp

text \<open>A packet of two buffers with room for the header, and an interface with its address.\<close>

definition demo_eth_pbuf :: pbuf where
  "demo_eth_pbuf = \<lparr>p_next = 0x2000, p_payload = 0x1040, p_tot_len = 5, p_len = 3, p_type_internal = 0x80,
     p_flags = 0, p_ref = 1, p_if_idx = 0\<rparr>"

definition demo_link :: "(sim, u64) link" where
  "demo_link = \<lparr>mem = mem_write (mem_write (\<lambda>_. 0) 0x1040 [10, 20, 30]) 0x2020 [40, 50], kern = sim_blank,
     dir = [], dir_loaded = False, files = [], scratch = [], heap_cur = 0, heap_end = 0, alloc = 0x10000,
     pbufs = [0x1000 \<mapsto> demo_eth_pbuf, 0x2000 \<mapsto> demo_pbuf2], next_timeout = [],
     current_timeout_due_time = 0, tcpip_tcp_timer_active = False,
     netif_store = [0x3000 \<mapsto> demo_netif\<lparr>n_hwaddr_len := 6, n_linkoutput := Low_level_output\<rparr>],
     netif_list = [0x3000], netif_default = 0x3000, netif_num = 1, rand_seed = 0\<rparr>"

definition demo_link_env :: "(u64, (sim, u64) link) link_env" where
  "demo_link_env = \<lparr>le_netif = \<lparr>ne_timer = \<lparr>te_pbuf = \<lparr>e_malloc = (\<lambda>n a. (a, a + n)), e_free = (\<lambda>_ m. m), e_custom_free = (\<lambda>_ s. Some s)\<rparr>,
         te_tmr = (\<lambda>_ s. Some s), te_call = (\<lambda>_ _ s. Some s), te_tcp_pcbs = (\<lambda>_. False)\<rparr>,
       ne_ip_addr_changed = (\<lambda>_ _ s. Some s), ne_etharp_gratuitous = (\<lambda>_ s. Some s),
       ne_etharp_cleanup = (\<lambda>_ s. Some s), ne_dhcp_link_up = (\<lambda>_ s. Some s)\<rparr>,
     le_txbuf = 0x8000, le_rxbuf = 0xA000, le_bmos_netif = 0x3000,
     le_ip4_input = (\<lambda>_ _ s. Some s), le_etharp_input = (\<lambda>_ _ s. Some s),
     le_linkoutput = (\<lambda>_ _ _ s. Some (0, s)), le_input = (\<lambda>_ _ _ s. Some (0, s)),
     le_udp_init = (\<lambda>s. Some s), le_tcp_init = (\<lambda>s. Some s), le_dhcp_start = (\<lambda>_ s. Some s), le_dhcp_state = (\<lambda>_ _. 10)\<rparr>"

lemmas demo_link_eval = demo_link_def demo_eth_pbuf_def demo_pbuf2_def demo_netif_def

lemma demo_link_packet: "packet (pbufs demo_link) 0x1000 [0x1000, 0x2000] 5"
  "data demo_link [0x1000, 0x2000] = [10, 20, 30, 40, 50]"
  by (simp_all add: demo_link_eval packet_def pbuf_bytes_def mem_read_def upt_rec)

theorem ethernet_output_frame_witness:
  "\<exists>s'. ethernet_output sim_kernel demo_link_env 0x3000 0x1000 [2, 0, 0, 0, 0, 1] [2, 0, 0, 0, 0, 9] 0x0800 demo_link = Some (ERR_OK, s') \<and>
    sim_tx (kern s') = [[2, 0, 0, 0, 0, 9] @ [2, 0, 0, 0, 0, 1] @ [8, 0] @ [10, 20, 30, 40, 50]]"
proof -
  let ?P = "(pbufs demo_link)(0x1000 \<mapsto> with_header demo_eth_pbuf)"
  have b: "pbufs demo_link 0x1000 = Some demo_eth_pbuf" "netif_store demo_link 0x3000 = Some (demo_netif\<lparr>n_hwaddr_len := 6, n_linkoutput := Low_level_output\<rparr>)"
    by (simp_all add: demo_link_def)
  have "spread ?P [0x1000, 0x2000]" "off_block ?P [0x1000, 0x2000] (le_txbuf demo_link_env) 19"
    "p_type_internal demo_eth_pbuf AND PBUF_TYPE_FLAG_STRUCT_DATA_CONTIGUOUS \<noteq> 0"
    "0x1000 + SIZEOF_STRUCT_PBUF \<le> p_payload demo_eth_pbuf - 14"
    by (simp_all add: demo_link_eval with_header_def sep_def demo_link_env_def pbuf_consts SIZEOF_STRUCT_PBUF_def LWIP_MEM_ALIGN_SIZE_def)
  moreover have "rev (le_bytes 2 (0x0800 :: u16)) = [8, 0]" by (simp add: le_bytes_2)
  moreover have "sim_tx (kern demo_link) = []" by (simp add: demo_link_def sim_blank_def)
  ultimately show ?thesis
    using ethernet_output_frame [OF demo_link_packet(1) b(1), of demo_link_env "0x3000" _ "[2, 0, 0, 0, 0, 1]" "[2, 0, 0, 0, 0, 9]" sim_kernel "0x0800", OF _ _ _ _ _ _ b(2)]
    unfolding demo_link_packet(2) by (auto simp: demo_link_env_def sim_kernel_def)
qed

end
