(* ===== verification/BM_Net_Glue.thy ===== *)
theory BM_Net_Glue
  imports BM_Ethernet
begin

text \<open>
  The rest of \<^verbatim>\<open>src/app/net_glue.c\<close>: bringing lwIP up, the poll that stands in for its thread, and the
  wait for an address.  The blocking calls of this file and of \<^verbatim>\<open>net_shim.c\<close> all poll until something
  has happened or a time has passed; that loop is \<open>block_on\<close>, a partial function, since a kernel whose
  clock stands still never ends it.
\<close>

section \<open>Bringing the network up\<close>

text \<open>In this configuration the other modules of \<^verbatim>\<open>lwip_init\<close> have nothing to initialise.\<close>

definition lwip_init :: "'k kernel \<Rightarrow> ('m, ('k, 'm, 'z) link_scheme) link_env \<Rightarrow> ('k, 'm, 'z) link_scheme \<Rightarrow> ('k, 'm, 'z) link_scheme option" where
  "lwip_init K E s = do {
     s1 \<leftarrow> le_udp_init E s;
     s2 \<leftarrow> le_tcp_init E s1;
     sys_timeouts_init K (ne_timer (le_netif E)) s2}"

definition net_init :: "'k kernel \<Rightarrow> ('m, ('k, 'm, 'z) link_scheme) link_env \<Rightarrow> ('k, 'm, 'z) link_scheme \<Rightarrow> ('k, 'm, 'z) link_scheme option" where
  "net_init K E s = do {
     let (ns, s0) = b_system K TIMECOUNTER 0 0 s;
     s1 \<leftarrow> lwip_init K E (srand (ucast ns) s0);
     (_, s2) \<leftarrow> netif_add (le_netif E) (le_bmos_netif E) (Some 0) (Some 0) (Some 0) 0 (bmos_netif_init K) Ethernet_input s1;
     s3 \<leftarrow> netif_set_up (le_netif E) (le_bmos_netif E) (netif_set_default (le_bmos_netif E) s2);
     le_dhcp_start E (le_bmos_netif E) s3}"

section \<open>Polling\<close>

text \<open>The call \<^verbatim>\<open>bmos_netif.input(p, &bmos_netif)\<close>.\<close>

definition call_input :: "('m, ('k, 'm, 'z) link_scheme) link_env \<Rightarrow> netif_fn \<Rightarrow> addr \<Rightarrow> addr \<Rightarrow> ('k, 'm, 'z) link_scheme \<Rightarrow> (err_t \<times> ('k, 'm, 'z) link_scheme) option" where
  "call_input E f p i s =
     (case f of Null_fn \<Rightarrow> None
      | Ethernet_input \<Rightarrow> ethernet_input E p i s
      | _ \<Rightarrow> le_input E f p i s)"

text \<open>One frame, which lies in the kernel's receive buffer.\<close>

definition receive_frame :: "('m, ('k, 'm, 'z) link_scheme) link_env \<Rightarrow> u64 \<Rightarrow> ('k, 'm, 'z) link_scheme \<Rightarrow> ('k, 'm, 'z) link_scheme option" where
  "receive_frame E len s = do {
     (p, s1) \<leftarrow> pbuf_alloc (le_pbuf E) PBUF_RAW (ucast len) PBUF_RAM s;
     if p = 0 then Some s1
     else do {
       (_, s2) \<leftarrow> pbuf_take p (le_rxbuf E) (ucast len) s1;
       n \<leftarrow> netif_store s2 (le_bmos_netif E);
       (e, s3) \<leftarrow> call_input E (n_input n) p (le_bmos_netif E) s2;
       if e \<noteq> ERR_OK then do {(_, s4) \<leftarrow> pbuf_free (le_pbuf E) p s3; Some s4}
       else Some s3}}"

partial_function (option) rx_loop :: "'k kernel \<Rightarrow> ('m, ('k, 'm, 'z) link_scheme) link_env \<Rightarrow> ('k, 'm, 'z) link_scheme \<Rightarrow> ('k, 'm, 'z) link_scheme option" where
  "rx_loop K E s =
     (let (frame, s1) = b_net_rx K 0 s; len = (of_nat (length frame) :: u64)
      in if len = 0 then Some s1
         else do {
           s2 \<leftarrow> receive_frame E len (s1\<lparr>mem := mem_write (mem s1) (le_rxbuf E) frame\<rparr>);
           rx_loop K E s2})"

definition net_poll :: "'k kernel \<Rightarrow> ('m, ('k, 'm, 'z) link_scheme) link_env \<Rightarrow> ('k, 'm, 'z) link_scheme \<Rightarrow> ('k, 'm, 'z) link_scheme option" where
  "net_poll K E s = do {s1 \<leftarrow> rx_loop K E s; sys_check_timeouts K (ne_timer (le_netif E)) s1}"

section \<open>Blocking\<close>

text \<open>
  The loop of a blocking call: \<open>check\<close> looks at the state (and may act on it) and either gives the
  result or asks for another poll; \<open>late\<close> is the result when \<open>ms\<close> milliseconds have passed since \<open>start\<close>.
\<close>

partial_function (option) block_on :: "'k kernel \<Rightarrow> ('m, ('k, 'm, 'z) link_scheme) link_env \<Rightarrow> (('k, 'm, 'z) link_scheme \<Rightarrow> ('r option \<times> ('k, 'm, 'z) link_scheme) option) \<Rightarrow> u32 \<Rightarrow> 'r \<Rightarrow> u32 \<Rightarrow> ('k, 'm, 'z) link_scheme \<Rightarrow> ('r \<times> ('k, 'm, 'z) link_scheme) option" where
  "block_on K E check ms late start s = do {
     (r, s1) \<leftarrow> check s;
     case r of Some v \<Rightarrow> Some (v, s1)
     | None \<Rightarrow> do {
         s2 \<leftarrow> net_poll K E s1;
         let (now, s3) = sys_now K s2;
         if now - start \<ge> ms then Some (late, s3)
         else block_on K E check ms late start s3}}"

text \<open>The loop from the time it is entered.\<close>

definition block_from_now :: "'k kernel \<Rightarrow> ('m, ('k, 'm, 'z) link_scheme) link_env \<Rightarrow> (('k, 'm, 'z) link_scheme \<Rightarrow> ('r option \<times> ('k, 'm, 'z) link_scheme) option) \<Rightarrow> u32 \<Rightarrow> 'r \<Rightarrow> ('k, 'm, 'z) link_scheme \<Rightarrow> ('r \<times> ('k, 'm, 'z) link_scheme) option" where
  "block_from_now K E check ms late s = (let (start, s1) = sys_now K s in block_on K E check ms late start s1)"

definition dhcp_supplied_address :: "('m, ('k, 'm, 'z) link_scheme) link_env \<Rightarrow> addr \<Rightarrow> ('k, 'm, 'z) link_scheme \<Rightarrow> bool option" where
  "dhcp_supplied_address E i s =
     (if i = 0 then Some False
      else do {
        n \<leftarrow> netif_store s i;
        Some (n_dhcp n \<noteq> 0 \<and> le_dhcp_state E (n_dhcp n) s \<in> {10, 5, 4})})"

definition net_is_ready :: "('m, ('k, 'm, 'z) link_scheme) link_env \<Rightarrow> ('k, 'm, 'z) link_scheme \<Rightarrow> bool option" where
  "net_is_ready E s = dhcp_supplied_address E (le_bmos_netif E) s"

definition net_wait_ready :: "'k kernel \<Rightarrow> ('m, ('k, 'm, 'z) link_scheme) link_env \<Rightarrow> u32 \<Rightarrow> ('k, 'm, 'z) link_scheme \<Rightarrow> (bool \<times> ('k, 'm, 'z) link_scheme) option" where
  "net_wait_ready K E timeout_ms s =
     block_from_now K E (\<lambda>s. do {r \<leftarrow> net_is_ready E s; Some (if r then Some True else None, s)}) timeout_ms False s"

text \<open>The string, or a null pointer (the inner None).\<close>

definition net_ip_str :: "('m, ('k, 'm, 'z) link_scheme) link_env \<Rightarrow> ('k, 'm, 'z) link_scheme \<Rightarrow> u8 list option option" where
  "net_ip_str E s = do {n \<leftarrow> netif_store s (le_bmos_netif E); Some (ip4addr_ntoa (n_ip_addr n))}"

section \<open>Blocking calls return\<close>

text \<open>
  A clock that runs: \<open>tau\<close> is the time in milliseconds that the 32-bit clock is the low part of.  It
  never runs backwards, advances with every poll, and no single call lasts \<open>2 ^ 28\<close> ms.  \<open>I\<close> is what the
  polls preserve.
\<close>

definition tick :: "'k kernel \<Rightarrow> 'k \<Rightarrow> 'k" where
  "tick K k = snd (k_system K TIMECOUNTER 0 0 k)"

definition clock_ok :: "'k kernel \<Rightarrow> ('k \<Rightarrow> nat) \<Rightarrow> bool" where
  "clock_ok K tau \<longleftrightarrow> (\<forall>k. clock_ms K k = of_nat (tau k) \<and> tau k \<le> tau (tick K k) \<and> tau (tick K k) < tau k + 2 ^ 28)"

definition poll_ok :: "'k kernel \<Rightarrow> ('m, ('k, 'm, 'z) link_scheme) link_env \<Rightarrow> (('k, 'm, 'z) link_scheme \<Rightarrow> bool) \<Rightarrow> ('k \<Rightarrow> nat) \<Rightarrow> bool" where
  "poll_ok K E I tau \<longleftrightarrow> (\<forall>s. I s \<longrightarrow> I (s\<lparr>kern := tick K (kern s)\<rparr>) \<and>
     (\<exists>s'. net_poll K E s = Some s' \<and> I s' \<and> tau (kern s) < tau (kern s') \<and> tau (kern s') < tau (kern s) + 2 ^ 28))"

definition check_ok :: "(('k, 'm, 'z) link_scheme \<Rightarrow> ('r option \<times> ('k, 'm, 'z) link_scheme) option) \<Rightarrow> (('k, 'm, 'z) link_scheme \<Rightarrow> bool) \<Rightarrow> ('k \<Rightarrow> nat) \<Rightarrow> bool" where
  "check_ok check I tau \<longleftrightarrow> (\<forall>s. I s \<longrightarrow> (\<exists>r s'. check s = Some (r, s') \<and>
     (r = None \<longrightarrow> I s' \<and> tau (kern s) \<le> tau (kern s') \<and> tau (kern s') < tau (kern s) + 2 ^ 28)))"

lemma sys_now_tick: "sys_now K s = (clock_ms K (kern s), s\<lparr>kern := tick K (kern s)\<rparr>)"
  by (simp add: sys_now_eq tick_def)

lemma elapsed_eq:
  assumes "t0 \<le> t" "t < t0 + 2 ^ 32"
  shows "unat (of_nat t - of_nat t0 :: u32) = t - t0"
proof -
  have eq: "(of_nat t - of_nat t0 :: u32) = of_nat (t - t0)" using assms(1) by (simp add: of_nat_diff)
  show ?thesis unfolding eq using assms by (intro unat_of_nat_small) simp
qed

lemma block_on_returns:
  assumes K: "clock_ok K tau" and E: "poll_ok K E I tau" and C: "check_ok check I tau" and ms: "unat ms \<le> 2 ^ 31"
    and s: "I s" "t0 \<le> tau (kern s)" "tau (kern s) < t0 + unat ms + 2 ^ 28"
  shows "\<exists>r s'. block_on K E check ms late (of_nat t0) s = Some (r, s') \<and>
    ((\<exists>s1. I s1 \<and> check s1 = Some (Some r, s')) \<or> r = late \<and> I s' \<and> t0 + unat ms \<le> tau (kern s'))"
  using s
proof (induction "t0 + unat ms + 2 ^ 28 - tau (kern s)" arbitrary: s rule: less_induct)
  case less
  obtain r s1 where r: "check s = Some (r, s1)"
      "r = None \<longrightarrow> I s1 \<and> tau (kern s) \<le> tau (kern s1) \<and> tau (kern s1) < tau (kern s) + 2 ^ 28"
    using C less.prems(1) unfolding check_ok_def by blast
  show ?case
  proof (cases r)
    case (Some v)
    then show ?thesis using r(1) less.prems(1) by (auto simp: block_on.simps [of K E check ms late _ s])
  next
    case None
    then have s1: "I s1" "tau (kern s) \<le> tau (kern s1)" "tau (kern s1) < tau (kern s) + 2 ^ 28" using r(2) by auto
    obtain s2 where s2: "net_poll K E s1 = Some s2" "I s2" "tau (kern s1) < tau (kern s2)" "tau (kern s2) < tau (kern s1) + 2 ^ 28"
      using E s1(1) unfolding poll_ok_def by blast
    let ?s3 = "s2\<lparr>kern := tick K (kern s2)\<rparr>"
    have s3: "I ?s3" "tau (kern s2) \<le> tau (kern ?s3)" "tau (kern ?s3) < tau (kern s2) + 2 ^ 28"
      "clock_ms K (kern s2) = of_nat (tau (kern s2))"
      using E K s2(2) by (auto simp: poll_ok_def clock_ok_def)
    have le: "t0 \<le> tau (kern s2)" "tau (kern s2) < t0 + 2 ^ 32" using s1 s2 less.prems ms by auto
    have el: "clock_ms K (kern s2) - of_nat t0 \<ge> ms \<longleftrightarrow> t0 + unat ms \<le> tau (kern s2)"
      unfolding s3(4) word_le_nat_alt elapsed_eq [OF le] using le(1) by auto
    have run: "block_on K E check ms late (of_nat t0) s =
        (if t0 + unat ms \<le> tau (kern s2) then Some (late, ?s3) else block_on K E check ms late (of_nat t0) ?s3)"
      using r(1) None s2(1) el by (simp add: block_on.simps [of K E check ms late _ s] sys_now_tick)
    show ?thesis
    proof (cases "t0 + unat ms \<le> tau (kern s2)")
      case True
      then show ?thesis using run s3(1,2) by (intro exI [of _ late] exI [of _ ?s3]) simp
    next
      case False
      have pre: "t0 \<le> tau (kern ?s3)" "tau (kern ?s3) < t0 + unat ms + 2 ^ 28" using False s3 le(1) by linarith+
      have "t0 + unat ms + 2 ^ 28 - tau (kern ?s3) < t0 + unat ms + 2 ^ 28 - tau (kern s)"
        using s1(2) s2(3) s3(2) less.prems(3) pre by linarith
      from less.hyps [OF this s3(1) pre] show ?thesis using run False by simp
    qed
  qed
qed

lemma block_from_now_returns:
  assumes K: "clock_ok K tau" and E: "poll_ok K E I tau" and C: "check_ok check I tau" and ms: "unat ms \<le> 2 ^ 31" and s: "I s"
  shows "\<exists>r s'. block_from_now K E check ms late s = Some (r, s') \<and>
    ((\<exists>s1. I s1 \<and> check s1 = Some (Some r, s')) \<or> r = late \<and> I s' \<and> tau (kern s) + unat ms \<le> tau (kern s'))"
proof -
  let ?s1 = "s\<lparr>kern := tick K (kern s)\<rparr>"
  have "I ?s1" using E s by (simp add: poll_ok_def)
  moreover have "tau (kern s) \<le> tau (kern ?s1)" "tau (kern ?s1) < tau (kern s) + unat ms + 2 ^ 28"
    "clock_ms K (kern s) = of_nat (tau (kern s))"
    using K by (auto simp: clock_ok_def trans_less_add1 add.commute intro: order_less_le_trans)
  ultimately show ?thesis
    using block_on_returns [OF K E C ms, of ?s1 "tau (kern s)" late] by (simp add: block_from_now_def sys_now_tick)
qed

end
