(* ===== verification/BM_Etharp.thy ===== *)
theory BM_Etharp
  imports BM_Net_Glue
begin

text \<open>
  Address resolution, lwIP's \<^verbatim>\<open>core/ipv4/etharp.c\<close>, in this configuration: a table of ten entries, at most
  one packet queued on each, no static entries, no hints.  The addresses that the code passes by
  reference (MAC and IP) are passed as values, read from the memory or the table at the call.
\<close>

section \<open>The table\<close>

datatype etharp_state = ETHARP_STATE_EMPTY | ETHARP_STATE_PENDING | ETHARP_STATE_STABLE
  | ETHARP_STATE_STABLE_REREQUESTING_1 | ETHARP_STATE_STABLE_REREQUESTING_2

text \<open>The test \<^verbatim>\<open>state >= ETHARP_STATE_STABLE\<close>.\<close>

definition at_least_stable :: "etharp_state \<Rightarrow> bool" where
  "at_least_stable st \<longleftrightarrow> st \<noteq> ETHARP_STATE_EMPTY \<and> st \<noteq> ETHARP_STATE_PENDING"

record etharp_entry =
  a_q :: addr
  a_ipaddr :: u32
  a_netif :: addr
  a_ethaddr :: "u8 list"
  a_ctime :: u16
  a_state :: etharp_state

record ('k, 'm) arp = "('k, 'm) link" +
  arp_table :: "etharp_entry list"
  etharp_cached_entry :: nat

definition ARP_TABLE_SIZE :: nat where "ARP_TABLE_SIZE = 10"
definition ARP_MAXAGE :: u16 where "ARP_MAXAGE = 300"
definition ARP_MAXPENDING :: u16 where "ARP_MAXPENDING = 5"
definition ARP_AGE_REREQUEST_USED_UNICAST :: u16 where "ARP_AGE_REREQUEST_USED_UNICAST = ARP_MAXAGE - 30"
definition ARP_AGE_REREQUEST_USED_BROADCAST :: u16 where "ARP_AGE_REREQUEST_USED_BROADCAST = ARP_MAXAGE - 15"
definition ETHARP_FLAG_TRY_HARD :: u8 where "ETHARP_FLAG_TRY_HARD = 1"
definition ETHARP_FLAG_FIND_ONLY :: u8 where "ETHARP_FLAG_FIND_ONLY = 2"
definition SIZEOF_ETHARP_HDR :: u16 where "SIZEOF_ETHARP_HDR = 28"
definition ARP_REQUEST :: u16 where "ARP_REQUEST = 1"
definition ARP_REPLY :: u16 where "ARP_REPLY = 2"
definition ETHTYPE_IP :: u16 where "ETHTYPE_IP = 0x0800"
definition ETHTYPE_ARP :: u16 where "ETHTYPE_ARP = 0x0806"
definition ERR_RTE :: err_t where "ERR_RTE = - 4"

lemmas arp_flags = ETHARP_FLAG_TRY_HARD_def ETHARP_FLAG_FIND_ONLY_def

definition ethbroadcast :: "u8 list" where "ethbroadcast = [0xFF, 0xFF, 0xFF, 0xFF, 0xFF, 0xFF]"
definition ethzero :: "u8 list" where "ethzero = [0, 0, 0, 0, 0, 0]"

definition ip4_addr_ismulticast :: "u32 \<Rightarrow> bool" where
  "ip4_addr_ismulticast a \<longleftrightarrow> a AND lwip_htonl 0xF0000000 = lwip_htonl 0xE0000000"

definition ip4_addr_islinklocal :: "u32 \<Rightarrow> bool" where
  "ip4_addr_islinklocal a \<longleftrightarrow> a AND lwip_htonl 0xFFFF0000 = lwip_htonl 0xA9FE0000"

abbreviation entry :: "('k, 'm, 'z) arp_scheme \<Rightarrow> nat \<Rightarrow> etharp_entry" where
  "entry s i \<equiv> arp_table s ! i"

definition upd_entry :: "nat \<Rightarrow> (etharp_entry \<Rightarrow> etharp_entry) \<Rightarrow> ('k, 'm, 'z) arp_scheme \<Rightarrow> ('k, 'm, 'z) arp_scheme" where
  "upd_entry i f s = s\<lparr>arp_table := (arp_table s)[i := f (arp_table s ! i)]\<rparr>"

section \<open>Sending ARP messages\<close>

text \<open>The fields of \<^verbatim>\<open>struct etharp_hdr\<close>, written in the order of the code.\<close>

definition write_arp_hdr :: "addr \<Rightarrow> u16 \<Rightarrow> u8 list \<Rightarrow> u8 list \<Rightarrow> u32 \<Rightarrow> u32 \<Rightarrow> memory \<Rightarrow> memory" where
  "write_arp_hdr hdr opcode hwsrc_addr hwdst_addr ipsrc_addr ipdst_addr m =
     (let m1 = mem_write m (hdr + 6) (le_bytes 2 (lwip_htons opcode));
          m2 = mem_write m1 (hdr + 8) hwsrc_addr;
          m3 = mem_write m2 (hdr + 18) hwdst_addr;
          m4 = mem_write m3 (hdr + 14) (le_bytes 4 ipsrc_addr);
          m5 = mem_write m4 (hdr + 24) (le_bytes 4 ipdst_addr);
          m6 = mem_write m5 hdr (le_bytes 2 (lwip_htons 1));
          m7 = mem_write m6 (hdr + 2) (le_bytes 2 (lwip_htons ETHTYPE_IP));
          m8 = mem_write m7 (hdr + 4) [6]
      in mem_write m8 (hdr + 5) [4])"

definition etharp_raw :: "'k kernel \<Rightarrow> ('m, ('k, 'm, 'z) arp_scheme) link_env \<Rightarrow> addr \<Rightarrow> u8 list \<Rightarrow> u8 list \<Rightarrow> u8 list \<Rightarrow> u32 \<Rightarrow> u8 list \<Rightarrow> u32 \<Rightarrow> u16 \<Rightarrow> ('k, 'm, 'z) arp_scheme \<Rightarrow> (err_t \<times> ('k, 'm, 'z) arp_scheme) option" where
  "etharp_raw K E netif ethsrc_addr ethdst_addr hwsrc_addr ipsrc_addr hwdst_addr ipdst_addr opcode s = do {
     (p, s1) \<leftarrow> pbuf_alloc (le_pbuf E) PBUF_LINK SIZEOF_ETHARP_HDR PBUF_RAM s;
     if p = 0 then Some (ERR_MEM, s1)
     else do {
       b \<leftarrow> pbufs s1 p;
       if p_len b < SIZEOF_ETHARP_HDR then None
       else do {
         n \<leftarrow> netif_store s1 netif;
         if n_hwaddr_len n \<noteq> 6 then None
         else do {
           (_, s2) \<leftarrow> ethernet_output K E netif p ethsrc_addr ethdst_addr ETHTYPE_ARP
             (s1\<lparr>mem := write_arp_hdr (p_payload b) opcode hwsrc_addr hwdst_addr ipsrc_addr ipdst_addr (mem s1)\<rparr>);
           (_, s3) \<leftarrow> pbuf_free (le_pbuf E) p s2;
           Some (ERR_OK, s3)}}}}"

definition etharp_request_dst :: "'k kernel \<Rightarrow> ('m, ('k, 'm, 'z) arp_scheme) link_env \<Rightarrow> addr \<Rightarrow> u32 \<Rightarrow> u8 list \<Rightarrow> ('k, 'm, 'z) arp_scheme \<Rightarrow> (err_t \<times> ('k, 'm, 'z) arp_scheme) option" where
  "etharp_request_dst K E netif ipaddr hw_dst_addr s = do {
     n \<leftarrow> netif_store s netif;
     etharp_raw K E netif (n_hwaddr n) hw_dst_addr (n_hwaddr n) (n_ip_addr n) ethzero ipaddr ARP_REQUEST s}"

definition etharp_request :: "'k kernel \<Rightarrow> ('m, ('k, 'm, 'z) arp_scheme) link_env \<Rightarrow> addr \<Rightarrow> u32 \<Rightarrow> ('k, 'm, 'z) arp_scheme \<Rightarrow> (err_t \<times> ('k, 'm, 'z) arp_scheme) option" where
  "etharp_request K E netif ipaddr s = etharp_request_dst K E netif ipaddr ethbroadcast s"

definition etharp_gratuitous :: "'k kernel \<Rightarrow> ('m, ('k, 'm, 'z) arp_scheme) link_env \<Rightarrow> addr \<Rightarrow> ('k, 'm, 'z) arp_scheme \<Rightarrow> (err_t \<times> ('k, 'm, 'z) arp_scheme) option" where
  "etharp_gratuitous K E netif s = do {n \<leftarrow> netif_store s netif; etharp_request K E netif (n_ip_addr n) s}"

section \<open>Entries\<close>

definition etharp_free_entry :: "('m, ('k, 'm, 'z) arp_scheme) link_env \<Rightarrow> nat \<Rightarrow> ('k, 'm, 'z) arp_scheme \<Rightarrow> ('k, 'm, 'z) arp_scheme option" where
  "etharp_free_entry E i s = do {
     s1 \<leftarrow> (if a_q (entry s i) \<noteq> 0
            then do {(_, s1) \<leftarrow> pbuf_free (le_pbuf E) (a_q (entry s i)) s; Some (upd_entry i (a_q_update (\<lambda>_. 0)) s1)}
            else Some s);
     Some (upd_entry i (a_state_update (\<lambda>_. ETHARP_STATE_EMPTY)) s1)}"

text \<open>One turn of the loop of \<^verbatim>\<open>etharp_tmr\<close>.\<close>

definition etharp_tmr_entry :: "'k kernel \<Rightarrow> ('m, ('k, 'm, 'z) arp_scheme) link_env \<Rightarrow> nat \<Rightarrow> ('k, 'm, 'z) arp_scheme \<Rightarrow> ('k, 'm, 'z) arp_scheme option" where
  "etharp_tmr_entry K E i s =
     (if a_state (entry s i) = ETHARP_STATE_EMPTY then Some s
      else let s1 = upd_entry i (\<lambda>e. e\<lparr>a_ctime := a_ctime e + 1\<rparr>) s; e = entry s1 i
      in if a_ctime e \<ge> ARP_MAXAGE \<or> a_state e = ETHARP_STATE_PENDING \<and> a_ctime e \<ge> ARP_MAXPENDING then etharp_free_entry E i s1
         else if a_state e = ETHARP_STATE_STABLE_REREQUESTING_1
           then Some (upd_entry i (a_state_update (\<lambda>_. ETHARP_STATE_STABLE_REREQUESTING_2)) s1)
         else if a_state e = ETHARP_STATE_STABLE_REREQUESTING_2
           then Some (upd_entry i (a_state_update (\<lambda>_. ETHARP_STATE_STABLE)) s1)
         else if a_state e = ETHARP_STATE_PENDING
           then do {(_, s2) \<leftarrow> etharp_request K E (a_netif e) (a_ipaddr e) s1; Some s2}
         else Some s1)"

fun etharp_tmr_loop :: "'k kernel \<Rightarrow> ('m, ('k, 'm, 'z) arp_scheme) link_env \<Rightarrow> nat list \<Rightarrow> ('k, 'm, 'z) arp_scheme \<Rightarrow> ('k, 'm, 'z) arp_scheme option" where
  "etharp_tmr_loop K E [] s = Some s"
| "etharp_tmr_loop K E (i # is) s = do {s1 \<leftarrow> etharp_tmr_entry K E i s; etharp_tmr_loop K E is s1}"

definition etharp_tmr :: "'k kernel \<Rightarrow> ('m, ('k, 'm, 'z) arp_scheme) link_env \<Rightarrow> ('k, 'm, 'z) arp_scheme \<Rightarrow> ('k, 'm, 'z) arp_scheme option" where
  "etharp_tmr K E s = etharp_tmr_loop K E [0..<ARP_TABLE_SIZE] s"

section \<open>The search\<close>

text \<open>
  The candidates that one sweep collects; an index of \<open>ARP_TABLE_SIZE\<close> stands for none, as in the code.
\<close>

record cands =
  c_empty :: nat
  c_old_pending :: nat
  c_age_pending :: u16
  c_old_queue :: nat
  c_age_queue :: u16
  c_old_stable :: nat
  c_age_stable :: u16

definition no_cands :: cands where
  "no_cands = \<lparr>c_empty = ARP_TABLE_SIZE, c_old_pending = ARP_TABLE_SIZE, c_age_pending = 0,
     c_old_queue = ARP_TABLE_SIZE, c_age_queue = 0, c_old_stable = ARP_TABLE_SIZE, c_age_stable = 0\<rparr>"

definition matches :: "u32 option \<Rightarrow> addr \<Rightarrow> etharp_entry \<Rightarrow> bool" where
  "matches ipaddr netif e \<longleftrightarrow> ipaddr = Some (a_ipaddr e) \<and> (netif = 0 \<or> netif = a_netif e)"

text \<open>What one entry in use, which does not match, adds to the candidates.\<close>

definition note_cand :: "nat \<Rightarrow> etharp_entry \<Rightarrow> cands \<Rightarrow> cands" where
  "note_cand i e c =
     (if a_state e = ETHARP_STATE_PENDING then
        (if a_q e \<noteq> 0 then (if a_ctime e \<ge> c_age_queue c then c\<lparr>c_old_queue := i, c_age_queue := a_ctime e\<rparr> else c)
         else (if a_ctime e \<ge> c_age_pending c then c\<lparr>c_old_pending := i, c_age_pending := a_ctime e\<rparr> else c))
      else if a_ctime e \<ge> c_age_stable c then c\<lparr>c_old_stable := i, c_age_stable := a_ctime e\<rparr> else c)"

fun find_sweep :: "u32 option \<Rightarrow> addr \<Rightarrow> nat \<Rightarrow> etharp_entry list \<Rightarrow> cands \<Rightarrow> nat + cands" where
  "find_sweep ipaddr netif i [] c = Inr c"
| "find_sweep ipaddr netif i (e # es) c =
     (if a_state e = ETHARP_STATE_EMPTY
      then find_sweep ipaddr netif (i + 1) es (if c_empty c = ARP_TABLE_SIZE then c\<lparr>c_empty := i\<rparr> else c)
      else if matches ipaddr netif e then Inl i
      else find_sweep ipaddr netif (i + 1) es (note_cand i e c))"

text \<open>The entry to recycle; the inner None is \<^verbatim>\<open>ERR_MEM\<close>, the outer one the failed assertion.\<close>

definition recycle :: "etharp_entry list \<Rightarrow> cands \<Rightarrow> nat option option" where
  "recycle es c =
     (if c_old_stable c < ARP_TABLE_SIZE
      then (if a_q (es ! c_old_stable c) = 0 then Some (Some (c_old_stable c)) else None)
      else if c_old_pending c < ARP_TABLE_SIZE then Some (Some (c_old_pending c))
      else if c_old_queue c < ARP_TABLE_SIZE then Some (Some (c_old_queue c))
      else Some None)"

text \<open>The fresh entry: its address (when one is given), its age and its interface.\<close>

definition init_entry :: "u32 option \<Rightarrow> addr \<Rightarrow> nat \<Rightarrow> ('k, 'm, 'z) arp_scheme \<Rightarrow> ('k, 'm, 'z) arp_scheme" where
  "init_entry ipaddr netif i s =
     upd_entry i (\<lambda>e. e\<lparr>a_ipaddr := (case ipaddr of None \<Rightarrow> a_ipaddr e | Some a \<Rightarrow> a), a_ctime := 0, a_netif := netif\<rparr>) s"

definition etharp_find_entry :: "('m, ('k, 'm, 'z) arp_scheme) link_env \<Rightarrow> u32 option \<Rightarrow> u8 \<Rightarrow> addr \<Rightarrow> ('k, 'm, 'z) arp_scheme \<Rightarrow> (int \<times> ('k, 'm, 'z) arp_scheme) option" where
  "etharp_find_entry E ipaddr flags netif s =
     (case find_sweep ipaddr netif 0 (arp_table s) no_cands of
        Inl i \<Rightarrow> Some (int i, s)
      | Inr c \<Rightarrow>
          if flags AND ETHARP_FLAG_FIND_ONLY \<noteq> 0 \<or> c_empty c = ARP_TABLE_SIZE \<and> flags AND ETHARP_FLAG_TRY_HARD = 0
          then Some (ERR_MEM, s)
          else if c_empty c < ARP_TABLE_SIZE then Some (int (c_empty c), init_entry ipaddr netif (c_empty c) s)
          else do {
            r \<leftarrow> recycle (arp_table s) c;
            case r of None \<Rightarrow> Some (ERR_MEM, s)
            | Some i \<Rightarrow> do {s1 \<leftarrow> etharp_free_entry E i s; Some (int i, init_entry ipaddr netif i s1)}})"

section \<open>Learning\<close>

definition etharp_update_arp_entry :: "'k kernel \<Rightarrow> ('m, ('k, 'm, 'z) arp_scheme) link_env \<Rightarrow> addr \<Rightarrow> u32 \<Rightarrow> u8 list \<Rightarrow> u8 \<Rightarrow> ('k, 'm, 'z) arp_scheme \<Rightarrow> (err_t \<times> ('k, 'm, 'z) arp_scheme) option" where
  "etharp_update_arp_entry K E netif ipaddr ethaddr flags s = do {
     n \<leftarrow> netif_store s netif;
     if n_hwaddr_len n \<noteq> 6 then None
     else if ipaddr = IPADDR_ANY \<or> ip4_addr_isbroadcast_u32 ipaddr n \<or> ip4_addr_ismulticast ipaddr then Some (ERR_ARG, s)
     else do {
       (r, s1) \<leftarrow> etharp_find_entry E (Some ipaddr) flags netif s;
       if r < 0 then Some (r, s1)
       else let i = nat r;
                s2 = upd_entry i (\<lambda>e. e\<lparr>a_state := ETHARP_STATE_STABLE, a_netif := netif, a_ethaddr := ethaddr, a_ctime := 0\<rparr>) s1;
                p = a_q (entry s2 i)
            in if p \<noteq> 0
               then do {
                 m \<leftarrow> netif_store s2 netif;
                 (_, s3) \<leftarrow> ethernet_output K E netif p (n_hwaddr m) ethaddr ETHTYPE_IP (upd_entry i (a_q_update (\<lambda>_. 0)) s2);
                 (_, s4) \<leftarrow> pbuf_free (le_pbuf E) p s3;
                 Some (ERR_OK, s4)}
               else Some (ERR_OK, s2)}}"

fun etharp_cleanup_loop :: "('m, ('k, 'm, 'z) arp_scheme) link_env \<Rightarrow> addr \<Rightarrow> nat list \<Rightarrow> ('k, 'm, 'z) arp_scheme \<Rightarrow> ('k, 'm, 'z) arp_scheme option" where
  "etharp_cleanup_loop E netif [] s = Some s"
| "etharp_cleanup_loop E netif (i # is) s = do {
     s1 \<leftarrow> (if a_state (entry s i) \<noteq> ETHARP_STATE_EMPTY \<and> a_netif (entry s i) = netif then etharp_free_entry E i s else Some s);
     etharp_cleanup_loop E netif is s1}"

definition etharp_cleanup_netif :: "('m, ('k, 'm, 'z) arp_scheme) link_env \<Rightarrow> addr \<Rightarrow> ('k, 'm, 'z) arp_scheme \<Rightarrow> ('k, 'm, 'z) arp_scheme option" where
  "etharp_cleanup_netif E netif s = etharp_cleanup_loop E netif [0..<ARP_TABLE_SIZE] s"

text \<open>The index, with the two addresses when it is not negative.\<close>

definition etharp_find_addr :: "('m, ('k, 'm, 'z) arp_scheme) link_env \<Rightarrow> addr \<Rightarrow> u32 \<Rightarrow> ('k, 'm, 'z) arp_scheme \<Rightarrow> (int \<times> u8 list \<times> u32) option" where
  "etharp_find_addr E netif ipaddr s = do {
     (r, s1) \<leftarrow> etharp_find_entry E (Some ipaddr) ETHARP_FLAG_FIND_ONLY netif s;
     Some (if r \<ge> 0 \<and> at_least_stable (a_state (entry s1 (nat r)))
           then (r, a_ethaddr (entry s1 (nat r)), a_ipaddr (entry s1 (nat r))) else (- 1, [], 0))}"

definition etharp_get_entry :: "nat \<Rightarrow> ('k, 'm, 'z) arp_scheme \<Rightarrow> (u32 \<times> addr \<times> u8 list) option" where
  "etharp_get_entry i s =
     (if i < ARP_TABLE_SIZE \<and> at_least_stable (a_state (entry s i))
      then Some (a_ipaddr (entry s i), a_netif (entry s i), a_ethaddr (entry s i)) else None)"

text \<open>The header is one of Ethernet and IPv4.\<close>

definition arp_hdr_valid :: "memory \<Rightarrow> addr \<Rightarrow> bool" where
  "arp_hdr_valid m hdr \<longleftrightarrow> of_le_bytes (mem_read m hdr 2) = lwip_htons 1 \<and> m (hdr + 4) = 6 \<and> m (hdr + 5) = 4 \<and>
     of_le_bytes (mem_read m (hdr + 2) 2) = lwip_htons ETHTYPE_IP"

text \<open>
  The switch over the opcode.  The \<^verbatim>\<open>struct etharp_hdr\<close> of the packet is read where the code reads it, after
  the update of the table for the opcode and the address that a reply goes to.
\<close>

definition etharp_respond :: "'k kernel \<Rightarrow> ('m, ('k, 'm, 'z) arp_scheme) link_env \<Rightarrow> addr \<Rightarrow> addr \<Rightarrow> bool \<Rightarrow> bool \<Rightarrow> u32 \<Rightarrow> ('k, 'm, 'z) arp_scheme \<Rightarrow> ('k, 'm, 'z) arp_scheme option" where
  "etharp_respond K E netif hdr for_us from_us sipaddr s =
     (if of_le_bytes (mem_read (mem s) (hdr + 6) 2) = lwip_htons ARP_REQUEST \<and> for_us \<and> \<not> from_us
      then do {
        n \<leftarrow> netif_store s netif;
        let shwaddr = mem_read (mem s) (hdr + 8) 6;
        (_, s1) \<leftarrow> etharp_raw K E netif (n_hwaddr n) shwaddr (n_hwaddr n) (n_ip_addr n) shwaddr sipaddr ARP_REPLY s;
        Some s1}
      else Some s)"

definition etharp_input :: "'k kernel \<Rightarrow> ('m, ('k, 'm, 'z) arp_scheme) link_env \<Rightarrow> addr \<Rightarrow> addr \<Rightarrow> ('k, 'm, 'z) arp_scheme \<Rightarrow> ('k, 'm, 'z) arp_scheme option" where
  "etharp_input K E p netif s =
     (if netif = 0 then Some s
      else do {
        b \<leftarrow> pbufs s p;
        let hdr = p_payload b;
        if \<not> arp_hdr_valid (mem s) hdr then do {(_, s1) \<leftarrow> pbuf_free (le_pbuf E) p s; Some s1}
        else do {
          n \<leftarrow> netif_store s netif;
          let sipaddr = of_le_bytes (mem_read (mem s) (hdr + 14) 4);
          let dipaddr = of_le_bytes (mem_read (mem s) (hdr + 24) 4);
          let for_us = (n_ip_addr n \<noteq> IPADDR_ANY \<and> dipaddr = n_ip_addr n);
          let from_us = (n_ip_addr n \<noteq> IPADDR_ANY \<and> sipaddr = n_ip_addr n);
          (_, s1) \<leftarrow> etharp_update_arp_entry K E netif sipaddr (mem_read (mem s) (hdr + 8) 6)
            (if for_us then ETHARP_FLAG_TRY_HARD else ETHARP_FLAG_FIND_ONLY) s;
          s2 \<leftarrow> etharp_respond K E netif hdr for_us from_us sipaddr s1;
          (_, s3) \<leftarrow> pbuf_free (le_pbuf E) p s2;
          Some s3}})"

section \<open>Sending IP packets\<close>

definition etharp_output_to_arp_index :: "'k kernel \<Rightarrow> ('m, ('k, 'm, 'z) arp_scheme) link_env \<Rightarrow> addr \<Rightarrow> addr \<Rightarrow> nat \<Rightarrow> ('k, 'm, 'z) arp_scheme \<Rightarrow> (err_t \<times> ('k, 'm, 'z) arp_scheme) option" where
  "etharp_output_to_arp_index K E netif q i s =
     (if \<not> at_least_stable (a_state (entry s i)) then None
      else do {
        s1 \<leftarrow> (if a_state (entry s i) = ETHARP_STATE_STABLE then
                 if a_ctime (entry s i) \<ge> ARP_AGE_REREQUEST_USED_BROADCAST then do {
                   (r, s1) \<leftarrow> etharp_request K E netif (a_ipaddr (entry s i)) s;
                   Some (if r = ERR_OK then upd_entry i (a_state_update (\<lambda>_. ETHARP_STATE_STABLE_REREQUESTING_1)) s1 else s1)}
                 else if a_ctime (entry s i) \<ge> ARP_AGE_REREQUEST_USED_UNICAST then do {
                   (r, s1) \<leftarrow> etharp_request_dst K E netif (a_ipaddr (entry s i)) (a_ethaddr (entry s i)) s;
                   Some (if r = ERR_OK then upd_entry i (a_state_update (\<lambda>_. ETHARP_STATE_STABLE_REREQUESTING_1)) s1 else s1)}
                 else Some s
               else Some s);
        n \<leftarrow> netif_store s1 netif;
        ethernet_output K E netif q (n_hwaddr n) (a_ethaddr (entry s1 i)) ETHTYPE_IP s1})"

text \<open>Whether a buffer of the packet has to be copied; an assertion excludes queues of packets.\<close>

partial_function (option) copy_needed :: "addr \<Rightarrow> ('k, 'm, 'z) lwip_scheme \<Rightarrow> bool option" where
  "copy_needed p s =
     (if p = 0 then Some False
      else do {
        b \<leftarrow> pbufs s p;
        if p_len b = p_tot_len b \<and> p_next b \<noteq> 0 then None
        else if p_type_internal b AND 0x40 \<noteq> 0 then Some True
        else copy_needed (p_next b) s})"

text \<open>The packet is queued on a pending entry, as it is or as a copy.\<close>

definition etharp_enqueue :: "('m, ('k, 'm, 'z) arp_scheme) link_env \<Rightarrow> addr \<Rightarrow> nat \<Rightarrow> ('k, 'm, 'z) arp_scheme \<Rightarrow> (err_t \<times> ('k, 'm, 'z) arp_scheme) option" where
  "etharp_enqueue E q i s = do {
     c \<leftarrow> copy_needed q s;
     (p, s1) \<leftarrow> (if c then pbuf_clone (le_pbuf E) PBUF_LINK PBUF_RAM q s else do {s1 \<leftarrow> pbuf_ref q s; Some (q, s1)});
     if p \<noteq> 0 then do {
       s2 \<leftarrow> (if a_q (entry s1 i) \<noteq> 0 then do {(_, s2) \<leftarrow> pbuf_free (le_pbuf E) (a_q (entry s1 i)) s1; Some s2} else Some s1);
       Some (ERR_OK, upd_entry i (a_q_update (\<lambda>_. p)) s2)}
     else Some (ERR_MEM, s1)}"

text \<open>The request of a query, with its result, and what becomes of the packet afterwards.\<close>

definition query_request :: "'k kernel \<Rightarrow> ('m, ('k, 'm, 'z) arp_scheme) link_env \<Rightarrow> addr \<Rightarrow> u32 \<Rightarrow> addr \<Rightarrow> nat \<Rightarrow> bool \<Rightarrow> ('k, 'm, 'z) arp_scheme \<Rightarrow> (err_t \<times> ('k, 'm, 'z) arp_scheme) option" where
  "query_request K E netif ipaddr q i is_new_entry s =
     (if is_new_entry \<or> q = 0 then do {
        (result, s1) \<leftarrow> etharp_request K E netif ipaddr s;
        Some (result, if result = ERR_OK \<and> a_state (entry s1 i) = ETHARP_STATE_PENDING \<and> \<not> is_new_entry
                      then upd_entry i (a_ctime_update (\<lambda>_. 0)) s1 else s1)}
      else Some (ERR_MEM, s))"

definition query_deliver :: "'k kernel \<Rightarrow> ('m, ('k, 'm, 'z) arp_scheme) link_env \<Rightarrow> addr \<Rightarrow> addr \<Rightarrow> nat \<Rightarrow> err_t \<Rightarrow> ('k, 'm, 'z) arp_scheme \<Rightarrow> (err_t \<times> ('k, 'm, 'z) arp_scheme) option" where
  "query_deliver K E netif q i result s =
     (if q = 0 then Some (result, s)
      else if at_least_stable (a_state (entry s i)) then do {
        n \<leftarrow> netif_store s netif;
        ethernet_output K E netif q (n_hwaddr n) (a_ethaddr (entry s i)) ETHTYPE_IP (s\<lparr>etharp_cached_entry := i\<rparr>)}
      else if a_state (entry s i) = ETHARP_STATE_PENDING then etharp_enqueue E q i s
      else Some (result, s))"

definition etharp_query :: "'k kernel \<Rightarrow> ('m, ('k, 'm, 'z) arp_scheme) link_env \<Rightarrow> addr \<Rightarrow> u32 \<Rightarrow> addr \<Rightarrow> ('k, 'm, 'z) arp_scheme \<Rightarrow> (err_t \<times> ('k, 'm, 'z) arp_scheme) option" where
  "etharp_query K E netif ipaddr q s = do {
     n \<leftarrow> netif_store s netif;
     if ip4_addr_isbroadcast_u32 ipaddr n \<or> ip4_addr_ismulticast ipaddr \<or> ipaddr = IPADDR_ANY then Some (ERR_ARG, s)
     else do {
       (r, s1) \<leftarrow> etharp_find_entry E (Some ipaddr) ETHARP_FLAG_TRY_HARD netif s;
       if r < 0 then Some (r, s1)
       else do {
         let i = nat r;
         let is_new_entry = (a_state (entry s1 i) = ETHARP_STATE_EMPTY);
         let s2 = (if is_new_entry then upd_entry i (\<lambda>e. e\<lparr>a_state := ETHARP_STATE_PENDING, a_netif := netif\<rparr>) s1 else s1);
         (result, s3) \<leftarrow> query_request K E netif ipaddr q i is_new_entry s2;
         query_deliver K E netif q i result s3}}}"

text \<open>The MAC address of a multicast group.\<close>

definition mcastaddr :: "u32 \<Rightarrow> u8 list" where
  "mcastaddr a = [0x01, 0x00, 0x5E, le_bytes 4 a ! 1 AND 0x7F, le_bytes 4 a ! 2, le_bytes 4 a ! 3]"

definition hits :: "addr \<Rightarrow> u32 \<Rightarrow> etharp_entry \<Rightarrow> bool" where
  "hits netif dst e \<longleftrightarrow> at_least_stable (a_state e) \<and> a_netif e = netif \<and> dst = a_ipaddr e"

text \<open>The way to a unicast address: the entry used last, a stable entry, or a query.\<close>

definition output_unicast :: "'k kernel \<Rightarrow> ('m, ('k, 'm, 'z) arp_scheme) link_env \<Rightarrow> addr \<Rightarrow> addr \<Rightarrow> u32 \<Rightarrow> ('k, 'm, 'z) arp_scheme \<Rightarrow> (err_t \<times> ('k, 'm, 'z) arp_scheme) option" where
  "output_unicast K E netif q dst_addr s =
     (if hits netif dst_addr (entry s (etharp_cached_entry s)) then etharp_output_to_arp_index K E netif q (etharp_cached_entry s) s
      else case first_idx (hits netif dst_addr) (arp_table s) of
          Some i \<Rightarrow> etharp_output_to_arp_index K E netif q i (s\<lparr>etharp_cached_entry := i\<rparr>)
        | None \<Rightarrow> etharp_query K E netif dst_addr q s)"

definition etharp_output :: "'k kernel \<Rightarrow> ('m, ('k, 'm, 'z) arp_scheme) link_env \<Rightarrow> addr \<Rightarrow> addr \<Rightarrow> u32 \<Rightarrow> ('k, 'm, 'z) arp_scheme \<Rightarrow> (err_t \<times> ('k, 'm, 'z) arp_scheme) option" where
  "etharp_output K E netif q ipaddr s = do {
     n \<leftarrow> netif_store s netif;
     if ip4_addr_isbroadcast_u32 ipaddr n then ethernet_output K E netif q (n_hwaddr n) ethbroadcast ETHTYPE_IP s
     else if ip4_addr_ismulticast ipaddr then ethernet_output K E netif q (n_hwaddr n) (mcastaddr ipaddr) ETHTYPE_IP s
     else if ip4_addr_net_eq ipaddr (n_ip_addr n) (n_netmask n) \<or> ip4_addr_islinklocal ipaddr
       then output_unicast K E netif q ipaddr s
     else if n_gw n \<noteq> IPADDR_ANY then output_unicast K E netif q (n_gw n) s
     else Some (ERR_RTE, s)}"

end
