(* ===== verification/BM_Net_Shim.thy ===== *)
theory BM_Net_Shim
  imports BM_Etharp BM_Pbuf_Chain
begin

text \<open>
  The sockets of \<^verbatim>\<open>src/app/net_shim.c\<close>: a table of 16 TCP sockets over lwIP's callback interface, with
  blocking calls that poll.  lwIP's TCP is an environment of functions on the whole state.  A pointer
  into the table is the index of the socket; None is an access outside the table, a null pointer that
  is followed, or a call that never returns.
\<close>

section \<open>The table\<close>

abbreviation (input) EBADF :: u64 where "EBADF \<equiv> 9"
abbreviation (input) EAGAIN :: u64 where "EAGAIN \<equiv> 11"
abbreviation (input) EAFNOSUPPORT :: u64 where "EAFNOSUPPORT \<equiv> 97"
abbreviation (input) EADDRINUSE :: u64 where "EADDRINUSE \<equiv> 98"
abbreviation (input) ECONNRESET :: u64 where "ECONNRESET \<equiv> 104"
abbreviation (input) ETIMEDOUT :: u64 where "ETIMEDOUT \<equiv> 110"
abbreviation (input) ECONNREFUSED :: u64 where "ECONNREFUSED \<equiv> 111"

definition SOCK_FD_BASE :: slong where "SOCK_FD_BASE = 100"
definition SOCK_MAX :: nat where "SOCK_MAX = 16"
definition ACCEPTQ_MAX :: nat where "ACCEPTQ_MAX = 8"
definition NET_BLOCK_TIMEOUT_MS :: u32 where "NET_BLOCK_TIMEOUT_MS = 30000"

lemmas shim_consts = SOCK_FD_BASE_def SOCK_MAX_def ACCEPTQ_MAX_def NET_BLOCK_TIMEOUT_MS_def

datatype sk_state = SK_FREE | SK_CLOSED | SK_CONNECTING | SK_CONNECTED | SK_LISTENING | SK_ERROR

record bsock =
  k_state :: sk_state
  k_pcb :: addr
  k_rx_head :: addr
  k_rx_off :: u16
  k_eof :: bool
  k_acceptq :: "nat list"
  k_head :: nat
  k_tail :: nat
  k_count :: nat

definition reset_sock :: bsock where
  "reset_sock = \<lparr>k_state = SK_FREE, k_pcb = 0, k_rx_head = 0, k_rx_off = 0, k_eof = False,
     k_acceptq = replicate ACCEPTQ_MAX 0, k_head = 0, k_tail = 0, k_count = 0\<rparr>"

record ('k, 'm) shim = "('k, 'm) arp" +
  socks :: "bsock list"
  net_ready :: bool

text \<open>lwIP's TCP interface.  An argument of a callback is a socket, or null (None).\<close>

record ('m, 's) tcp_env =
  se_link :: "('m, 's) link_env"
  se_new :: "'s \<Rightarrow> (addr \<times> 's) option"
  se_arg :: "addr \<Rightarrow> nat option \<Rightarrow> 's \<Rightarrow> 's option"
  se_recv :: "addr \<Rightarrow> bool \<Rightarrow> 's \<Rightarrow> 's option"
  se_err :: "addr \<Rightarrow> bool \<Rightarrow> 's \<Rightarrow> 's option"
  se_accept :: "addr \<Rightarrow> bool \<Rightarrow> 's \<Rightarrow> 's option"
  se_bind :: "addr \<Rightarrow> u32 \<Rightarrow> u16 \<Rightarrow> 's \<Rightarrow> (err_t \<times> 's) option"
  se_listen :: "addr \<Rightarrow> u8 \<Rightarrow> 's \<Rightarrow> (addr \<times> 's) option"
  se_connect :: "addr \<Rightarrow> u32 \<Rightarrow> u16 \<Rightarrow> 's \<Rightarrow> (err_t \<times> 's) option"
  se_recved :: "addr \<Rightarrow> u16 \<Rightarrow> 's \<Rightarrow> 's option"
  se_sndbuf :: "addr \<Rightarrow> 's \<Rightarrow> u16 option"
  se_write :: "addr \<Rightarrow> addr \<Rightarrow> u16 \<Rightarrow> 's \<Rightarrow> (err_t \<times> 's) option"
  se_output :: "addr \<Rightarrow> 's \<Rightarrow> 's option"
  se_close :: "addr \<Rightarrow> 's \<Rightarrow> (err_t \<times> 's) option"
  se_abort :: "addr \<Rightarrow> 's \<Rightarrow> 's option"
  se_remote :: "addr \<Rightarrow> 's \<Rightarrow> (u16 \<times> u32) option"

abbreviation se_pbuf :: "('m, 's) tcp_env \<Rightarrow> ('m, 's) pbuf_env" where
  "se_pbuf E \<equiv> le_pbuf (se_link E)"

definition upd_sock :: "nat \<Rightarrow> (bsock \<Rightarrow> bsock) \<Rightarrow> ('k, 'm, 'z) shim_scheme \<Rightarrow> ('k, 'm, 'z) shim_scheme" where
  "upd_sock i f s = s\<lparr>socks := (socks s)[i := f (socks s ! i)]\<rparr>"

definition alloc_slot :: "('k, 'm, 'z) shim_scheme \<Rightarrow> nat option" where
  "alloc_slot s = first_idx (\<lambda>b. k_state b = SK_FREE) (socks s)"

text \<open>The index of a descriptor, None outside the table.\<close>

definition sock_index :: "slong \<Rightarrow> nat option" where
  "sock_index fd = (let i = fd - SOCK_FD_BASE in if unat i < SOCK_MAX then Some (unat i) else None)"

definition net_shim_is_fd :: "slong \<Rightarrow> ('k, 'm, 'z) shim_scheme \<Rightarrow> bool" where
  "net_shim_is_fd fd s \<longleftrightarrow> (let i = sint (fd - SOCK_FD_BASE)
     in 0 \<le> i \<and> i < int SOCK_MAX \<and> k_state (socks s ! nat i) \<noteq> SK_FREE)"

section \<open>The accept queue\<close>

definition acceptq_push :: "nat \<Rightarrow> bsock \<Rightarrow> bsock" where
  "acceptq_push slot b = b\<lparr>k_acceptq := (k_acceptq b)[k_tail b := slot],
     k_tail := (k_tail b + 1) mod ACCEPTQ_MAX, k_count := k_count b + 1\<rparr>"

definition acceptq_pop :: "bsock \<Rightarrow> nat \<times> bsock" where
  "acceptq_pop b = (k_acceptq b ! k_head b,
     b\<lparr>k_head := (k_head b + 1) mod ACCEPTQ_MAX, k_count := k_count b - 1\<rparr>)"

section \<open>The callbacks\<close>

definition on_recv :: "('m, ('k, 'm, 'z) shim_scheme) tcp_env \<Rightarrow> nat \<Rightarrow> addr \<Rightarrow> err_t \<Rightarrow> ('k, 'm, 'z) shim_scheme \<Rightarrow> (err_t \<times> ('k, 'm, 'z) shim_scheme) option" where
  "on_recv E i p err s =
     (if p = 0 then Some (ERR_OK, upd_sock i (k_eof_update (\<lambda>_. True)) s)
      else if err \<noteq> ERR_OK then do {(_, s1) \<leftarrow> pbuf_free (se_pbuf E) p s; Some (ERR_OK, s1)}
      else if k_rx_head (socks s ! i) \<noteq> 0
      then do {s1 \<leftarrow> pbuf_cat (k_rx_head (socks s ! i)) p s; Some (ERR_OK, s1)}
      else Some (ERR_OK, upd_sock i (k_rx_head_update (\<lambda>_. p)) s))"

definition on_err :: "nat \<Rightarrow> err_t \<Rightarrow> ('k, 'm, 'z) shim_scheme \<Rightarrow> ('k, 'm, 'z) shim_scheme" where
  "on_err i err s = upd_sock i (\<lambda>b. b\<lparr>k_pcb := 0, k_state := SK_ERROR\<rparr>) s"

definition on_connected :: "nat \<Rightarrow> err_t \<Rightarrow> ('k, 'm, 'z) shim_scheme \<Rightarrow> err_t \<times> ('k, 'm, 'z) shim_scheme" where
  "on_connected i err s =
     (ERR_OK, upd_sock i (k_state_update (\<lambda>_. if err = ERR_OK then SK_CONNECTED else SK_ERROR)) s)"

definition on_accept :: "('m, ('k, 'm, 'z) shim_scheme) tcp_env \<Rightarrow> nat \<Rightarrow> addr \<Rightarrow> err_t \<Rightarrow> ('k, 'm, 'z) shim_scheme \<Rightarrow> (err_t \<times> ('k, 'm, 'z) shim_scheme) option" where
  "on_accept E l newpcb err s =
     (if err \<noteq> ERR_OK \<or> newpcb = 0 then Some (ERR_VAL, s)
      else if k_count (socks s ! l) \<ge> ACCEPTQ_MAX then Some (ERR_MEM, s)
      else case alloc_slot s of None \<Rightarrow> Some (ERR_MEM, s)
      | Some slot \<Rightarrow> do {
          s1 \<leftarrow> se_arg E newpcb (Some slot)
                 (upd_sock slot (\<lambda>_. reset_sock\<lparr>k_state := SK_CONNECTED, k_pcb := newpcb\<rparr>) s);
          s2 \<leftarrow> se_recv E newpcb True s1;
          s3 \<leftarrow> se_err E newpcb True s2;
          Some (ERR_OK, upd_sock l (acceptq_push slot) s3)})"

section \<open>The calls\<close>

definition net_ensure_ready :: "'k kernel \<Rightarrow> ('m, ('k, 'm, 'z) shim_scheme) tcp_env \<Rightarrow> ('k, 'm, 'z) shim_scheme \<Rightarrow> ('k, 'm, 'z) shim_scheme option" where
  "net_ensure_ready K E s =
     (if net_ready s then Some s
      else do {
        s1 \<leftarrow> net_init K (se_link E) s;
        (_, s2) \<leftarrow> net_wait_ready K (se_link E) NET_BLOCK_TIMEOUT_MS s1;
        Some (s2\<lparr>net_ready := True\<rparr>)})"

definition net_shim_socket :: "'k kernel \<Rightarrow> ('m, ('k, 'm, 'z) shim_scheme) tcp_env \<Rightarrow> slong \<Rightarrow> slong \<Rightarrow> slong \<Rightarrow> ('k, 'm, 'z) shim_scheme \<Rightarrow> (slong \<times> ('k, 'm, 'z) shim_scheme) option" where
  "net_shim_socket K E domain type protocol s = do {
     s1 \<leftarrow> net_ensure_ready K E s;
     if domain \<noteq> 2 \<or> type AND 0xFF \<noteq> 1 then Some (- EAFNOSUPPORT, s1)
     else case alloc_slot s1 of None \<Rightarrow> Some (- EMFILE, s1)
     | Some slot \<Rightarrow> do {
         (pcb, s2) \<leftarrow> se_new E (upd_sock slot (\<lambda>_. reset_sock) s1);
         let s3 = upd_sock slot (k_pcb_update (\<lambda>_. pcb)) s2;
         if pcb = 0 then Some (- ENOMEM, s3)
         else do {
           s4 \<leftarrow> se_arg E pcb (Some slot) (upd_sock slot (k_state_update (\<lambda>_. SK_CLOSED)) s3);
           Some (SOCK_FD_BASE + of_nat slot, s4)}}}"

text \<open>The address and the port of a \<^verbatim>\<open>struct sockaddr_in\<close>.\<close>

definition sin_addr :: "memory \<Rightarrow> addr \<Rightarrow> u32" where
  "sin_addr m a = of_le_bytes (mem_read m (a + 4) 4)"

definition sin_port :: "memory \<Rightarrow> addr \<Rightarrow> u16" where
  "sin_port m a = of_le_bytes (mem_read m (a + 2) 2)"

definition net_shim_bind :: "('m, ('k, 'm, 'z) shim_scheme) tcp_env \<Rightarrow> slong \<Rightarrow> addr \<Rightarrow> slong \<Rightarrow> ('k, 'm, 'z) shim_scheme \<Rightarrow> (slong \<times> ('k, 'm, 'z) shim_scheme) option" where
  "net_shim_bind E fd a addrlen s = do {
     i \<leftarrow> sock_index fd;
     if addrlen < 16 then Some (- EINVAL, s)
     else do {
       (e, s1) \<leftarrow> se_bind E (k_pcb (socks s ! i)) (sin_addr (mem s) a) (lwip_htons (sin_port (mem s) a)) s;
       Some (if e = ERR_OK then 0 else - EADDRINUSE, s1)}}"

definition net_shim_listen :: "('m, ('k, 'm, 'z) shim_scheme) tcp_env \<Rightarrow> slong \<Rightarrow> slong \<Rightarrow> ('k, 'm, 'z) shim_scheme \<Rightarrow> (slong \<times> ('k, 'm, 'z) shim_scheme) option" where
  "net_shim_listen E fd backlog s = do {
     i \<leftarrow> sock_index fd;
     (lpcb, s1) \<leftarrow> se_listen E (k_pcb (socks s ! i)) (ucast backlog) s;
     if lpcb = 0 then Some (- EADDRINUSE, s1)
     else do {
       s2 \<leftarrow> se_arg E lpcb (Some i) (upd_sock i (\<lambda>b. b\<lparr>k_pcb := lpcb, k_state := SK_LISTENING\<rparr>) s1);
       s3 \<leftarrow> se_accept E lpcb True s2;
       Some (0, s3)}}"

text \<open>
  The wait of \<^verbatim>\<open>net_shim_accept\<close>: the loop ends (Some None) when a connection is queued, and the call
  returns an error when the socket is not listening.
\<close>

definition accept_check :: "nat \<Rightarrow> ('k, 'm, 'z) shim_scheme \<Rightarrow> (slong option option \<times> ('k, 'm, 'z) shim_scheme) option" where
  "accept_check i s =
     Some (if k_count (socks s ! i) \<noteq> 0 then Some None
           else if k_state (socks s ! i) \<noteq> SK_LISTENING then Some (Some (- EINVAL)) else None, s)"

definition peer_sockaddr :: "u16 \<Rightarrow> u32 \<Rightarrow> u8 list" where
  "peer_sockaddr port ip = le_bytes 2 (2 :: u16) @ le_bytes 2 (lwip_htons port) @ le_bytes 4 ip @ replicate 8 0"

definition take_accepted :: "('m, ('k, 'm, 'z) shim_scheme) tcp_env \<Rightarrow> nat \<Rightarrow> addr \<Rightarrow> addr \<Rightarrow> ('k, 'm, 'z) shim_scheme \<Rightarrow> (slong \<times> ('k, 'm, 'z) shim_scheme) option" where
  "take_accepted E i a addrlenp s = do {
     let (slot, b) = acceptq_pop (socks s ! i);
     let s1 = upd_sock i (\<lambda>_. b) s;
     if a \<noteq> 0 \<and> addrlenp \<noteq> 0 \<and> (of_le_bytes (mem_read (mem s1) addrlenp 4) :: u32) \<ge> 16
     then if slot \<ge> length (socks s1) then None
       else do {
         (port, ip) \<leftarrow> se_remote E (k_pcb (socks s1 ! slot)) s1;
         let m = mem_write (mem s1) a (peer_sockaddr port ip);
         Some (SOCK_FD_BASE + of_nat slot, s1\<lparr>mem := mem_write m addrlenp (le_bytes 4 (16 :: u32))\<rparr>)}
     else Some (SOCK_FD_BASE + of_nat slot, s1)}"

definition net_shim_accept :: "'k kernel \<Rightarrow> ('m, ('k, 'm, 'z) shim_scheme) tcp_env \<Rightarrow> slong \<Rightarrow> addr \<Rightarrow> addr \<Rightarrow> ('k, 'm, 'z) shim_scheme \<Rightarrow> (slong \<times> ('k, 'm, 'z) shim_scheme) option" where
  "net_shim_accept K E fd a addrlenp s = do {
     i \<leftarrow> sock_index fd;
     (r, s1) \<leftarrow> block_from_now K (se_link E) (accept_check i) NET_BLOCK_TIMEOUT_MS (Some (- EAGAIN)) s;
     case r of Some v \<Rightarrow> Some (v, s1) | None \<Rightarrow> take_accepted E i a addrlenp s1}"

definition connect_check :: "nat \<Rightarrow> ('k, 'm, 'z) shim_scheme \<Rightarrow> (slong option option \<times> ('k, 'm, 'z) shim_scheme) option" where
  "connect_check i s = Some (if k_state (socks s ! i) \<noteq> SK_CONNECTING then Some None else None, s)"

definition net_shim_connect :: "'k kernel \<Rightarrow> ('m, ('k, 'm, 'z) shim_scheme) tcp_env \<Rightarrow> slong \<Rightarrow> addr \<Rightarrow> slong \<Rightarrow> ('k, 'm, 'z) shim_scheme \<Rightarrow> (slong \<times> ('k, 'm, 'z) shim_scheme) option" where
  "net_shim_connect K E fd a addrlen s = do {
     i \<leftarrow> sock_index fd;
     if addrlen < 16 then Some (- EINVAL, s)
     else do {
       let ip = sin_addr (mem s) a;
       let pcb = k_pcb (socks s ! i);
       s1 \<leftarrow> se_arg E pcb (Some i) s;
       s2 \<leftarrow> se_recv E (k_pcb (socks s1 ! i)) True s1;
       s3 \<leftarrow> se_err E (k_pcb (socks s2 ! i)) True s2;
       let s4 = upd_sock i (k_state_update (\<lambda>_. SK_CONNECTING)) s3;
       (e, s5) \<leftarrow> se_connect E (k_pcb (socks s4 ! i)) ip (lwip_htons (sin_port (mem s4) a)) s4;
       if e \<noteq> ERR_OK then Some (- ECONNREFUSED, upd_sock i (k_state_update (\<lambda>_. SK_ERROR)) s5)
       else do {
         (r, s6) \<leftarrow> block_from_now K (se_link E) (connect_check i) NET_BLOCK_TIMEOUT_MS (Some (- ETIMEDOUT)) s5;
         case r of Some v \<Rightarrow> Some (v, s6)
         | None \<Rightarrow> Some (if k_state (socks s6 ! i) = SK_CONNECTED then 0 else - ECONNREFUSED, s6)}}}"

section \<open>Data\<close>

text \<open>Move to the offset \<open>off\<close> of the first packet buffer, which is freed when it is used up.\<close>

definition rx_advance :: "('m, ('k, 'm, 'z) shim_scheme) tcp_env \<Rightarrow> nat \<Rightarrow> u16 \<Rightarrow> ('k, 'm, 'z) shim_scheme \<Rightarrow> ('k, 'm, 'z) shim_scheme option" where
  "rx_advance E i off s = do {
     let p = k_rx_head (socks s ! i);
     pb \<leftarrow> pbufs s p;
     if off = p_len pb
     then do {
       (_, s1) \<leftarrow> pbuf_free (se_pbuf E) p (put_pbuf p (pb\<lparr>p_next := 0\<rparr>) s);
       Some (upd_sock i (\<lambda>b. b\<lparr>k_rx_head := p_next pb, k_rx_off := 0\<rparr>) s1)}
     else Some (upd_sock i (k_rx_off_update (\<lambda>_. off)) s)}"

definition bsock_read :: "('m, ('k, 'm, 'z) shim_scheme) tcp_env \<Rightarrow> nat \<Rightarrow> addr \<Rightarrow> u64 \<Rightarrow> ('k, 'm, 'z) shim_scheme \<Rightarrow> (slong \<times> ('k, 'm, 'z) shim_scheme) option" where
  "bsock_read E i buf len s = do {
     let b = socks s ! i;
     let p = k_rx_head b;
     pb \<leftarrow> pbufs s p;
     let avail = (ucast (p_len pb) - ucast (k_rx_off b) :: u64);
     let n = (if len < avail then len else avail);
     s2 \<leftarrow> rx_advance E i (k_rx_off b + ucast n)
            (s\<lparr>mem := mem_write (mem s) buf (mem_read (mem s) (p_payload pb + ucast (k_rx_off b)) (unat n))\<rparr>);
     s3 \<leftarrow> (if k_pcb (socks s2 ! i) \<noteq> 0 then se_recved E (k_pcb (socks s2 ! i)) (ucast n) s2 else Some s2);
     Some (n, s3)}"

definition recv_check :: "('m, ('k, 'm, 'z) shim_scheme) tcp_env \<Rightarrow> nat \<Rightarrow> addr \<Rightarrow> u64 \<Rightarrow> ('k, 'm, 'z) shim_scheme \<Rightarrow> (slong option \<times> ('k, 'm, 'z) shim_scheme) option" where
  "recv_check E i buf len s =
     (if k_rx_head (socks s ! i) \<noteq> 0 then do {(n, s1) \<leftarrow> bsock_read E i buf len s; Some (Some n, s1)}
      else if k_eof (socks s ! i) then Some (Some 0, s)
      else if k_state (socks s ! i) = SK_ERROR then Some (Some (- ECONNRESET), s)
      else Some (None, s))"

definition net_shim_recv :: "'k kernel \<Rightarrow> ('m, ('k, 'm, 'z) shim_scheme) tcp_env \<Rightarrow> slong \<Rightarrow> addr \<Rightarrow> u64 \<Rightarrow> slong \<Rightarrow> ('k, 'm, 'z) shim_scheme \<Rightarrow> (slong \<times> ('k, 'm, 'z) shim_scheme) option" where
  "net_shim_recv K E fd buf len flags s = do {
     i \<leftarrow> sock_index fd;
     if len = 0 then Some (0, s)
     else block_from_now K (se_link E) (recv_check E i buf len) NET_BLOCK_TIMEOUT_MS (- ETIMEDOUT) s}"

definition bsock_write :: "('m, ('k, 'm, 'z) shim_scheme) tcp_env \<Rightarrow> nat \<Rightarrow> addr \<Rightarrow> u64 \<Rightarrow> ('k, 'm, 'z) shim_scheme \<Rightarrow> (slong \<times> ('k, 'm, 'z) shim_scheme) option" where
  "bsock_write E i buf len s = do {
     let b = socks s ! i;
     if k_state b = SK_ERROR \<or> k_pcb b = 0 then Some (- ECONNRESET, s)
     else do {
       sndbuf \<leftarrow> se_sndbuf E (k_pcb b) s;
       if sndbuf = 0 then Some (0, s)
       else do {
         let n0 = (if len < ucast sndbuf then len else ucast sndbuf);
         let n = (if n0 > 0xFFFF then 0xFFFF else n0);
         (e, s1) \<leftarrow> se_write E (k_pcb b) buf (ucast n) s;
         if e \<noteq> ERR_OK then Some (if e = ERR_MEM then 0 else - ECONNRESET, s1)
         else do {
           s2 \<leftarrow> se_output E (k_pcb (socks s1 ! i)) s1;
           Some (n, s2)}}}}"

definition send_check :: "('m, ('k, 'm, 'z) shim_scheme) tcp_env \<Rightarrow> nat \<Rightarrow> addr \<Rightarrow> u64 \<Rightarrow> ('k, 'm, 'z) shim_scheme \<Rightarrow> (slong option \<times> ('k, 'm, 'z) shim_scheme) option" where
  "send_check E i buf len s = do {
     (n, s1) \<leftarrow> bsock_write E i buf len s;
     Some (if n \<noteq> 0 then Some n
           else if k_state (socks s1 ! i) = SK_ERROR then Some (- ECONNRESET) else None, s1)}"

definition net_shim_send :: "'k kernel \<Rightarrow> ('m, ('k, 'm, 'z) shim_scheme) tcp_env \<Rightarrow> slong \<Rightarrow> addr \<Rightarrow> u64 \<Rightarrow> slong \<Rightarrow> ('k, 'm, 'z) shim_scheme \<Rightarrow> (slong \<times> ('k, 'm, 'z) shim_scheme) option" where
  "net_shim_send K E fd buf len flags s = do {
     i \<leftarrow> sock_index fd;
     if len = 0 then Some (0, s)
     else block_from_now K (se_link E) (send_check E i buf len) NET_BLOCK_TIMEOUT_MS (- ETIMEDOUT) s}"

section \<open>Closing\<close>

partial_function (option) drop_rx :: "('m, ('k, 'm, 'z) shim_scheme) tcp_env \<Rightarrow> nat \<Rightarrow> ('k, 'm, 'z) shim_scheme \<Rightarrow> ('k, 'm, 'z) shim_scheme option" where
  "drop_rx E i s =
     (let p = k_rx_head (socks s ! i)
      in if p = 0 then Some s
         else do {
           pb \<leftarrow> pbufs s p;
           (_, s1) \<leftarrow> pbuf_free (se_pbuf E) p (put_pbuf p (pb\<lparr>p_next := 0\<rparr>) s);
           drop_rx E i (upd_sock i (k_rx_head_update (\<lambda>_. p_next pb)) s1)})"

definition detach_pcb :: "('m, ('k, 'm, 'z) shim_scheme) tcp_env \<Rightarrow> nat \<Rightarrow> ('k, 'm, 'z) shim_scheme \<Rightarrow> ('k, 'm, 'z) shim_scheme option" where
  "detach_pcb E i s = do {
     let pcb = k_pcb (socks s ! i);
     s1 \<leftarrow> se_arg E pcb None s;
     s2 \<leftarrow> (if k_state (socks s1 ! i) = SK_LISTENING then se_accept E pcb False s1
            else do {s' \<leftarrow> se_recv E pcb False s1; se_err E pcb False s'});
     (e, s3) \<leftarrow> se_close E pcb s2;
     if e \<noteq> ERR_OK then se_abort E pcb s3 else Some s3}"

definition net_shim_close :: "('m, ('k, 'm, 'z) shim_scheme) tcp_env \<Rightarrow> slong \<Rightarrow> ('k, 'm, 'z) shim_scheme \<Rightarrow> (slong \<times> ('k, 'm, 'z) shim_scheme) option" where
  "net_shim_close E fd s = do {
     i \<leftarrow> sock_index fd;
     s1 \<leftarrow> (if k_pcb (socks s ! i) \<noteq> 0 then detach_pcb E i s else Some s);
     s2 \<leftarrow> drop_rx E i s1;
     Some (0, upd_sock i (k_state_update (\<lambda>_. SK_FREE)) s2)}"

section \<open>Bounded queues\<close>

text \<open>The first \<open>n\<close> items a queue gives, and the queue after them.\<close>

fun drain :: "('q \<Rightarrow> 'a \<times> 'q) \<Rightarrow> nat \<Rightarrow> 'q \<Rightarrow> 'a list \<times> 'q" where
  "drain pop 0 q = ([], q)"
| "drain pop (Suc n) q = (let (x, q1) = pop q; (xs, q2) = drain pop n q1 in (x # xs, q2))"

text \<open>What a bounded queue promises, over the list of the items in it.\<close>

locale bounded_fifo =
  fixes push :: "'a \<Rightarrow> 'q \<Rightarrow> 'q" and pop :: "'q \<Rightarrow> 'a \<times> 'q"
    and items :: "'q \<Rightarrow> 'a list" and ok :: "'q \<Rightarrow> bool" and cap :: nat
  assumes push_ok: "ok q \<Longrightarrow> length (items q) < cap \<Longrightarrow> ok (push x q)"
    and push_items: "ok q \<Longrightarrow> length (items q) < cap \<Longrightarrow> items (push x q) = items q @ [x]"
    and pop_ok: "ok q \<Longrightarrow> items q \<noteq> [] \<Longrightarrow> ok (snd (pop q))"
    and pop_items: "ok q \<Longrightarrow> items q \<noteq> [] \<Longrightarrow> items q = fst (pop q) # items (snd (pop q))"
begin

lemma pushes:
  "ok q \<Longrightarrow> length (items q) + length xs \<le> cap \<Longrightarrow> ok (fold push xs q) \<and> items (fold push xs q) = items q @ xs"
  by (induction xs arbitrary: q) (auto simp: push_ok push_items)

lemma drains:
  "ok q \<Longrightarrow> n \<le> length (items q) \<Longrightarrow>
    fst (drain pop n q) = take n (items q) \<and> items (snd (drain pop n q)) = drop n (items q) \<and> ok (snd (drain pop n q))"
proof (induction n arbitrary: q)
  case (Suc n)
  obtain x q1 where x: "pop q = (x, q1)" by fastforce
  have "items q \<noteq> []" using Suc.prems(2) by auto
  then have "ok q1" "items q = x # items q1" using pop_ok pop_items Suc.prems(1) x by (metis fst_conv snd_conv)+
  then show ?case using Suc.IH [of q1] Suc.prems(2) x by (auto split: prod.splits)
qed simp

lemma fifo:
  assumes "ok q" "length (items q) + length xs \<le> cap"
  shows "fst (drain pop (length (items q) + length xs) (fold push xs q)) = items q @ xs"
  using pushes [OF assms] drains [of "fold push xs q" "length (items q) + length xs"] by simp

end

text \<open>The ring of a socket: its invariant, and the slots in it from the oldest to the newest.\<close>

definition queue_ok :: "bsock \<Rightarrow> bool" where
  "queue_ok b \<longleftrightarrow> length (k_acceptq b) = ACCEPTQ_MAX \<and> k_head b < ACCEPTQ_MAX \<and> k_count b \<le> ACCEPTQ_MAX \<and>
     k_tail b = (k_head b + k_count b) mod ACCEPTQ_MAX"

definition queue_items :: "bsock \<Rightarrow> nat list" where
  "queue_items b = map (\<lambda>j. k_acceptq b ! ((k_head b + j) mod ACCEPTQ_MAX)) [0..<k_count b]"

lemma length_queue_items [simp]: "length (queue_items b) = k_count b"
  by (simp add: queue_items_def)

lemma mod_add_inj:
  assumes "(h + i) mod m = (h + j) mod m" "i < m" "j < m" "i \<le> j"
  shows "i = (j :: nat)"
proof -
  have "m dvd (h + j) - (h + i)" using mod_eq_dvd_iff_nat [of "h + i" "h + j" m] assms(1,4) by simp
  then have "m dvd j - i" by simp
  then show ?thesis using assms(3,4) by (metis diff_is_0_eq' diff_le_self dvd_imp_le le_antisym le_less_trans not_less zero_less_diff)
qed

interpretation aq: bounded_fifo acceptq_push acceptq_pop queue_items queue_ok ACCEPTQ_MAX
proof
  fix b :: bsock and x
  assume b: "queue_ok b" "length (queue_items b) < ACCEPTQ_MAX"
  show "queue_ok (acceptq_push x b)" using b by (simp add: queue_ok_def acceptq_push_def mod_Suc_eq)
  have "(k_head b + j) mod ACCEPTQ_MAX \<noteq> k_tail b" if "j < k_count b" for j
    using b that mod_add_inj [of "k_head b" j ACCEPTQ_MAX "k_count b"] by (auto simp: queue_ok_def)
  then have old: "(k_acceptq b)[k_tail b := x] ! ((k_head b + j) mod ACCEPTQ_MAX) = k_acceptq b ! ((k_head b + j) mod ACCEPTQ_MAX)"
    if "j < k_count b" for j using that by (metis nth_list_update_neq)
  have "k_tail b < length (k_acceptq b)" using b by (simp add: queue_ok_def ACCEPTQ_MAX_def)
  then have "queue_items (acceptq_push x b) = map (\<lambda>j. k_acceptq b ! ((k_head b + j) mod ACCEPTQ_MAX)) [0..<k_count b] @ [x]"
    using b old by (simp add: queue_items_def acceptq_push_def queue_ok_def cong: map_cong)
  then show "queue_items (acceptq_push x b) = queue_items b @ [x]" by (simp add: queue_items_def)
next
  fix b :: bsock
  assume b: "queue_ok b" "queue_items b \<noteq> []"
  then have c: "k_count b > 0" by (auto simp: queue_items_def)
  have mod: "(Suc (k_head b) mod ACCEPTQ_MAX + j) mod ACCEPTQ_MAX = (k_head b + Suc j) mod ACCEPTQ_MAX" for j
    by (simp add: mod_add_left_eq)
  show "queue_ok (snd (acceptq_pop b))"
    using b(1) c mod [of "k_count b - 1"] by (auto simp: queue_ok_def acceptq_pop_def ACCEPTQ_MAX_def)
  have "[0..<k_count b] = 0 # map Suc [0..<k_count b - 1]"
    using c by (metis Suc_diff_1 map_Suc_upt upt_conv_Cons)
  then show "queue_items b = fst (acceptq_pop b) # queue_items (snd (acceptq_pop b))"
    using b(1) by (simp add: queue_items_def acceptq_pop_def mod queue_ok_def)
qed

end
