(* ===== verification/BM_Frame.thy ===== *)
theory BM_Frame
  imports BM_Net_Glue
begin

text \<open>
  What the packet buffers and the Ethernet layer leave alone.  A component that keeps a part of the
  state of its own (the socket table, the ARP table) says that two states agree on it by a relation that
  ignores memory, the kernel, the allocator and the packet buffers; the operations below it are then
  shown once to relate the states before and after.
\<close>

text \<open>
  The functions behind pointers, which free custom buffers and send on interfaces other than the
  BareMetal one, leave a part of the state alone.
\<close>

definition env_quiet :: "('s \<Rightarrow> 's \<Rightarrow> bool) \<Rightarrow> ('m, 's) link_env \<Rightarrow> bool" where
  "env_quiet same E \<longleftrightarrow> (\<forall>p s s'. e_custom_free (le_pbuf E) p s = Some s' \<longrightarrow> same s s') \<and>
     (\<forall>f i p s e s'. le_linkoutput E f i p s = Some (e, s') \<longrightarrow> same s s')"

locale own_state =
  fixes same :: "('k, 'm, 'z) link_scheme \<Rightarrow> ('k, 'm, 'z) link_scheme \<Rightarrow> bool"
  assumes same_refl: "same s s"
    and same_trans: "same s s1 \<Longrightarrow> same s1 s2 \<Longrightarrow> same s s2"
    and same_mem: "same s (s\<lparr>mem := m\<rparr>)"
    and same_kern: "same s (s\<lparr>kern := k\<rparr>)"
    and same_alloc: "same s (s\<lparr>alloc := a\<rparr>)"
    and same_pbufs: "same s (s\<lparr>pbufs := P\<rparr>)"
begin

lemma put_pbuf_same: "same s (put_pbuf p b s)"
  unfolding put_pbuf_def by (rule same_pbufs)

lemma mem_free_same: "mem_free E p s = Some s' \<Longrightarrow> same s s'"
proof -
  assume "mem_free E p s = Some s'"
  then have "s' = (s\<lparr>alloc := e_free E p (alloc s)\<rparr>)\<lparr>pbufs := (pbufs s)(p := None)\<rparr>"
    by (simp add: mem_free_def split: if_splits)
  then show ?thesis using same_trans [OF same_alloc same_pbufs] by simp
qed

lemma dealloc_same:
  "pbuf_dealloc E p b s = Some s' \<Longrightarrow> (\<And>p s s'. e_custom_free E p s = Some s' \<Longrightarrow> same s s') \<Longrightarrow> same s s'"
  by (auto simp: pbuf_dealloc_def dest: mem_free_same split: if_splits)

lemma free_loop_same:
  assumes "pbuf_free_loop E p cnt s = Some y" "\<And>p s s'. e_custom_free E p s = Some s' \<Longrightarrow> same s s'"
  shows "same s (snd y)"
proof -
  have "(\<forall>p s s'. e_custom_free E p s = Some s' \<longrightarrow> same s s') \<longrightarrow> same s (snd y)"
  proof (rule pbuf_free_loop.raw_induct [OF _ assms(1),
      where P = "\<lambda>E p cnt s y. (\<forall>p s s'. e_custom_free E p s = Some s' \<longrightarrow> same s s') \<longrightarrow> same s (snd y)"], goal_cases)
    case (1 loop E p cnt s y)
    show ?case
      using 1(2) by (auto simp: bind_eq_Some_conv Let_def split: if_splits
        dest!: dealloc_same 1(1) intro: same_refl put_pbuf_same same_trans [OF put_pbuf_same] same_trans)
  qed
  then show ?thesis using assms(2) by blast
qed

lemma free_same:
  "pbuf_free E p s = Some (r, s') \<Longrightarrow> (\<And>p s s'. e_custom_free E p s = Some s' \<Longrightarrow> same s s') \<Longrightarrow> same s s'"
  using free_loop_same [of E p 0 s "(r, s')"] by (auto simp: pbuf_free_def split: if_splits)

lemma mem_copy_same: "same s (mem_copy a b n s)"
  unfolding mem_copy_def by (rule same_mem)

lemma take_loop_same:
  assumes "pbuf_take_loop p d n c s = Some s'"
  shows "same s s'"
proof (rule pbuf_take_loop.raw_induct [OF _ assms, where P = "\<lambda>p d n c s s'. same s s'"], goal_cases)
  case (1 loop p d n c s s')
  show ?case
    using 1(2) by (auto simp: bind_eq_Some_conv Let_def split: if_splits dest!: 1(1) intro: same_refl same_trans [OF mem_copy_same])
qed

lemma take_same: "pbuf_take p d n s = Some (e, s') \<Longrightarrow> same s s'"
  by (auto simp: pbuf_take_def bind_eq_Some_conv split: if_splits intro: same_refl dest: take_loop_same)

lemma copy_partial_loop_same:
  assumes "copy_partial_loop p d n l off c s = Some y"
  shows "same s (snd y)"
proof (rule copy_partial_loop.raw_induct [OF _ assms, where P = "\<lambda>p d n l off c s y. same s (snd y)"], goal_cases)
  case (1 loop p d n l off c s y)
  show ?case
    using 1(2) by (auto simp: bind_eq_Some_conv Let_def split: if_splits dest!: 1(1) intro: same_refl same_trans [OF mem_copy_same])
qed

lemma copy_partial_same: "pbuf_copy_partial p d n off s = Some (e, s') \<Longrightarrow> same s s'"
  using copy_partial_loop_same [of p d n 0 off 0 s "(e, s')"] by (auto simp: pbuf_copy_partial_def split: if_splits intro: same_refl)

lemma copy_pbuf_loop_same:
  assumes "copy_pbuf_loop pt pf n ot off s = Some y"
  shows "same s (snd y)"
proof (rule copy_pbuf_loop.raw_induct [OF _ assms, where P = "\<lambda>pt pf n ot off s y. same s (snd y)"], goal_cases)
  case (1 loop pt pf n ot off s y)
  show ?case
    using 1(2) by (auto simp: bind_eq_Some_conv Let_def split: if_splits dest!: 1(1)
        intro: mem_copy_same same_trans [OF mem_copy_same])
qed

lemma copy_same: "pbuf_copy pt pf s = Some (e, s') \<Longrightarrow> same s s'"
  using copy_pbuf_loop_same [of pt pf _ _ _ s "(e, s')"]
  by (auto simp: pbuf_copy_def pbuf_copy_partial_pbuf_def bind_eq_Some_conv split: if_splits intro: same_refl)

lemma cat_loop_same:
  assumes "pbuf_cat_loop p t s = Some s'"
  shows "same s s'"
proof (rule pbuf_cat_loop.raw_induct [OF _ assms, where P = "\<lambda>p t s s'. same s s'"], goal_cases)
  case (1 loop p t s s')
  show ?case
    using 1(2) by (auto simp: bind_eq_Some_conv split: if_splits dest!: 1(1) intro: put_pbuf_same same_trans [OF put_pbuf_same])
qed

lemma cat_same: "pbuf_cat h t s = Some s' \<Longrightarrow> same s s'"
  by (auto simp: pbuf_cat_def split: if_splits intro: same_refl dest: cat_loop_same)

lemma malloc_same: "mem_malloc E n s = Some (p, s') \<Longrightarrow> same s s'"
  by (auto simp: mem_malloc_def split: prod.splits if_splits intro: same_alloc)

lemma alloc_ram_same: "pbuf_alloc E l n PBUF_RAM s = Some (p, s') \<Longrightarrow> same s s'"
  by (auto simp: pbuf_alloc_def pbuf_consts pbuf_alloc_ram_def Let_def bind_eq_Some_conv pbuf_init_alloced_pbuf_def
      split: if_splits dest!: malloc_same intro: same_refl same_trans [OF _ put_pbuf_same])

lemma ref_same: "pbuf_ref p s = Some s' \<Longrightarrow> same s s'"
  by (auto simp: pbuf_ref_def bind_eq_Some_conv split: if_splits intro: same_refl put_pbuf_same)

lemma remove_header_same: "pbuf_remove_header p k s = Some (r, s') \<Longrightarrow> same s s'"
  by (auto simp: pbuf_remove_header_def Let_def bind_eq_Some_conv split: if_splits intro: same_refl put_pbuf_same)

lemma add_header_same: "pbuf_add_header p k s = Some (r, s') \<Longrightarrow> same s s'"
  by (auto simp: pbuf_add_header_def pbuf_add_header_impl_def Let_def bind_eq_Some_conv split: if_splits intro: same_refl put_pbuf_same)

lemma clone_same:
  "pbuf_clone E l PBUF_RAM p s = Some (q, s') \<Longrightarrow> (\<And>p s s'. e_custom_free E p s = Some s' \<Longrightarrow> same s s') \<Longrightarrow> same s s'"
  by (auto simp: pbuf_clone_def Let_def bind_eq_Some_conv split: if_splits
      dest!: alloc_ram_same copy_same free_same intro: same_trans)

lemma low_level_output_same: "low_level_output K E p s = Some (e, s') \<Longrightarrow> same s s'"
  by (auto simp: low_level_output_def b_net_tx_def bind_eq_Some_conv split: if_splits
      dest!: copy_partial_same intro: same_refl same_trans [OF _ same_kern])

lemma linkoutput_same:
  "linkoutput K E f i p s = Some (e, s') \<Longrightarrow> (\<And>f i p s e s'. le_linkoutput E f i p s = Some (e, s') \<Longrightarrow> same s s') \<Longrightarrow> same s s'"
  by (cases f) (auto simp: linkoutput_def intro: low_level_output_same)

lemma ethernet_output_same:
  assumes "ethernet_output K E i p src dst ty s = Some (e, s')"
    and "\<And>f i p s e s'. le_linkoutput E f i p s = Some (e, s') \<Longrightarrow> same s s'"
  shows "same s s'"
proof -
  obtain r s1 where 1: "pbuf_add_header p (ucast SIZEOF_ETH_HDR) s = Some (r, s1)"
      "s' = s1 \<or> (\<exists>m f. linkoutput K E f i p (s1\<lparr>mem := m\<rparr>) = Some (e, s'))"
    using assms(1) by (auto simp: ethernet_output_def bind_eq_Some_conv Let_def split: if_splits)
  from 1(2) have "same s1 s'"
    by (auto intro: same_refl same_trans [OF same_mem] dest: linkoutput_same [OF _ assms(2)])
  then show ?thesis using add_header_same [OF 1(1)] same_trans by blast
qed

end

end
