(* ===== verification/BM_Poll.thy ===== *)
theory BM_Poll
  imports BM_Frame
begin

text \<open>
  What a poll and the start of the network do to a state.  A relation between states that holds for the
  changes of the buffers, the timers and the interfaces, and for every function of the environment, holds
  between the states before and after the poll.  The socket table and the ARP table each have such a
  relation of their own.
\<close>

section \<open>The contract of the environment\<close>

definition env_steps :: "('s \<Rightarrow> 's \<Rightarrow> bool) \<Rightarrow> ('m, 's) link_env \<Rightarrow> bool" where
  "env_steps R L \<longleftrightarrow> (let N = le_netif L; T = ne_timer N in
     (\<forall>p s s'. e_custom_free (le_pbuf L) p s = Some s' \<longrightarrow> R s s') \<and>
     (\<forall>a b s s'. ne_ip_addr_changed N a b s = Some s' \<longrightarrow> R s s') \<and> (\<forall>i s s'. ne_etharp_gratuitous N i s = Some s' \<longrightarrow> R s s') \<and>
     (\<forall>s s'. le_udp_init L s = Some s' \<longrightarrow> R s s') \<and> (\<forall>s s'. le_tcp_init L s = Some s' \<longrightarrow> R s s') \<and>
     (\<forall>i s s'. le_dhcp_start L i s = Some s' \<longrightarrow> R s s') \<and> (\<forall>p i s s'. le_ip4_input L p i s = Some s' \<longrightarrow> R s s') \<and>
     (\<forall>p i s s'. le_etharp_input L p i s = Some s' \<longrightarrow> R s s') \<and> (\<forall>f p i s e s'. le_input L f p i s = Some (e, s') \<longrightarrow> R s s') \<and>
     (\<forall>t s s'. te_tmr T t s = Some s' \<longrightarrow> R s s') \<and> (\<forall>f a s s'. te_call T f a s = Some s' \<longrightarrow> R s s'))"

lemma env_stepsD:
  assumes "env_steps R L"
  shows "\<And>p s s'. e_custom_free (le_pbuf L) p s = Some s' \<Longrightarrow> R s s'"
    "\<And>a b s s'. ne_ip_addr_changed (le_netif L) a b s = Some s' \<Longrightarrow> R s s'" "\<And>i s s'. ne_etharp_gratuitous (le_netif L) i s = Some s' \<Longrightarrow> R s s'"
    "\<And>s s'. le_udp_init L s = Some s' \<Longrightarrow> R s s'" "\<And>s s'. le_tcp_init L s = Some s' \<Longrightarrow> R s s'"
    "\<And>i s s'. le_dhcp_start L i s = Some s' \<Longrightarrow> R s s'" "\<And>p i s s'. le_ip4_input L p i s = Some s' \<Longrightarrow> R s s'"
    "\<And>p i s s'. le_etharp_input L p i s = Some s' \<Longrightarrow> R s s'" "\<And>f p i s e s'. le_input L f p i s = Some (e, s') \<Longrightarrow> R s s'"
    "\<And>t s s'. te_tmr (ne_timer (le_netif L)) t s = Some s' \<Longrightarrow> R s s'" "\<And>f a s s'. te_call (ne_timer (le_netif L)) f a s = Some s' \<Longrightarrow> R s s'"
  using assms unfolding env_steps_def Let_def by auto

locale own_net = own_state same for same :: "('k, 'm, 'z) link_scheme \<Rightarrow> ('k, 'm, 'z) link_scheme \<Rightarrow> bool" +
  assumes same_timeouts: "same s (s\<lparr>next_timeout := ts\<rparr>)"
    and same_due: "same s (s\<lparr>current_timeout_due_time := t\<rparr>)"
    and same_active: "same s (s\<lparr>tcpip_tcp_timer_active := x\<rparr>)"
    and same_netif_store: "same s (s\<lparr>netif_store := N\<rparr>)"
    and same_netif_list: "same s (s\<lparr>netif_list := l\<rparr>)"
    and same_netif_default: "same s (s\<lparr>netif_default := i\<rparr>)"
    and same_netif_num: "same s (s\<lparr>netif_num := n\<rparr>)"
    and same_rand: "same s (s\<lparr>rand_seed := v\<rparr>)"
begin

section \<open>Timers\<close>

lemma timeout_abs_same: "sys_timeout_abs T t h a s = Some s' \<Longrightarrow> same s s'"
  by (auto simp: sys_timeout_abs_def bind_eq_Some_conv split: if_splits dest!: malloc_same intro: same_trans [OF _ same_timeouts])

lemma timeout_same: "sys_timeout K T n h a s = Some s' \<Longrightarrow> same s s'"
  by (auto simp: sys_timeout_def sys_now_eq split: if_splits dest!: timeout_abs_same intro: same_trans [OF same_kern])

lemma init_loop_same: "timeouts_init_loop K T is s = Some s' \<Longrightarrow> same s s'"
  by (induction "is" arbitrary: s) (auto simp: bind_eq_Some_conv dest!: timeout_same intro: same_refl elim!: same_trans)

lemma tcp_timer_same:
  assumes "env_steps same L" "tcpip_tcp_timer K (ne_timer (le_netif L)) s = Some s'"
  shows "same s s'"
  using assms(2) by (auto simp: tcpip_tcp_timer_def bind_eq_Some_conv split: if_splits
      dest!: env_stepsD(10) [OF assms(1)] timeout_same intro: same_active elim!: same_trans)

lemma cyclic_timer_same:
  assumes "env_steps same L" "lwip_cyclic_timer K (ne_timer (le_netif L)) a s = Some s'"
  shows "same s s'"
  using assms(2) by (auto simp: lwip_cyclic_timer_def bind_eq_Some_conv sys_now_eq Let_def split: if_splits timer_arg.splits
      dest!: env_stepsD(10) [OF assms(1)] timeout_abs_same elim!: same_trans intro: same_trans [OF same_kern])

lemma handler_same: "env_steps same L \<Longrightarrow> call_handler K (ne_timer (le_netif L)) h a s = Some s' \<Longrightarrow> same s s'"
  by (cases h) (auto simp: call_handler_def dest: env_stepsD(11) tcp_timer_same cyclic_timer_same intro: same_refl)

lemma check_loop_same:
  assumes "check_loop K T now s = Some s'" "T = ne_timer (le_netif L)" "env_steps same L"
  shows "same s s'"
proof -
  have "T = ne_timer (le_netif L) \<longrightarrow> same s s'"
  proof (rule check_loop.raw_induct [OF _ assms(1), where P = "\<lambda>K T now s s'. T = ne_timer (le_netif L) \<longrightarrow> same s s'"], goal_cases)
    case (1 loop K T now s s')
    show ?case
    proof (intro impI)
      assume T: "T = ne_timer (le_netif L)"
      show "same s s'"
      proof (cases "s' = s")
        case False
        then obtain t ts where n: "next_timeout s = t # ts" using 1(2) by (cases "next_timeout s") auto
        then obtain s1 s2 where t: "mem_free (te_pbuf T) (t_addr t) (s\<lparr>next_timeout := ts, current_timeout_due_time := t_time t\<rparr>) = Some s1"
            "call_handler K T (t_h t) (t_arg t) s1 = Some s2" "loop K T now s2 = Some s'"
          using 1(2) False by (auto simp: bind_eq_Some_conv split: if_splits)
        have "same s s1" using same_trans [OF same_trans [OF same_timeouts same_due] mem_free_same [OF t(1)]] .
        moreover have "same s1 s2" using handler_same [OF assms(3)] t(2) T by blast
        ultimately show ?thesis using 1(1) [OF t(3)] T by (blast intro: same_trans)
      qed (use same_refl in simp)
    qed
  qed
  then show ?thesis using assms(2) by blast
qed

lemma check_timeouts_same: "env_steps same L \<Longrightarrow> sys_check_timeouts K (ne_timer (le_netif L)) s = Some s' \<Longrightarrow> same s s'"
  by (auto simp: sys_check_timeouts_def sys_now_eq dest!: check_loop_same intro: same_trans [OF same_kern])

section \<open>Frames\<close>

lemma env_free_same: "env_steps same L \<Longrightarrow> pbuf_free (le_pbuf L) p s = Some (r, s') \<Longrightarrow> same s s'"
  by (erule free_same) (rule env_stepsD(1))

lemma free_return_same: "env_steps same L \<Longrightarrow> free_and_return L p s = Some (e, s') \<Longrightarrow> same s s'"
  by (auto simp: free_and_return_def bind_eq_Some_conv dest: env_free_same)

lemma pass_up_same:
  assumes "pass_up L up n p i s = Some (e, s')" "env_steps same L" "\<And>s s'. up p i s = Some s' \<Longrightarrow> same s s'"
  shows "same s s'"
  using assms(1) by (auto simp: pass_up_def bind_eq_Some_conv split: if_splits prod.splits
      dest!: remove_header_same free_return_same [OF assms(2)] assms(3) intro: same_trans)

lemma ethernet_input_same:
  assumes "env_steps same L" "ethernet_input L p i s = Some (e, s')"
  shows "same s s'"
proof -
  obtain b where b: "pbufs s p = Some b" using assms(2) by (auto simp: ethernet_input_def bind_eq_Some_conv)
  show ?thesis
  proof (cases "p_len b \<le> SIZEOF_ETH_HDR")
    case True
    then show ?thesis using assms b free_return_same by (auto simp: ethernet_input_def)
  next
    case False
    then obtain n b1 where "free_and_return L p (put_pbuf p b1 s) = Some (e, s') \<or>
        pass_up L (le_ip4_input L) n p i (put_pbuf p b1 s) = Some (e, s') \<or>
        pass_up L (le_etharp_input L) n p i (put_pbuf p b1 s) = Some (e, s')"
      using assms(2) b by (auto simp: ethernet_input_def bind_eq_Some_conv Let_def split: if_splits)
    then have "same (put_pbuf p b1 s) s'"
      using free_return_same [OF assms(1)] pass_up_same [OF _ assms(1)] env_stepsD(7,8) [OF assms(1)] by blast
    then show ?thesis by (rule same_trans [OF put_pbuf_same])
  qed
qed

lemma call_input_same: "env_steps same L \<Longrightarrow> call_input L f p i s = Some (e, s') \<Longrightarrow> same s s'"
  by (cases f) (auto simp: call_input_def dest: env_stepsD(9) ethernet_input_same)

lemma receive_frame_same:
  assumes "env_steps same L" "receive_frame L len s = Some s'"
  shows "same s s'"
proof -
  obtain p s1 where s1: "pbuf_alloc (le_pbuf L) PBUF_RAW (ucast len) PBUF_RAM s = Some (p, s1)" "p = 0 \<longrightarrow> s' = s1"
    using assms(2) by (auto simp: receive_frame_def bind_eq_Some_conv split: if_splits)
  show ?thesis
  proof (cases "p = 0")
    case True
    then show ?thesis using s1 alloc_ram_same by blast
  next
    case False
    then obtain e1 s2 n e s3 where s2: "pbuf_take p (le_rxbuf L) (ucast len) s1 = Some (e1, s2)"
        "call_input L n p (le_bmos_netif L) s2 = Some (e, s3)" "s' = s3 \<or> (\<exists>r. pbuf_free (le_pbuf L) p s3 = Some (r, s'))"
      using assms(2) s1(1) by (auto simp: receive_frame_def bind_eq_Some_conv split: if_splits)
    have "same s s3"
      using same_trans [OF alloc_ram_same [OF s1(1)] same_trans [OF take_same [OF s2(1)] call_input_same [OF assms(1) s2(2)]]] .
    then show ?thesis using s2(3) env_free_same [OF assms(1)] by (blast intro: same_trans)
  qed
qed

lemma rx_loop_same:
  assumes "rx_loop K L s = Some s'" "env_steps same L"
  shows "same s s'"
proof -
  have "env_steps same L \<longrightarrow> same s s'"
  proof (rule rx_loop.raw_induct [OF _ assms(1), where P = "\<lambda>K L s s'. env_steps same L \<longrightarrow> same s s'"], goal_cases)
    case (1 loop K L s s')
    obtain frame s1 where f: "b_net_rx K 0 s = (frame, s1)" by fastforce
    then have q: "same s s1" by (auto simp: b_net_rx_def intro: same_kern split: prod.splits)
    show ?case
    proof (intro impI)
      assume L: "env_steps same L"
      show "same s s'"
      proof (cases "s' = s1")
        case False
        then obtain s2 where 2: "receive_frame L (of_nat (length frame)) (s1\<lparr>mem := mem_write (mem s1) (le_rxbuf L) frame\<rparr>) = Some s2"
            "loop K L s2 = Some s'"
          using 1(2) f by (auto simp: bind_eq_Some_conv Let_def split: if_splits)
        have "same s s2" using same_trans [OF q same_trans [OF same_mem receive_frame_same [OF L 2(1)]]] .
        then show ?thesis using 1(1) [OF 2(2)] L by (blast intro: same_trans)
      qed (use q in simp)
    qed
  qed
  then show ?thesis using assms(2) by blast
qed

lemma net_poll_same:
  assumes "env_steps same L" "net_poll K L s = Some s'"
  shows "same s s'"
  using assms(2) by (auto simp: net_poll_def bind_eq_Some_conv
      dest!: rx_loop_same [OF _ assms(1)] check_timeouts_same [OF assms(1)] intro: same_trans)

section \<open>Bringing the network up\<close>

lemma upd_netif_same: "upd_netif i f s = Some s' \<Longrightarrow> same s s'"
  by (auto simp: upd_netif_def intro: same_netif_store split: option.splits)

lemma reports_same: "env_steps same L \<Longrightarrow> netif_issue_reports (le_netif L) i r s = Some s' \<Longrightarrow> same s s'"
  by (auto simp: netif_issue_reports_def split: option.splits if_splits dest: env_stepsD(3) intro: same_refl)

lemma set_ipaddr_same:
  assumes "env_steps same L" "netif_do_set_ipaddr (le_netif L) i a s = Some s'"
  shows "same s s'"
  using assms(2) by (auto simp: netif_do_set_ipaddr_def bind_eq_Some_conv split: option.splits if_splits
      dest!: env_stepsD(2) [OF assms(1)] upd_netif_same reports_same [OF assms(1)] elim!: same_trans intro: same_refl)

lemma set_addr_same:
  assumes "env_steps same L" "netif_set_addr (le_netif L) i ip nm gw s = Some s'"
  shows "same s s'"
proof -
  let ?set = "netif_do_set_ipaddr (le_netif L) i (addr_or_any ip)"
  obtain s1 s2 s3 where s: "(if addr_or_any ip = 0 then ?set s else Some s) = Some s1"
      "netif_do_set_netmask i (addr_or_any nm) s1 = Some s2" "netif_do_set_gw i (addr_or_any gw) s2 = Some s3"
      "(if addr_or_any ip = 0 then Some s3 else ?set s3) = Some s'"
    using assms(2) unfolding netif_set_addr_def Let_def bind_eq_Some_conv by blast
  have 1: "same s s1" "same s3 s'" using s(1,4) set_ipaddr_same [OF assms(1)] by (auto split: if_splits intro: same_refl)
  have 2: "same s1 s2" "same s2 s3"
    using s(2,3) by (auto simp: netif_do_set_netmask_def netif_do_set_gw_def split: option.splits if_splits dest: upd_netif_same intro: same_refl)
  show ?thesis using same_trans [OF same_trans [OF 1(1) 2(1)] same_trans [OF 2(2) 1(2)]] .
qed

lemma netif_init_same: "bmos_netif_init K i s = Some (e, s') \<Longrightarrow> same s s'"
  by (auto simp: bmos_netif_init_def b_system_def bind_eq_Some_conv Let_def split: prod.splits dest!: upd_netif_same intro: same_trans [OF same_kern])

lemma netif_add_same:
  assumes "env_steps same L" "netif_add (le_netif L) i ip nm gw st (bmos_netif_init K) inp s = Some (r, s')"
  shows "same s s'"
proof (cases "i = 0")
  case False
  let ?f = "\<lambda>n. n\<lparr>n_ip_addr := 0, n_netmask := 0, n_gw := 0, n_output := Netif_null_output_ip4,
                n_mtu := 0, n_flags := 0, n_dhcp := 0, n_state := st, n_num := netif_num s, n_input := inp\<rparr>"
  obtain s1 s2 e s3 where s: "upd_netif i ?f s = Some s1" "netif_set_addr (le_netif L) i ip nm gw s1 = Some s2"
      "bmos_netif_init K i s2 = Some (e, s3)"
      "(if e \<noteq> ERR_OK then Some (0, s3)
        else do {
          n \<leftarrow> netif_store s3 i;
          num \<leftarrow> num_loop (netif_store s3) i (netif_list s3) (n_num n);
          s4 \<leftarrow> upd_netif i (n_num_update (\<lambda>_. num)) s3;
          Some (i, s4\<lparr>netif_num := (if num = 254 then 0 else num + 1), netif_list := i # netif_list s4\<rparr>)}) = Some (r, s')"
    using assms(2) False by (auto simp: netif_add_def bind_eq_Some_conv [of "upd_netif i f s" for f s]
        bind_eq_Some_conv [of "netif_set_addr e i a b c s" for e a b c s] bind_eq_Some_conv [of "bmos_netif_init K i s" for s])
  have "same s s3"
    using same_trans [OF upd_netif_same [OF s(1)] same_trans [OF set_addr_same [OF assms(1) s(2)] netif_init_same [OF s(3)]]] .
  moreover have "same s3 s'"
    using s(4) by (auto simp: bind_eq_Some_conv dest!: upd_netif_same split: if_splits
        intro: same_refl same_trans [OF _ same_trans [OF same_netif_num same_netif_list]])
  ultimately show ?thesis by (rule same_trans)
qed (use assms(2) in \<open>simp add: netif_add_def same_refl\<close>)

lemma lwip_init_same:
  assumes "env_steps same L" "lwip_init K L s = Some s'"
  shows "same s s'"
  using assms(2) by (auto simp: lwip_init_def sys_timeouts_init_def bind_eq_Some_conv
      dest!: env_stepsD(4,5) [OF assms(1)] init_loop_same elim!: same_trans)

lemma set_up_same:
  assumes "env_steps same L" "netif_set_up (le_netif L) i s = Some s'"
  shows "same s s'"
  using assms(2) by (auto simp: netif_set_up_def bind_eq_Some_conv split: if_splits option.splits
      dest!: upd_netif_same reports_same [OF assms(1)] elim!: same_trans intro: same_refl)

lemma net_init_same:
  assumes "env_steps same L" "net_init K L s = Some s'"
  shows "same s s'"
proof -
  obtain ns s0 where b: "b_system K TIMECOUNTER 0 0 s = (ns, s0)" by fastforce
  then have q: "same s (srand (ucast ns) s0)"
    by (auto simp: b_system_def srand_def split: prod.splits intro: same_trans [OF same_kern same_rand])
  obtain s1 r s2 s3 where s: "lwip_init K L (srand (ucast ns) s0) = Some s1"
      "netif_add (le_netif L) (le_bmos_netif L) (Some 0) (Some 0) (Some 0) 0 (bmos_netif_init K) Ethernet_input s1 = Some (r, s2)"
      "netif_set_up (le_netif L) (le_bmos_netif L) (netif_set_default (le_bmos_netif L) s2) = Some s3"
      "le_dhcp_start L (le_bmos_netif L) s3 = Some s'"
    using assms(2) b by (auto simp: net_init_def bind_eq_Some_conv)
  have "same s2 s3" using same_trans [OF same_netif_default set_up_same [OF assms(1) s(3) [unfolded netif_set_default_def]]] .
  then show ?thesis
    using same_trans [OF same_trans [OF q lwip_init_same [OF assms(1) s(1)]] netif_add_same [OF assms(1) s(2)]]
      env_stepsD(6) [OF assms(1) s(4)] by (blast intro: same_trans)
qed

end

end
