(* ===== verification/BM_Net_Inv.thy ===== *)
theory BM_Net_Inv
  imports BM_Net_Shim BM_Poll
begin

text \<open>
  The socket table stays well formed: what lwIP may do to it (run the four callbacks on open sockets)
  as a step relation, that polling consists of such steps, and that every socket call preserves the
  invariant.
\<close>

section \<open>What lwIP does to the table\<close>

definition same_socks :: "('k, 'm, 'z) shim_scheme \<Rightarrow> ('k, 'm, 'z) shim_scheme \<Rightarrow> bool" where
  "same_socks s s' \<longleftrightarrow> socks s' = socks s \<and> net_ready s' = net_ready s"

definition open_sock :: "nat \<Rightarrow> ('k, 'm, 'z) shim_scheme \<Rightarrow> bool" where
  "open_sock i s \<longleftrightarrow> i < length (socks s) \<and> k_state (socks s ! i) \<noteq> SK_FREE"

inductive lwip_step :: "('m, ('k, 'm, 'z) shim_scheme) tcp_env \<Rightarrow> ('k, 'm, 'z) shim_scheme \<Rightarrow> ('k, 'm, 'z) shim_scheme \<Rightarrow> bool"
  for E where
  internal: "same_socks s s' \<Longrightarrow> lwip_step E s s'"
| recv: "open_sock i s \<Longrightarrow> on_recv E i p err s = Some (e, s') \<Longrightarrow> lwip_step E s s'"
| error: "open_sock i s \<Longrightarrow> lwip_step E s (on_err i err s)"
| connected: "open_sock i s \<Longrightarrow> lwip_step E s (snd (on_connected i err s))"
| accept: "open_sock i s \<Longrightarrow> on_accept E i newpcb err s = Some (e, s') \<Longrightarrow> lwip_step E s s'"

abbreviation lwip_run :: "('m, ('k, 'm, 'z) shim_scheme) tcp_env \<Rightarrow> ('k, 'm, 'z) shim_scheme \<Rightarrow> ('k, 'm, 'z) shim_scheme \<Rightarrow> bool" where
  "lwip_run E \<equiv> (lwip_step E)\<^sup>*\<^sup>*"

text \<open>
  What the table relies on.  The functions of TCP that set a callback or its argument leave the table
  alone; the other functions of the stack, input and timers among them, do to it only what the callbacks
  do, on sockets that are open.
\<close>

definition quiet :: "(('k, 'm, 'z) shim_scheme \<Rightarrow> ('k, 'm, 'z) shim_scheme option) \<Rightarrow> bool" where
  "quiet f \<longleftrightarrow> (\<forall>s s'. f s = Some s' \<longrightarrow> same_socks s s')"

definition steps :: "('m, ('k, 'm, 'z) shim_scheme) tcp_env \<Rightarrow> (('k, 'm, 'z) shim_scheme \<Rightarrow> ('k, 'm, 'z) shim_scheme option) \<Rightarrow> bool" where
  "steps E f \<longleftrightarrow> (\<forall>s s'. f s = Some s' \<longrightarrow> lwip_run E s s')"

definition steps_val :: "('m, ('k, 'm, 'z) shim_scheme) tcp_env \<Rightarrow> (('k, 'm, 'z) shim_scheme \<Rightarrow> ('r \<times> ('k, 'm, 'z) shim_scheme) option) \<Rightarrow> bool" where
  "steps_val E f \<longleftrightarrow> (\<forall>s r s'. f s = Some (r, s') \<longrightarrow> lwip_run E s s')"

definition setters_quiet :: "('m, ('k, 'm, 'z) shim_scheme) tcp_env \<Rightarrow> bool" where
  "setters_quiet E \<longleftrightarrow> (\<forall>p a. quiet (se_arg E p a)) \<and> (\<forall>p c. quiet (se_recv E p c)) \<and> (\<forall>p c. quiet (se_err E p c)) \<and>
     (\<forall>p c. quiet (se_accept E p c)) \<and> (\<forall>p. quiet (e_custom_free (se_pbuf E) p))"

definition tcp_steps :: "('m, ('k, 'm, 'z) shim_scheme) tcp_env \<Rightarrow> bool" where
  "tcp_steps E \<longleftrightarrow> steps_val E (se_new E) \<and> (\<forall>p a q. steps_val E (se_bind E p a q)) \<and>
     (\<forall>p k. steps_val E (se_listen E p k)) \<and> (\<forall>p a q. steps_val E (se_connect E p a q)) \<and>
     (\<forall>p n. steps E (se_recved E p n)) \<and> (\<forall>p a n. steps_val E (se_write E p a n)) \<and> (\<forall>p. steps E (se_output E p)) \<and>
     (\<forall>p. steps_val E (se_close E p)) \<and> (\<forall>p. steps E (se_abort E p))"

definition link_steps :: "('m, ('k, 'm, 'z) shim_scheme) tcp_env \<Rightarrow> bool" where
  "link_steps E \<longleftrightarrow> env_steps (lwip_run E) (se_link E)"

definition stack_ok :: "('m, ('k, 'm, 'z) shim_scheme) tcp_env \<Rightarrow> bool" where
  "stack_ok E \<longleftrightarrow> setters_quiet E \<and> tcp_steps E \<and> link_steps E"

lemmas stack_defs = stack_ok_def setters_quiet_def tcp_steps_def link_steps_def env_steps_def Let_def steps_def steps_val_def

section \<open>What leaves the table alone\<close>

lemma same_socks_refl [simp]: "same_socks s s"
  by (simp add: same_socks_def)

lemma same_socks_trans: "same_socks s s1 \<Longrightarrow> same_socks s1 s2 \<Longrightarrow> same_socks s s2"
  by (simp add: same_socks_def)

lemma same_socks_upd [simp]:
  "same_socks s (s\<lparr>mem := m\<rparr>)" "same_socks s (s\<lparr>kern := k\<rparr>)" "same_socks s (s\<lparr>alloc := a\<rparr>)" "same_socks s (put_pbuf p b s)"
  "same_socks s (s\<lparr>alloc := a, pbufs := P\<rparr>)" "same_socks s (s\<lparr>next_timeout := ts\<rparr>)"
  "same_socks s (s\<lparr>netif_default := i\<rparr>)"
  by (simp_all add: same_socks_def put_pbuf_def)

lemma same_socks_from [simp]:
  "same_socks (s\<lparr>mem := m\<rparr>) s' \<longleftrightarrow> same_socks s s'" "same_socks (s\<lparr>kern := k\<rparr>) s' \<longleftrightarrow> same_socks s s'"
  "same_socks (s\<lparr>next_timeout := ts\<rparr>) s' \<longleftrightarrow> same_socks s s'" "same_socks (s\<lparr>rand_seed := v\<rparr>) s' \<longleftrightarrow> same_socks s s'"
  "same_socks (s\<lparr>next_timeout := ts, current_timeout_due_time := t\<rparr>) s' \<longleftrightarrow> same_socks s s'"
  "same_socks (put_pbuf p b s) s' \<longleftrightarrow> same_socks s s'" "same_socks (s\<lparr>netif_store := N\<rparr>) s' \<longleftrightarrow> same_socks s s'"
  "same_socks (s\<lparr>netif_default := i\<rparr>) s' \<longleftrightarrow> same_socks s s'"
  by (auto simp: same_socks_def put_pbuf_def)

interpretation socks_own: own_state same_socks
  by unfold_locales (auto simp: same_socks_def)

lemma pbuf_free_quiet: "pbuf_free E p s = Some (r, s') \<Longrightarrow> \<forall>p. quiet (e_custom_free E p) \<Longrightarrow> same_socks s s'"
  by (rule socks_own.free_same) (auto simp: quiet_def)

lemmas pbuf_take_quiet = socks_own.take_same
lemmas pbuf_cat_quiet = socks_own.cat_same
lemmas mem_malloc_quiet = socks_own.malloc_same
lemmas alloc_ram_quiet = socks_own.alloc_ram_same
lemmas remove_header_quiet = socks_own.remove_header_same

section \<open>Polling runs callbacks\<close>

lemma run_quiet: "same_socks s s' \<Longrightarrow> lwip_run E s s'"
  by (rule r_into_rtranclp) (rule internal)

lemma run_quiet_then: "same_socks s s1 \<Longrightarrow> lwip_run E s1 s2 \<Longrightarrow> lwip_run E s s2"
  using run_quiet by (rule rtranclp_trans)

lemma run_then_quiet: "lwip_run E s s1 \<Longrightarrow> same_socks s1 s2 \<Longrightarrow> lwip_run E s s2"
  using run_quiet by (rule rtranclp_trans [rotated])

text \<open>A run of callbacks is a relation that the poll and the start of the network keep to.\<close>

interpretation run_net: own_net "lwip_run E" for E
  by unfold_locales (auto intro!: run_quiet simp: same_socks_def)

lemma custom_quiet: "stack_ok E \<Longrightarrow> \<forall>p. quiet (e_custom_free (se_pbuf E) p)"
  by (simp add: stack_ok_def setters_quiet_def)

lemma stack_env: "stack_ok E \<Longrightarrow> env_steps (lwip_run E) (se_link E)"
  by (simp add: stack_ok_def link_steps_def)

lemmas net_poll_run = run_net.net_poll_same [OF stack_env]
lemmas net_init_run = run_net.net_init_same [OF stack_env]

section \<open>The invariant\<close>

text \<open>The ring is well formed and holds slots of the table; an open socket with nothing received is at offset 0.\<close>

definition sock_ok :: "bsock \<Rightarrow> bool" where
  "sock_ok b \<longleftrightarrow> queue_ok b \<and> (\<forall>x\<in>set (k_acceptq b). x < SOCK_MAX) \<and>
     (k_state b \<noteq> SK_FREE \<longrightarrow> k_rx_head b = 0 \<longrightarrow> k_rx_off b = 0)"

definition socks_ok :: "('k, 'm, 'z) shim_scheme \<Rightarrow> bool" where
  "socks_ok s \<longleftrightarrow> length (socks s) = SOCK_MAX \<and> (\<forall>b\<in>set (socks s). sock_ok b)"

lemma socks_ok_same: "same_socks s s' \<Longrightarrow> socks_ok s \<Longrightarrow> socks_ok s'"
  by (simp add: same_socks_def socks_ok_def)

lemma socks_ok_nth: "socks_ok s \<Longrightarrow> i < SOCK_MAX \<Longrightarrow> sock_ok (socks s ! i)"
  by (simp add: socks_ok_def)

lemma socks_ok_upd:
  "socks_ok s \<Longrightarrow> (i < SOCK_MAX \<Longrightarrow> sock_ok (f (socks s ! i))) \<Longrightarrow> socks_ok (upd_sock i f s)"
  by (cases "i < SOCK_MAX") (auto simp: socks_ok_def upd_sock_def list_update_beyond dest: set_update_subset_insert [THEN subsetD])

lemma sock_ok_reset: "sock_ok reset_sock" "sock_ok (reset_sock\<lparr>k_state := st, k_pcb := p\<rparr>)"
  by (simp_all add: sock_ok_def reset_sock_def queue_ok_def shim_consts)

lemma sock_ok_push:
  "sock_ok b \<Longrightarrow> k_count b < ACCEPTQ_MAX \<Longrightarrow> x < SOCK_MAX \<Longrightarrow> sock_ok (acceptq_push x b)"
  using aq.push_ok [of b x]
  by (auto simp: sock_ok_def acceptq_push_def dest: set_update_subset_insert [THEN subsetD])

lemma alloc_slot_Some: "socks_ok s \<Longrightarrow> alloc_slot s = Some i \<Longrightarrow> i < SOCK_MAX \<and> k_state (socks s ! i) = SK_FREE"
  by (auto simp: alloc_slot_def socks_ok_def dest: first_idx_SomeD)

lemma socks_upd_sock [simp]: "socks (upd_sock i f s) = (socks s)[i := f (socks s ! i)]" "net_ready (upd_sock i f s) = net_ready s"
  by (simp_all add: upd_sock_def)

lemma on_accept_cases:
  assumes "on_accept E l pcb err s = Some (e, s')" "setters_quiet E"
  obtains "s' = s" | slot s3 where "k_count (socks s ! l) < ACCEPTQ_MAX" "alloc_slot s = Some slot"
      "same_socks (upd_sock slot (\<lambda>_. reset_sock\<lparr>k_state := SK_CONNECTED, k_pcb := pcb\<rparr>) s) s3"
      "s' = upd_sock l (acceptq_push slot) s3"
  using assms unfolding on_accept_def
  by (auto simp: bind_eq_Some_conv setters_quiet_def quiet_def split: if_splits option.splits)
    (metis not_less same_socks_trans)

lemma on_accept_ok:
  assumes "setters_quiet E" "socks_ok s" "open_sock l s" "on_accept E l pcb err s = Some (e, s')"
  shows "socks_ok s'"
  using assms(4,1)
proof (cases rule: on_accept_cases)
  case (2 slot s3)
  let ?s1 = "upd_sock slot (\<lambda>_. reset_sock\<lparr>k_state := SK_CONNECTED, k_pcb := pcb\<rparr>) s"
  have slot: "slot < SOCK_MAX" "slot \<noteq> l" using alloc_slot_Some [OF assms(2) 2(2)] assms(3) by (auto simp: open_sock_def)
  have "socks_ok ?s1" using assms(2) by (intro socks_ok_upd sock_ok_reset)
  then have ok: "socks_ok s3" using 2(3) by (rule socks_ok_same [rotated])
  have "socks s3 ! l = socks s ! l" using 2(3) slot by (simp add: same_socks_def)
  then show ?thesis using ok 2(1,4) slot socks_ok_nth [OF ok] by (auto intro!: socks_ok_upd sock_ok_push)
qed (use assms(2) in simp)

lemma step_socks_ok:
  assumes "lwip_step E s s'" "socks_ok s" "stack_ok E"
  shows "socks_ok s'"
  using assms(1)
proof cases
  case internal
  then show ?thesis using assms(2) by (rule socks_ok_same)
next
  case (recv i p err e)
  note ok = socks_ok_nth [OF assms(2), of i]
  have free: "same_socks s s1" if "pbuf_free (se_pbuf E) p s = Some (r, s1)" for r s1
    using pbuf_free_quiet [OF that custom_quiet [OF assms(3)]] .
  show ?thesis
    using recv(2) ok assms(2)
    by (auto simp: on_recv_def bind_eq_Some_conv sock_ok_def queue_ok_def split: if_splits
        intro: socks_ok_upd dest!: free pbuf_cat_quiet elim: socks_ok_same)
next
  case (error i err)
  show ?thesis unfolding error(1) on_err_def
    using socks_ok_nth [OF assms(2), of i] error(2) by (intro socks_ok_upd assms(2)) (auto simp: sock_ok_def queue_ok_def open_sock_def)
next
  case (connected i err)
  show ?thesis unfolding connected(1) on_connected_def snd_conv
    using socks_ok_nth [OF assms(2), of i] connected(2) by (intro socks_ok_upd assms(2)) (auto simp: sock_ok_def queue_ok_def open_sock_def)
next
  case (accept i newpcb err e)
  then show ?thesis using on_accept_ok [of E s i] assms(2,3) by (simp add: stack_ok_def)
qed

lemma run_socks_ok: "lwip_run E s s' \<Longrightarrow> socks_ok s \<Longrightarrow> stack_ok E \<Longrightarrow> socks_ok s'"
  by (induction rule: rtranclp_induct) (auto intro: step_socks_ok)

section \<open>The calls preserve it\<close>

text \<open>How a blocking call ends: with what the check gave in a state that satisfies \<open>Q\<close>, or late.\<close>

definition block_end :: "(('k, 'm, 'z) shim_scheme \<Rightarrow> ('r option \<times> ('k, 'm, 'z) shim_scheme) option) \<Rightarrow> 'r \<Rightarrow> (('k, 'm, 'z) shim_scheme \<Rightarrow> bool) \<Rightarrow> 'r \<Rightarrow> ('k, 'm, 'z) shim_scheme \<Rightarrow> bool" where
  "block_end check late Q v s' \<longleftrightarrow> (\<exists>s1. Q s1 \<and> check s1 = Some (Some v, s')) \<or> v = late \<and> Q s'"

lemma block_on_end:
  assumes "block_on K L check ms late start s = Some y" "L = se_link E" "stack_ok E" "Q s"
    and check: "\<And>s s'. Q s \<Longrightarrow> check s = Some (None, s') \<Longrightarrow> Q s'"
    and run: "\<And>s s'. Q s \<Longrightarrow> lwip_run E s s' \<Longrightarrow> Q s'"
  shows "block_end check late Q (fst y) (snd y)"
proof -
  have "L = se_link E \<longrightarrow> (\<forall>s s'. Q s \<longrightarrow> check s = Some (None, s') \<longrightarrow> Q s') \<longrightarrow> Q s \<longrightarrow> block_end check late Q (fst y) (snd y)"
  proof (rule block_on.raw_induct [OF _ assms(1), where P = "\<lambda>K L check ms late start s y. L = se_link E \<longrightarrow>
      (\<forall>s s'. Q s \<longrightarrow> check s = Some (None, s') \<longrightarrow> Q s') \<longrightarrow> Q s \<longrightarrow> block_end check late Q (fst y) (snd y)"], goal_cases)
    case (1 loop K L check ms late start s y)
    show ?case
    proof (intro impI)
      assume L: "L = se_link E" and c: "\<forall>s s'. Q s \<longrightarrow> check s = Some (None, s') \<longrightarrow> Q s'" and "Q s"
      obtain r s1 where s1: "check s = Some (r, s1)" using 1(2) by (auto simp: bind_eq_Some_conv)
      show "block_end check late Q (fst y) (snd y)"
      proof (cases r)
        case (Some v)
        then show ?thesis using 1(2) s1 \<open>Q s\<close> by (auto simp: block_end_def)
      next
        case None
        then have q: "Q s1" using c \<open>Q s\<close> s1 by blast
        obtain s2 where s2: "net_poll K L s1 = Some s2"
            "y = (late, s2\<lparr>kern := tick K (kern s2)\<rparr>) \<or> loop K L check ms late start (s2\<lparr>kern := tick K (kern s2)\<rparr>) = Some y"
          using 1(2) s1 None by (auto simp: bind_eq_Some_conv sys_now_tick split: if_splits)
        have "lwip_run E s1 s2" using net_poll_run [OF assms(3)] s2(1) L by blast
        then have q2: "Q (s2\<lparr>kern := tick K (kern s2)\<rparr>)" by (intro run [OF q] run_then_quiet [OF _ same_socks_upd(2)])
        from s2(2) show ?thesis
        proof
          assume "loop K L check ms late start (s2\<lparr>kern := tick K (kern s2)\<rparr>) = Some y"
          from 1(1) [OF this] show ?thesis using L c q2 by blast
        qed (use q2 in \<open>simp add: block_end_def\<close>)
      qed
    qed
  qed
  then show ?thesis using assms(2,4) check by blast
qed

lemma block_from_now_end:
  assumes "block_from_now K (se_link E) check ms late s = Some (v, s')" "stack_ok E" "Q s"
    and check: "\<And>s s'. Q s \<Longrightarrow> check s = Some (None, s') \<Longrightarrow> Q s'"
    and run: "\<And>s s'. Q s \<Longrightarrow> lwip_run E s s' \<Longrightarrow> Q s'"
  shows "block_end check late Q v s'"
proof -
  have b: "block_on K (se_link E) check ms late (clock_ms K (kern s)) (s\<lparr>kern := tick K (kern s)\<rparr>) = Some (v, s')"
    using assms(1) by (simp add: block_from_now_def sys_now_tick)
  have "Q (s\<lparr>kern := tick K (kern s)\<rparr>)" by (rule run [OF assms(3)]) (simp add: run_quiet)
  from block_on_end [OF b refl assms(2), where Q = Q, OF this check run] show ?thesis by simp
qed

lemma block_socks_ok:
  assumes "block_from_now K (se_link E) check ms late s = Some (v, s')" "stack_ok E" "socks_ok s"
    and "\<And>s s'. socks_ok s \<Longrightarrow> check s = Some (None, s') \<Longrightarrow> socks_ok s'"
  shows "block_end check late socks_ok v s'"
  by (rule block_from_now_end [where Q = socks_ok, OF assms(1-3)]) (use assms(2,4) in \<open>blast intro: run_socks_ok\<close>)+

text \<open>No step closes a socket, and none moves the offset of a socket that has read nothing.\<close>

definition at_start :: "nat \<Rightarrow> ('k, 'm, 'z) shim_scheme \<Rightarrow> bool" where
  "at_start i s \<longleftrightarrow> i < length (socks s) \<and> k_rx_off (socks s ! i) = 0"

lemma step_same:
  "same_socks s s' \<Longrightarrow> open_sock i s' = open_sock i s" "same_socks s s' \<Longrightarrow> at_start i s' = at_start i s"
  by (simp_all add: same_socks_def open_sock_def at_start_def)

lemma open_upd [simp]:
  "open_sock i (upd_sock j f s) \<longleftrightarrow> (if i = j then i < length (socks s) \<and> k_state (f (socks s ! i)) \<noteq> SK_FREE else open_sock i s)"
  "at_start i (upd_sock j f s) \<longleftrightarrow> (if i = j then i < length (socks s) \<and> k_rx_off (f (socks s ! i)) = 0 else at_start i s)"
  by (auto simp: open_sock_def at_start_def)

lemma step_open_start:
  assumes "lwip_step E s s'" "stack_ok E"
  shows "(open_sock i s \<longrightarrow> open_sock i s') \<and> (at_start i s \<longrightarrow> at_start i s')"
  using assms(1)
proof cases
  case internal
  then show ?thesis by (simp add: step_same)
next
  case (recv j p err e)
  have free: "same_socks s s1" if "pbuf_free (se_pbuf E) p s = Some (r, s1)" for r s1
    using pbuf_free_quiet [OF that custom_quiet [OF assms(2)]] .
  consider "same_socks s s'" | "s' = upd_sock j (k_eof_update (\<lambda>_. True)) s" | "s' = upd_sock j (k_rx_head_update (\<lambda>_. p)) s"
    using recv(2) by (auto simp: on_recv_def bind_eq_Some_conv split: if_splits dest: free pbuf_cat_quiet)
  then show ?thesis
  proof cases
    case 1
    then show ?thesis by (simp add: step_same)
  next
    case 2
    then show ?thesis unfolding 2 open_upd by (auto simp: open_sock_def at_start_def)
  next
    case 3
    then show ?thesis unfolding 3 open_upd by (auto simp: open_sock_def at_start_def)
  qed
next
  case (error j err)
  show ?thesis unfolding error(1) on_err_def open_upd by (auto simp: open_sock_def at_start_def)
next
  case (connected j err)
  show ?thesis unfolding connected(1) on_connected_def snd_conv open_upd by (auto simp: open_sock_def at_start_def)
next
  case (accept j newpcb err e)
  from accept(2) assms(2) [unfolded stack_ok_def, THEN conjunct1] show ?thesis
  proof (cases rule: on_accept_cases)
    case (2 slot s3)
    let ?s1 = "upd_sock slot (\<lambda>_. reset_sock\<lparr>k_state := SK_CONNECTED, k_pcb := newpcb\<rparr>) s"
    have "open_sock i s' = open_sock i s3" "at_start i s' = at_start i s3"
      unfolding 2(4) open_upd by (auto simp: acceptq_push_def open_sock_def at_start_def)
    moreover have "open_sock i s3 = open_sock i ?s1" "at_start i s3 = at_start i ?s1" by (rule step_same [OF 2(3)])+
    moreover have "open_sock i s \<longrightarrow> open_sock i ?s1" "at_start i s \<longrightarrow> at_start i ?s1"
      unfolding open_upd by (auto simp: reset_sock_def open_sock_def at_start_def)
    ultimately show ?thesis by simp
  qed simp
qed

lemma run_open: "lwip_run E s s' \<Longrightarrow> stack_ok E \<Longrightarrow> open_sock i s \<Longrightarrow> open_sock i s'"
  by (induction rule: rtranclp_induct) (use step_open_start in blast)+

lemma run_start: "lwip_run E s s' \<Longrightarrow> stack_ok E \<Longrightarrow> at_start i s \<Longrightarrow> at_start i s'"
  by (induction rule: rtranclp_induct) (use step_open_start in blast)+

text \<open>The calls, one by one.\<close>

lemma socks_ok_fields [simp]:
  "socks_ok (s\<lparr>net_ready := b\<rparr>) = socks_ok s" "socks_ok (s\<lparr>mem := m\<rparr>) = socks_ok s" "socks_ok (put_pbuf p pb s) = socks_ok s"
  by (simp_all add: socks_ok_def put_pbuf_def)

lemma open_index: "socks_ok s \<Longrightarrow> open_sock i s \<longleftrightarrow> i < SOCK_MAX \<and> k_state (socks s ! i) \<noteq> SK_FREE"
  by (auto simp: open_sock_def socks_ok_def)

lemma sock_ok_set [simp]:
  "sock_ok (b\<lparr>k_pcb := p\<rparr>) = sock_ok b" "sock_ok (b\<lparr>k_eof := e\<rparr>) = sock_ok b"
  "sock_ok (b\<lparr>k_state := SK_FREE\<rparr>) \<longleftrightarrow> queue_ok b \<and> (\<forall>x\<in>set (k_acceptq b). x < SOCK_MAX)"
  "sock_ok (b\<lparr>k_pcb := p, k_state := SK_FREE\<rparr>) \<longleftrightarrow> queue_ok b \<and> (\<forall>x\<in>set (k_acceptq b). x < SOCK_MAX)"
  by (auto simp: sock_ok_def queue_ok_def)

lemma set_state_ok:
  "socks_ok s \<Longrightarrow> open_sock i s \<Longrightarrow> socks_ok (upd_sock i (k_state_update (\<lambda>_. st)) s)"
  "socks_ok s \<Longrightarrow> open_sock i s \<Longrightarrow> socks_ok (upd_sock i (\<lambda>b. b\<lparr>k_pcb := p, k_state := st\<rparr>) s)"
  using socks_ok_nth [of s i] by (auto simp: open_index sock_ok_def queue_ok_def intro!: socks_ok_upd)

lemma tcp_run:
  assumes "stack_ok E"
  shows "se_new E s = Some (p, s') \<Longrightarrow> lwip_run E s s'" "se_bind E p a q s = Some (e, s') \<Longrightarrow> lwip_run E s s'"
    "se_listen E p k s = Some (l, s') \<Longrightarrow> lwip_run E s s'" "se_connect E p a q s = Some (e, s') \<Longrightarrow> lwip_run E s s'"
    "se_recved E p n s = Some s' \<Longrightarrow> lwip_run E s s'" "se_write E p d n s = Some (e, s') \<Longrightarrow> lwip_run E s s'"
    "se_output E p s = Some s' \<Longrightarrow> lwip_run E s s'" "se_close E p s = Some (e, s') \<Longrightarrow> lwip_run E s s'"
    "se_abort E p s = Some s' \<Longrightarrow> lwip_run E s s'"
  using assms by (auto simp: stack_ok_def tcp_steps_def steps_def steps_val_def)

lemma setter_same:
  assumes "stack_ok E"
  shows "se_arg E p x s = Some s' \<Longrightarrow> same_socks s s'" "se_recv E p c s = Some s' \<Longrightarrow> same_socks s s'"
    "se_err E p c s = Some s' \<Longrightarrow> same_socks s s'" "se_accept E p c s = Some s' \<Longrightarrow> same_socks s s'"
  using assms by (auto simp: stack_ok_def setters_quiet_def quiet_def)

lemma ensure_ready_ok:
  assumes "net_ensure_ready K E s = Some s'" "stack_ok E" "socks_ok s"
  shows "socks_ok s'"
proof (cases "net_ready s")
  case False
  then obtain s1 r s2 where s: "net_init K (se_link E) s = Some s1"
      "net_wait_ready K (se_link E) NET_BLOCK_TIMEOUT_MS s1 = Some (r, s2)" "s' = s2\<lparr>net_ready := True\<rparr>"
    using assms(1) by (auto simp: net_ensure_ready_def bind_eq_Some_conv)
  have "socks_ok s1" using net_init_run [OF assms(2) s(1)] assms(2,3) by (blast intro: run_socks_ok)
  from block_socks_ok [OF s(2) [unfolded net_wait_ready_def] assms(2) this]
  have "socks_ok s2" by (auto simp: block_end_def bind_eq_Some_conv)
  then show ?thesis by (simp add: s(3))
qed (use assms in \<open>simp add: net_ensure_ready_def\<close>)

lemma socket_ok:
  assumes "net_shim_socket K E d t q s = Some (r, s')" "stack_ok E" "socks_ok s"
  shows "socks_ok s'"
proof -
  obtain s1 where s1: "net_ensure_ready K E s = Some s1" using assms(1) by (auto simp: net_shim_socket_def bind_eq_Some_conv)
  then have ok1: "socks_ok s1" using ensure_ready_ok assms(2,3) by blast
  consider "s' = s1" | slot pcb s2 where "alloc_slot s1 = Some slot" "se_new E (upd_sock slot (\<lambda>_. reset_sock) s1) = Some (pcb, s2)"
      "s' = upd_sock slot (k_pcb_update (\<lambda>_. pcb)) s2 \<or>
        se_arg E pcb (Some slot) (upd_sock slot (k_state_update (\<lambda>_. SK_CLOSED)) (upd_sock slot (k_pcb_update (\<lambda>_. pcb)) s2)) = Some s'"
    using assms(1) s1 by (auto simp: net_shim_socket_def bind_eq_Some_conv Let_def split: if_splits option.splits)
  then show ?thesis
  proof cases
    case 2
    let ?s0 = "upd_sock slot (\<lambda>_. reset_sock) s1" and ?s3 = "upd_sock slot (k_pcb_update (\<lambda>_. pcb)) s2"
    have slot: "slot < SOCK_MAX" "slot < length (socks s1)" using alloc_slot_Some [OF ok1 2(1)] ok1 by (auto simp: socks_ok_def)
    have ok0: "socks_ok ?s0" using ok1 by (intro socks_ok_upd sock_ok_reset)
    have run: "lwip_run E ?s0 s2" using tcp_run(1) [OF assms(2) 2(2)] .
    have ok3: "socks_ok ?s3" using run_socks_ok [OF run ok0 assms(2)] socks_ok_nth by (intro socks_ok_upd) auto
    have "at_start slot ?s0" using slot by (simp add: reset_sock_def)
    then have "at_start slot ?s3" using run_start [OF run assms(2), of slot] by (simp only: open_upd) (simp add: at_start_def)
    then have "socks_ok (upd_sock slot (k_state_update (\<lambda>_. SK_CLOSED)) ?s3)"
      using socks_ok_nth [OF ok3, of slot] by (intro socks_ok_upd [OF ok3]) (auto simp: sock_ok_def queue_ok_def at_start_def)
    then show ?thesis using 2(3) ok3 by (auto dest!: setter_same(1) [OF assms(2)] elim: socks_ok_same)
  qed (use ok1 in simp)
qed

lemma bind_ok: "net_shim_bind E fd a n s = Some (r, s') \<Longrightarrow> stack_ok E \<Longrightarrow> socks_ok s \<Longrightarrow> socks_ok s'"
  by (auto simp: net_shim_bind_def bind_eq_Some_conv split: if_splits dest: tcp_run(2) intro: run_socks_ok)

lemma listen_ok:
  assumes "net_shim_listen E fd n s = Some (r, s')" "stack_ok E" "socks_ok s" "sock_index fd = Some i" "open_sock i s"
  shows "socks_ok s'"
proof -
  obtain l s1 where s1: "se_listen E (k_pcb (socks s ! i)) (ucast n) s = Some (l, s1)"
      "s' = s1 \<or> (\<exists>s2. se_arg E l (Some i) (upd_sock i (\<lambda>b. b\<lparr>k_pcb := l, k_state := SK_LISTENING\<rparr>) s1) = Some s2 \<and> se_accept E l True s2 = Some s')"
    using assms(1,4) by (auto simp: net_shim_listen_def bind_eq_Some_conv split: if_splits)
  have run: "lwip_run E s s1" using tcp_run(3) [OF assms(2) s1(1)] .
  have "socks_ok s1" "open_sock i s1" using run_socks_ok [OF run] run_open [OF run] assms by auto
  from s1(2) this(1) set_state_ok(2) [OF this] show ?thesis
    by (auto dest!: setter_same(1,4) [OF assms(2)] elim!: socks_ok_same)
qed

lemma sock_ok_pop:
  assumes "sock_ok b" "k_count b \<noteq> 0"
  shows "sock_ok (snd (acceptq_pop b))" "fst (acceptq_pop b) < SOCK_MAX"
proof -
  have ne: "queue_items b \<noteq> []" using assms(2) by (metis length_queue_items list.size(3))
  have "queue_ok (snd (acceptq_pop b))" using aq.pop_ok ne assms(1) by (simp add: sock_ok_def)
  then show "sock_ok (snd (acceptq_pop b))" using assms(1) by (auto simp: sock_ok_def acceptq_pop_def)
  have "k_head b < length (k_acceptq b)" using assms(1) by (simp add: sock_ok_def queue_ok_def)
  then show "fst (acceptq_pop b) < SOCK_MAX" using assms(1) by (simp add: sock_ok_def acceptq_pop_def)
qed

lemma take_accepted_ok:
  assumes "take_accepted E i a l s = Some (r, s')" "socks_ok s" "i < SOCK_MAX" "k_count (socks s ! i) \<noteq> 0"
  shows "socks_ok s'"
proof -
  obtain slot b where p: "acceptq_pop (socks s ! i) = (slot, b)" by fastforce
  have "socks_ok (upd_sock i (\<lambda>_. b) s)"
    using sock_ok_pop(1) [OF socks_ok_nth [OF assms(2,3)] assms(4)] p assms(2) by (intro socks_ok_upd) auto
  moreover have "\<exists>m. s' = (upd_sock i (\<lambda>_. b) s)\<lparr>mem := m\<rparr>"
    using assms(1) p by (auto simp: take_accepted_def Let_def bind_eq_Some_conv split: if_splits)
      (auto intro: exI [of _ "mem s"] simp: upd_sock_def)
  ultimately show ?thesis by auto
qed

lemma accept_ok:
  assumes "net_shim_accept K E fd a l s = Some (r, s')" "stack_ok E" "socks_ok s"
  shows "socks_ok s'"
proof -
  obtain i v s1 where i: "sock_index fd = Some i" and
    b: "block_from_now K (se_link E) (accept_check i) NET_BLOCK_TIMEOUT_MS (Some (- EAGAIN)) s = Some (v, s1)" and
    v: "case v of Some w \<Rightarrow> s' = s1 | None \<Rightarrow> take_accepted E i a l s1 = Some (r, s')"
    using assms(1) by (auto simp: net_shim_accept_def bind_eq_Some_conv split: option.splits)
  have "i < SOCK_MAX" using i by (auto simp: sock_index_def Let_def split: if_splits)
  moreover have "block_end (accept_check i) (Some (- EAGAIN)) socks_ok v s1"
    by (rule block_socks_ok [OF b assms(2,3)]) (auto simp: accept_check_def)
  then have "socks_ok s1" "v = None \<longrightarrow> k_count (socks s1 ! i) \<noteq> 0"
    by (auto simp: block_end_def accept_check_def split: if_splits)
  ultimately show ?thesis using v take_accepted_ok by (cases v) auto
qed

lemma connect_ok:
  assumes "net_shim_connect K E fd a n s = Some (r, s')" "stack_ok E" "socks_ok s" "sock_index fd = Some i" "open_sock i s"
  shows "socks_ok s'"
proof (cases "n < 16")
  case False
  let ?arg = "\<lambda>s. se_connect E (k_pcb (socks s ! i))"
  obtain s1 s2 s3 ip port e s5 where s: "se_arg E (k_pcb (socks s ! i)) (Some i) s = Some s1"
      "se_recv E (k_pcb (socks s1 ! i)) True s1 = Some s2" "se_err E (k_pcb (socks s2 ! i)) True s2 = Some s3"
      "?arg (upd_sock i (k_state_update (\<lambda>_. SK_CONNECTING)) s3) ip port (upd_sock i (k_state_update (\<lambda>_. SK_CONNECTING)) s3) = Some (e, s5)"
      "s' = upd_sock i (k_state_update (\<lambda>_. SK_ERROR)) s5 \<or>
        (\<exists>v. block_from_now K (se_link E) (connect_check i) NET_BLOCK_TIMEOUT_MS (Some (- ETIMEDOUT)) s5 = Some (v, s'))"
    using assms(1,4) False by (auto simp: net_shim_connect_def bind_eq_Some_conv Let_def split: if_splits option.splits)
  have "same_socks s s3" using setter_same(1-3) [OF assms(2)] s(1-3) by (meson same_socks_trans)
  then have s3: "socks_ok s3" "open_sock i s3" using assms(3,5) socks_ok_same step_same(1) by blast+
  have run: "lwip_run E (upd_sock i (k_state_update (\<lambda>_. SK_CONNECTING)) s3) s5" using tcp_run(4) [OF assms(2) s(4)] .
  have "socks_ok s5" using run_socks_ok [OF run set_state_ok(1) [OF s3] assms(2)] .
  moreover have "open_sock i s5" using s3(2) by (intro run_open [OF run assms(2)]) (simp add: open_sock_def)
  moreover have "socks_ok s'"
    if b: "block_from_now K (se_link E) (connect_check i) NET_BLOCK_TIMEOUT_MS (Some (- ETIMEDOUT)) s5 = Some (v, s')" for v
    using block_socks_ok [OF b assms(2) \<open>socks_ok s5\<close>] by (auto simp: connect_check_def block_end_def split: if_splits)
  ultimately show ?thesis using s(5) set_state_ok(1) by blast
qed (use assms in \<open>simp add: net_shim_connect_def\<close>)

lemma rx_advance_ok:
  assumes "rx_advance E i off s = Some s'" "stack_ok E" "socks_ok s" "k_rx_head (socks s ! i) \<noteq> 0"
  shows "socks_ok s'"
proof -
  obtain pb where pb: "pbufs s (k_rx_head (socks s ! i)) = Some pb" using assms(1) by (auto simp: rx_advance_def Let_def bind_eq_Some_conv)
  note ok = socks_ok_nth [OF assms(3), of i]
  show ?thesis
  proof (cases "off = p_len pb")
    case True
    then obtain x s1 where s1: "pbuf_free (se_pbuf E) (k_rx_head (socks s ! i)) (put_pbuf (k_rx_head (socks s ! i)) (pb\<lparr>p_next := 0\<rparr>) s) = Some (x, s1)"
        "s' = upd_sock i (\<lambda>b. b\<lparr>k_rx_head := p_next pb, k_rx_off := 0\<rparr>) s1"
      using assms(1) pb by (auto simp: rx_advance_def Let_def bind_eq_Some_conv)
    have same: "same_socks s s1" using pbuf_free_quiet [OF s1(1) custom_quiet [OF assms(2)]] by simp
    then have "socks_ok s1" "socks s1 ! i = socks s ! i" using assms(3) socks_ok_same by (auto simp: same_socks_def)
    then show ?thesis unfolding s1(2) using ok by (intro socks_ok_upd) (auto simp: sock_ok_def queue_ok_def)
  next
    case False
    then have "s' = upd_sock i (k_rx_off_update (\<lambda>_. off)) s" using assms(1) pb by (simp add: rx_advance_def Let_def)
    then show ?thesis using ok assms(3,4) by (auto simp: sock_ok_def queue_ok_def intro!: socks_ok_upd)
  qed
qed

lemma bsock_read_ok:
  assumes "bsock_read E i buf n s = Some (r, s')" "stack_ok E" "socks_ok s" "k_rx_head (socks s ! i) \<noteq> 0"
  shows "socks_ok s'"
proof -
  obtain off m s2 k where s2: "rx_advance E i off (s\<lparr>mem := m\<rparr>) = Some s2"
      "(if k_pcb (socks s2 ! i) \<noteq> 0 then se_recved E (k_pcb (socks s2 ! i)) k s2 else Some s2) = Some s'"
    using assms(1) by (auto simp: bsock_read_def Let_def bind_eq_Some_conv)
  have "socks_ok s2" by (rule rx_advance_ok [OF s2(1) assms(2)]) (use assms in simp_all)
  then show ?thesis using s2(2) assms(2) by (auto split: if_splits dest: tcp_run(5) intro: run_socks_ok)
qed

lemma recv_ok:
  assumes "net_shim_recv K E fd buf n fl s = Some (r, s')" "stack_ok E" "socks_ok s"
  shows "socks_ok s'"
proof (cases "n = 0")
  case False
  then obtain i where b: "block_from_now K (se_link E) (recv_check E i buf n) NET_BLOCK_TIMEOUT_MS (- ETIMEDOUT) s = Some (r, s')"
    using assms(1) by (auto simp: net_shim_recv_def bind_eq_Some_conv)
  have check: "socks_ok s1" if "recv_check E i buf n s = Some (v, s1)" "socks_ok s" for v s s1
    using that bsock_read_ok [OF _ assms(2)] by (auto simp: recv_check_def bind_eq_Some_conv split: if_splits)
  then have "block_end (recv_check E i buf n) (- ETIMEDOUT) socks_ok r s'" by (intro block_socks_ok [OF b assms(2,3)])
  then show ?thesis using check by (auto simp: block_end_def)
qed (use assms in \<open>auto simp: net_shim_recv_def bind_eq_Some_conv\<close>)

lemma bsock_write_run:
  assumes "bsock_write E i buf n s = Some (r, s')" "stack_ok E"
  shows "lwip_run E s s'"
proof -
  consider "s' = s" | pcb k e s1 where "se_write E pcb buf k s = Some (e, s1)" "s' = s1 \<or> se_output E (k_pcb (socks s1 ! i)) s1 = Some s'"
    using assms(1) by (auto simp: bsock_write_def Let_def bind_eq_Some_conv split: if_split_asm)
  then show ?thesis
  proof cases
    case 2
    have "lwip_run E s s1" "lwip_run E s1 s'" using 2 tcp_run(6,7) [OF assms(2)] by auto
    then show ?thesis by (rule rtranclp_trans)
  qed simp
qed

lemma send_ok:
  assumes "net_shim_send K E fd buf n fl s = Some (r, s')" "stack_ok E" "socks_ok s"
  shows "socks_ok s'"
proof (cases "n = 0")
  case False
  then obtain i where b: "block_from_now K (se_link E) (send_check E i buf n) NET_BLOCK_TIMEOUT_MS (- ETIMEDOUT) s = Some (r, s')"
    using assms(1) by (auto simp: net_shim_send_def bind_eq_Some_conv)
  have check: "socks_ok s1" if "send_check E i buf n s = Some (v, s1)" "socks_ok s" for v s s1
    using that by (auto simp: send_check_def bind_eq_Some_conv dest!: bsock_write_run [OF _ assms(2)] intro: run_socks_ok [OF _ _ assms(2)])
  then have "block_end (send_check E i buf n) (- ETIMEDOUT) socks_ok r s'" by (intro block_socks_ok [OF b assms(2,3)])
  then show ?thesis using check by (auto simp: block_end_def)
qed (use assms in \<open>auto simp: net_shim_send_def bind_eq_Some_conv\<close>)

text \<open>Closing works on a socket whose state does not matter any more.\<close>

definition closing_ok :: "('k, 'm, 'z) shim_scheme \<Rightarrow> nat \<Rightarrow> bool" where
  "closing_ok s i \<longleftrightarrow> length (socks s) = SOCK_MAX \<and> (\<forall>j<SOCK_MAX. sock_ok ((socks s ! j)\<lparr>k_state := if j = i then SK_FREE else k_state (socks s ! j)\<rparr>))"

lemma drop_rx_ok:
  assumes "drop_rx E i s = Some s'" "stack_ok E" "closing_ok s i"
  shows "closing_ok s' i"
proof -
  have "stack_ok E \<longrightarrow> closing_ok s i \<longrightarrow> closing_ok s' i"
  proof (rule drop_rx.raw_induct [OF _ assms(1), where P = "\<lambda>E i s s'. stack_ok E \<longrightarrow> closing_ok s i \<longrightarrow> closing_ok s' i"], goal_cases)
    case (1 loop E i s s')
    let ?p = "k_rx_head (socks s ! i)"
    show ?case
    proof (cases "?p = 0")
      case True
      then show ?thesis using 1(2) by simp
    next
      case False
      then obtain pb r s1 where s1: "pbuf_free (se_pbuf E) ?p (put_pbuf ?p (pb\<lparr>p_next := 0\<rparr>) s) = Some (r, s1)"
          "loop E i (upd_sock i (k_rx_head_update (\<lambda>_. p_next pb)) s1) = Some s'"
        using 1(2) by (auto simp: Let_def bind_eq_Some_conv)
      show ?thesis
      proof (intro impI)
        assume E: "stack_ok E" and q: "closing_ok s i"
        have same: "socks s1 = socks s"
          using pbuf_free_quiet [OF s1(1) custom_quiet [OF E]] by (simp add: same_socks_def put_pbuf_def)
        have "closing_ok (upd_sock i (k_rx_head_update (\<lambda>_. p_next pb)) s1) i"
          using q same by (auto simp: closing_ok_def sock_ok_def queue_ok_def nth_list_update)
        then show "closing_ok s' i" using 1(1) [OF s1(2)] E by blast
      qed
    qed
  qed
  then show ?thesis using assms(2,3) by blast
qed

lemma detach_run:
  assumes "detach_pcb E i s = Some s'" "stack_ok E"
  shows "lwip_run E s s'"
proof -
  let ?p = "k_pcb (socks s ! i)"
  obtain s1 s2 e s3 where s: "se_arg E ?p None s = Some s1"
      "(if k_state (socks s1 ! i) = SK_LISTENING then se_accept E ?p False s1
        else do {s' \<leftarrow> se_recv E ?p False s1; se_err E ?p False s'}) = Some s2"
      "se_close E ?p s2 = Some (e, s3)" "(if e \<noteq> ERR_OK then se_abort E ?p s3 else Some s3) = Some s'"
    using assms(1) by (auto simp: detach_pcb_def Let_def bind_eq_Some_conv)
  have "same_socks s1 s2"
    using s(2) by (auto simp: bind_eq_Some_conv split: if_splits dest!: setter_same(2-4) [OF assms(2)] elim: same_socks_trans)
  then have "lwip_run E s s2" using setter_same(1) [OF assms(2) s(1)] by (intro run_quiet) (rule same_socks_trans)
  moreover have "lwip_run E s2 s3" "lwip_run E s3 s'" using s(3,4) tcp_run(8,9) [OF assms(2)] by (auto split: if_splits)
  ultimately show ?thesis by (meson rtranclp_trans)
qed

lemma close_ok:
  assumes "net_shim_close E fd s = Some (r, s')" "stack_ok E" "socks_ok s"
  shows "socks_ok s'"
proof -
  obtain i s1 s2 where i: "sock_index fd = Some i" and
      s1: "(if k_pcb (socks s ! i) \<noteq> 0 then detach_pcb E i s else Some s) = Some s1" and
      s2: "drop_rx E i s1 = Some s2" "s' = upd_sock i (k_state_update (\<lambda>_. SK_FREE)) s2"
    using assms(1) by (auto simp: net_shim_close_def bind_eq_Some_conv)
  have "socks_ok s1" using s1 assms(2,3) by (auto split: if_splits dest: detach_run intro: run_socks_ok)
  then have "closing_ok s1 i" by (auto simp: closing_ok_def socks_ok_def sock_ok_def queue_ok_def)
  then have ok: "closing_ok s2 i" using drop_rx_ok [OF s2(1) assms(2)] by blast
  have "sock_ok (socks s' ! j)" if "j < SOCK_MAX" for j
    using ok that unfolding s2(2) closing_ok_def by (cases "j = i") auto
  then show ?thesis using ok s2(2) by (auto simp: socks_ok_def closing_ok_def set_conv_nth)
qed

section \<open>Every reachable table is well formed\<close>

text \<open>The calls of a program.  Listening and connecting are calls on an open socket.\<close>

inductive shim_call :: "'k kernel \<Rightarrow> ('m, ('k, 'm, 'z) shim_scheme) tcp_env \<Rightarrow> ('k, 'm, 'z) shim_scheme \<Rightarrow> ('k, 'm, 'z) shim_scheme \<Rightarrow> bool"
  for K E where
  socket: "net_shim_socket K E d t q s = Some (r, s') \<Longrightarrow> shim_call K E s s'"
| bind: "net_shim_bind E fd a n s = Some (r, s') \<Longrightarrow> shim_call K E s s'"
| listen: "net_shim_is_fd fd s \<Longrightarrow> net_shim_listen E fd n s = Some (r, s') \<Longrightarrow> shim_call K E s s'"
| accept: "net_shim_accept K E fd a l s = Some (r, s') \<Longrightarrow> shim_call K E s s'"
| connect: "net_shim_is_fd fd s \<Longrightarrow> net_shim_connect K E fd a n s = Some (r, s') \<Longrightarrow> shim_call K E s s'"
| recv: "net_shim_recv K E fd buf len fl s = Some (r, s') \<Longrightarrow> shim_call K E s s'"
| send: "net_shim_send K E fd buf len fl s = Some (r, s') \<Longrightarrow> shim_call K E s s'"
| close: "net_shim_close E fd s = Some (r, s') \<Longrightarrow> shim_call K E s s'"
| program: "same_socks s s' \<Longrightarrow> shim_call K E s s'"

lemma is_fd_open:
  assumes "net_shim_is_fd fd s" "socks_ok s"
  obtains i where "sock_index fd = Some i" "open_sock i s"
proof -
  let ?i = "fd - SOCK_FD_BASE"
  have b: "0 \<le> sint ?i" "sint ?i < int SOCK_MAX" "k_state (socks s ! nat (sint ?i)) \<noteq> SK_FREE"
    using assms(1) by (auto simp: net_shim_is_fd_def Let_def)
  have "nat (sint ?i) = unat ?i" using sint_nonneg_unat [OF b(1)] by simp
  then show ?thesis using b assms(2) by (intro that [of "unat ?i"]) (auto simp: sock_index_def Let_def open_index)
qed

lemma call_socks_ok:
  assumes "shim_call K E s s'" "stack_ok E" "socks_ok s"
  shows "socks_ok s'"
  using assms(1)
proof cases
  case (listen fd n r)
  obtain i where "sock_index fd = Some i" "open_sock i s" using is_fd_open [OF listen(1) assms(3)] by blast
  then show ?thesis by (rule listen_ok [OF listen(2) assms(2,3)])
next
  case (connect fd a n r)
  obtain i where "sock_index fd = Some i" "open_sock i s" using is_fd_open [OF connect(1) assms(3)] by blast
  then show ?thesis by (rule connect_ok [OF connect(2) assms(2,3)])
next
  case program
  then show ?thesis using assms(3) by (rule socks_ok_same)
qed (erule socket_ok bind_ok accept_ok recv_ok send_ok close_ok, rule assms(2), rule assms(3))+

lemma calls_socks_ok: "(shim_call K E)\<^sup>*\<^sup>* s s' \<Longrightarrow> stack_ok E \<Longrightarrow> socks_ok s \<Longrightarrow> socks_ok s'"
  by (induction rule: rtranclp_induct) (auto intro: call_socks_ok)

end
