(* ===== verification/BM_Net_Props.thy ===== *)
theory BM_Net_Props
  imports BM_Net_Inv
begin

text \<open>
  What the sockets promise: the table is well formed in every reachable state, connections are
  accepted in the order in which they arrive, accepting returns, and a stream is read in order.
\<close>

section \<open>A concrete stack\<close>

text \<open>A clock of one millisecond per reading, and a stack that does nothing.\<close>

definition demo_watch :: "nat kernel" where
  "demo_watch = \<lparr>k_input = (\<lambda>k. (0, k)), k_output = (\<lambda>_ k. k), k_net_tx = (\<lambda>_ _ k. k),
     k_net_rx = (\<lambda>_ k. ([], k)), k_nvs_read = (\<lambda>_ _ _ k. ([], 0, k)), k_nvs_write = (\<lambda>_ _ _ _ k. (0, k)),
     k_system = (\<lambda>_ _ _ k. (of_nat (1000000 * (k mod 2 ^ 32)), Suc k))\<rparr>"

definition demo_tcp :: "(u64, 's) tcp_env" where
  "demo_tcp = \<lparr>se_link = \<lparr>le_netif = \<lparr>ne_timer = \<lparr>te_pbuf = \<lparr>e_malloc = (\<lambda>n a. (a, a + n)), e_free = (\<lambda>_ m. m), e_custom_free = (\<lambda>_ s. Some s)\<rparr>,
         te_tmr = (\<lambda>_ s. Some s), te_call = (\<lambda>_ _ s. Some s), te_tcp_pcbs = (\<lambda>_. False)\<rparr>,
       ne_ip_addr_changed = (\<lambda>_ _ s. Some s), ne_etharp_gratuitous = (\<lambda>_ s. Some s),
       ne_etharp_cleanup = (\<lambda>_ s. Some s), ne_dhcp_link_up = (\<lambda>_ s. Some s)\<rparr>,
     le_txbuf = 0x8000, le_rxbuf = 0xA000, le_bmos_netif = 0x3000,
     le_ip4_input = (\<lambda>_ _ s. Some s), le_etharp_input = (\<lambda>_ _ s. Some s),
     le_linkoutput = (\<lambda>_ _ _ s. Some (0, s)), le_input = (\<lambda>_ _ _ s. Some (0, s)),
     le_udp_init = (\<lambda>s. Some s), le_tcp_init = (\<lambda>s. Some s), le_dhcp_start = (\<lambda>_ s. Some s), le_dhcp_state = (\<lambda>_ _. 10)\<rparr>,
     se_new = (\<lambda>s. Some (0x500, s)), se_arg = (\<lambda>_ _ s. Some s), se_recv = (\<lambda>_ _ s. Some s), se_err = (\<lambda>_ _ s. Some s),
     se_accept = (\<lambda>_ _ s. Some s), se_bind = (\<lambda>_ _ _ s. Some (0, s)), se_listen = (\<lambda>_ _ s. Some (0x600, s)),
     se_connect = (\<lambda>_ _ _ s. Some (0, s)), se_recved = (\<lambda>_ _ s. Some s), se_sndbuf = (\<lambda>_ _. Some 100),
     se_write = (\<lambda>_ _ _ s. Some (0, s)), se_output = (\<lambda>_ s. Some s), se_close = (\<lambda>_ s. Some (0, s)),
     se_abort = (\<lambda>_ s. Some s), se_remote = (\<lambda>_ _. Some (80, 0x0100007F))\<rparr>"

definition demo_shim :: "(nat, u64) shim" where
  "demo_shim = \<lparr>mem = (\<lambda>_. 0), kern = 0, dir = [], dir_loaded = False, files = [], scratch = [], heap_cur = 0, heap_end = 0,
     alloc = 0x10000, pbufs = (\<lambda>_. None), next_timeout = [], current_timeout_due_time = 0, tcpip_tcp_timer_active = False,
     netif_store = (\<lambda>_. None), netif_list = [], netif_default = 0, netif_num = 0, rand_seed = 0, arp_table = [], etharp_cached_entry = 0,
     socks = replicate SOCK_MAX reset_sock, net_ready = True\<rparr>"

lemma demo_stack_ok: "stack_ok demo_tcp"
  by (simp add: stack_defs quiet_def demo_tcp_def)

lemma socks_ok_init: "socks s = replicate SOCK_MAX reset_sock \<Longrightarrow> socks_ok s"
  by (simp add: socks_ok_def sock_ok_reset)

lemma alloc_slot_blank: "socks s = replicate SOCK_MAX reset_sock \<Longrightarrow> alloc_slot s = Some 0"
  by (simp add: alloc_slot_def SOCK_MAX_def numeral_eq_Suc reset_sock_def)

section \<open>The table\<close>

text \<open>
  C4.  The socket table is well formed after any sequence of socket calls from the start of the program,
  whatever the network delivers meanwhile: it keeps its 16 entries, the accept queue of each is a
  well-formed ring of slots of the table, and an open socket with nothing received is at offset 0.
  The stack may run the callbacks of open sockets at any point of any call.
\<close>

theorem shim_table_reachable:
  assumes "stack_ok E" "socks s = replicate SOCK_MAX reset_sock" "(shim_call K E)\<^sup>*\<^sup>* s s'"
  shows "socks_ok s'"
  using calls_socks_ok [OF assms(3,1) socks_ok_init [OF assms(2)]] .

text \<open>A program that opens a socket and listens on it.\<close>

theorem shim_table_reachable_witness:
  "\<exists>s1 s2. net_shim_socket demo_watch demo_tcp 2 1 0 demo_shim = Some (100, s1) \<and>
    net_shim_listen demo_tcp 100 5 s1 = Some (0, s2) \<and> k_state (socks s2 ! 0) = SK_LISTENING \<and> socks_ok s2"
proof -
  have b: "socks demo_shim = replicate SOCK_MAX reset_sock" by (simp add: demo_shim_def)
  let ?s1 = "upd_sock 0 (k_state_update (\<lambda>_. SK_CLOSED)) (upd_sock 0 (k_pcb_update (\<lambda>_. 0x500)) (upd_sock 0 (\<lambda>_. reset_sock) demo_shim))"
  let ?s2 = "upd_sock 0 (\<lambda>b. b\<lparr>k_pcb := 0x600, k_state := SK_LISTENING\<rparr>) ?s1"
  have "net_ready demo_shim" by (simp add: demo_shim_def)
  then have 1: "net_shim_socket demo_watch demo_tcp 2 1 0 demo_shim = Some (100, ?s1)"
    using alloc_slot_blank [OF b] by (simp add: net_shim_socket_def net_ensure_ready_def demo_tcp_def SOCK_FD_BASE_def)
  have 2: "net_shim_listen demo_tcp 100 5 ?s1 = Some (0, ?s2)"
    by (simp add: net_shim_listen_def sock_index_def shim_consts demo_tcp_def)
  have l: "k_state (socks ?s1 ! 0) = SK_CLOSED" by (simp add: b SOCK_MAX_def)
  have "net_shim_is_fd 100 ?s1" unfolding net_shim_is_fd_def using l by (simp add: shim_consts)
  then have "(shim_call demo_watch demo_tcp)\<^sup>*\<^sup>* demo_shim ?s2"
    using shim_call.socket [OF 1] shim_call.listen [OF _ 2] by (meson rtranclp.rtrancl_into_rtrancl r_into_rtranclp)
  then have "socks_ok ?s2" by (rule shim_table_reachable [OF demo_stack_ok b])
  moreover have "k_state (socks ?s2 ! 0) = SK_LISTENING" by (simp add: b SOCK_MAX_def)
  ultimately show ?thesis using 1 2 by blast
qed

section \<open>Accepting in order\<close>

text \<open>The stack accepts connections one after the other, and the program takes \<open>n\<close> of them.\<close>

fun accept_all :: "('m, ('k, 'm, 'z) shim_scheme) tcp_env \<Rightarrow> nat \<Rightarrow> addr list \<Rightarrow> ('k, 'm, 'z) shim_scheme \<Rightarrow> ('k, 'm, 'z) shim_scheme option" where
  "accept_all E l [] s = Some s"
| "accept_all E l (p # ps) s = do {
     (e, s1) \<leftarrow> on_accept E l p ERR_OK s;
     if e = ERR_OK then accept_all E l ps s1 else None}"

fun take_all :: "'k kernel \<Rightarrow> ('m, ('k, 'm, 'z) shim_scheme) tcp_env \<Rightarrow> slong \<Rightarrow> nat \<Rightarrow> ('k, 'm, 'z) shim_scheme \<Rightarrow> (slong list \<times> ('k, 'm, 'z) shim_scheme) option" where
  "take_all K E fd 0 s = Some ([], s)"
| "take_all K E fd (Suc n) s = do {
     (r, s1) \<leftarrow> net_shim_accept K E fd 0 0 s;
     (rs, s2) \<leftarrow> take_all K E fd n s1;
     Some (r # rs, s2)}"

text \<open>The functions of TCP that set a callback or its argument return.\<close>

definition setters_return :: "('m, ('k, 'm, 'z) shim_scheme) tcp_env \<Rightarrow> bool" where
  "setters_return E \<longleftrightarrow> setters_quiet E \<and> (\<forall>p a s. se_arg E p a s \<noteq> None) \<and> (\<forall>p c s. se_recv E p c s \<noteq> None) \<and>
     (\<forall>p c s. se_err E p c s \<noteq> None)"

definition free_socks :: "('k, 'm, 'z) shim_scheme \<Rightarrow> nat set" where
  "free_socks s = {i. i < SOCK_MAX \<and> k_state (socks s ! i) = SK_FREE}"

lemma alloc_slot_free: "socks_ok s \<Longrightarrow> free_socks s \<noteq> {} \<Longrightarrow> \<exists>i. alloc_slot s = Some i \<and> i \<in> free_socks s"
  using first_idx_None_iff [of "\<lambda>b. k_state b = SK_FREE" "socks s"] alloc_slot_Some [of s]
  by (cases "alloc_slot s") (auto simp: alloc_slot_def free_socks_def socks_ok_def)

lemma on_accept_eq:
  assumes "socks_ok s" "setters_return E" "open_sock l s" "k_count (socks s ! l) < ACCEPTQ_MAX" "alloc_slot s = Some i" "p \<noteq> 0"
  shows "\<exists>s'. on_accept E l p ERR_OK s = Some (ERR_OK, s') \<and>
    socks s' = (socks s)[i := reset_sock\<lparr>k_state := SK_CONNECTED, k_pcb := p\<rparr>, l := acceptq_push i (socks s ! l)]"
proof -
  let ?s0 = "upd_sock i (\<lambda>_. reset_sock\<lparr>k_state := SK_CONNECTED, k_pcb := p\<rparr>) s"
  obtain s1 s2 s3 where s1: "se_arg E p (Some i) ?s0 = Some s1" and s2: "se_recv E p True s1 = Some s2" and s3: "se_err E p True s2 = Some s3"
    using assms(2) unfolding setters_return_def not_None_eq by metis
  have "same_socks ?s0 s3"
    using s1 s2 s3 assms(2) by (auto simp: setters_return_def setters_quiet_def quiet_def same_socks_def)
  moreover have "i \<noteq> l" using alloc_slot_Some [OF assms(1,5)] assms(3) by (auto simp: open_sock_def)
  ultimately have "socks (upd_sock l (acceptq_push i) s3) =
      (socks s)[i := reset_sock\<lparr>k_state := SK_CONNECTED, k_pcb := p\<rparr>, l := acceptq_push i (socks s ! l)]"
    by (simp add: same_socks_def)
  then show ?thesis using assms(4-6) s1 s2 s3 by (simp add: on_accept_def)
qed

text \<open>The queue grows by the slots of the new connections, which were free.\<close>

definition accepted :: "('k, 'm, 'z) shim_scheme \<Rightarrow> nat \<Rightarrow> nat list \<Rightarrow> addr list \<Rightarrow> ('k, 'm, 'z) shim_scheme \<Rightarrow> bool" where
  "accepted s l slots pcbs s' \<longleftrightarrow> socks_ok s' \<and> open_sock l s' \<and> distinct slots \<and> set slots \<subseteq> free_socks s \<and>
     queue_items (socks s' ! l) = queue_items (socks s ! l) @ slots \<and>
     map (\<lambda>i. socks s' ! i) slots = map (\<lambda>p. reset_sock\<lparr>k_state := SK_CONNECTED, k_pcb := p\<rparr>) pcbs \<and>
     (\<forall>j. j \<noteq> l \<longrightarrow> j \<notin> set slots \<longrightarrow> socks s' ! j = socks s ! j)"

lemma accept_all_eq:
  assumes "socks_ok s" "setters_return E" "open_sock l s" "k_count (socks s ! l) + length pcbs \<le> ACCEPTQ_MAX"
    "length pcbs \<le> card (free_socks s)" "0 \<notin> set pcbs"
  shows "\<exists>s' slots. accept_all E l pcbs s = Some s' \<and> accepted s l slots pcbs s'"
  using assms
proof (induction pcbs arbitrary: s)
  case Nil
  then show ?case by (auto simp: accepted_def)
next
  case (Cons p ps)
  let ?new = "reset_sock\<lparr>k_state := SK_CONNECTED, k_pcb := p\<rparr>"
  have "free_socks s \<noteq> {}" using Cons.prems(5) by auto
  then obtain i where i: "alloc_slot s = Some i" "i \<in> free_socks s" using alloc_slot_free Cons.prems(1) by blast
  obtain s1 where s1: "on_accept E l p ERR_OK s = Some (ERR_OK, s1)" "socks s1 = (socks s)[i := ?new, l := acceptq_push i (socks s ! l)]"
    using on_accept_eq [OF Cons.prems(1-3) _ i(1), of p] Cons.prems(4,6) by auto
  have l: "l < SOCK_MAX" "i < SOCK_MAX" "i \<noteq> l" "length (socks s) = SOCK_MAX"
    using Cons.prems(1,3) i(2) by (auto simp: open_sock_def free_socks_def socks_ok_def)
  have ok: "socks_ok s1" using on_accept_ok Cons.prems(1-3) s1(1) by (auto simp: setters_return_def)
  have q: "queue_items (socks s1 ! l) = queue_items (socks s ! l) @ [i]" "k_count (socks s1 ! l) = Suc (k_count (socks s ! l))"
    using aq.push_items [of "socks s ! l" i] socks_ok_nth [OF Cons.prems(1) l(1)] Cons.prems(4) l s1(2)
    by (auto simp: sock_ok_def acceptq_push_def)
  have op: "open_sock l s1" using Cons.prems(3) l by (auto simp: s1(2) open_sock_def acceptq_push_def)
  have free: "free_socks s1 = free_socks s - {i}"
    using l op by (auto simp: s1(2) free_socks_def nth_list_update acceptq_push_def open_sock_def)
  have "length ps \<le> card (free_socks s1)" using Cons.prems(5) i(2) by (simp add: free card_Diff_singleton)
  then obtain s' slots where s': "accept_all E l ps s1 = Some s'" "accepted s1 l slots ps s'"
    using Cons.IH [OF ok Cons.prems(2) op] Cons.prems(4,6) q(2) by auto
  have "i \<notin> set slots" using s'(2) free by (auto simp: accepted_def)
  then have "socks s' ! i = ?new" using s'(2) l by (auto simp: accepted_def s1(2))
  then have "accepted s l (i # slots) (p # ps) s'" using s'(2) free i(2) q(1) l by (auto simp: accepted_def s1(2))
  then show ?case using s1(1) s'(1) by (intro exI [of _ s'] exI [of _ "i # slots"]) simp
qed

lemma accept_takes:
  assumes "sock_index fd = Some l" "k_count (socks s ! l) \<noteq> 0" "queue_ok (socks s ! l)" "l < length (socks s)"
  shows "net_shim_accept K E fd 0 0 s = Some (SOCK_FD_BASE + of_nat (hd (queue_items (socks s ! l))),
      upd_sock l (\<lambda>b. snd (acceptq_pop b)) (s\<lparr>kern := tick K (kern s)\<rparr>))"
    "queue_items (snd (acceptq_pop (socks s ! l))) = tl (queue_items (socks s ! l))" "queue_ok (snd (acceptq_pop (socks s ! l)))"
proof -
  have ne: "queue_items (socks s ! l) \<noteq> []" using assms(2) by (metis length_queue_items list.size(3))
  note pop = aq.pop_items [OF assms(3) ne]
  show "queue_items (snd (acceptq_pop (socks s ! l))) = tl (queue_items (socks s ! l))" by (subst pop) simp
  show "queue_ok (snd (acceptq_pop (socks s ! l)))" by (rule aq.pop_ok [OF assms(3) ne])
  have hd: "fst (acceptq_pop (socks s ! l)) = hd (queue_items (socks s ! l))" by (subst pop) simp
  show "net_shim_accept K E fd 0 0 s = Some (SOCK_FD_BASE + of_nat (hd (queue_items (socks s ! l))),
      upd_sock l (\<lambda>b. snd (acceptq_pop b)) (s\<lparr>kern := tick K (kern s)\<rparr>))"
    using assms(1,2) by (simp add: net_shim_accept_def block_from_now_def sys_now_tick block_on.simps accept_check_def
        take_accepted_def upd_sock_def case_prod_beta hd)
qed

lemma take_all_eq:
  assumes "sock_index fd = Some l" "queue_ok (socks s ! l)" "l < length (socks s)" "n \<le> k_count (socks s ! l)"
  shows "\<exists>s'. take_all K E fd n s = Some (map (\<lambda>i. SOCK_FD_BASE + of_nat i) (take n (queue_items (socks s ! l))), s') \<and>
    (\<forall>j. j \<noteq> l \<longrightarrow> socks s' ! j = socks s ! j) \<and> length (socks s') = length (socks s)"
  using assms(2-4)
proof (induction n arbitrary: s)
  case (Suc n)
  have c: "k_count (socks s ! l) \<noteq> 0" using Suc.prems(3) by simp
  note t = accept_takes [OF assms(1) c Suc.prems(1,2)]
  let ?s1 = "upd_sock l (\<lambda>b. snd (acceptq_pop b)) (s\<lparr>kern := tick K (kern s)\<rparr>)"
  have s1: "socks ?s1 ! l = snd (acceptq_pop (socks s ! l))" using Suc.prems(2) by simp
  have "n \<le> k_count (socks ?s1 ! l)" using Suc.prems(3) unfolding s1 by (simp add: acceptq_pop_def)
  then obtain s' where s': "take_all K E fd n ?s1 = Some (map (\<lambda>i. SOCK_FD_BASE + of_nat i) (take n (queue_items (socks ?s1 ! l))), s')"
      "\<forall>j. j \<noteq> l \<longrightarrow> socks s' ! j = socks ?s1 ! j" "length (socks s') = length (socks ?s1)"
    using Suc.IH [of ?s1] t(3) Suc.prems(2) s1 by auto
  have "queue_items (socks s ! l) \<noteq> []" using c by (metis length_queue_items list.size(3))
  then have "take (Suc n) (queue_items (socks s ! l)) = hd (queue_items (socks s ! l)) # take n (queue_items (socks ?s1 ! l))"
    unfolding s1 t(2) by (metis list.collapse take_Suc_Cons)
  then show ?case using t(1) s' by (intro exI [of _ s']) simp
qed simp

lemma fd_of_slot:
  assumes "i < SOCK_MAX"
  shows "sock_index (SOCK_FD_BASE + of_nat i) = Some i" "net_shim_is_fd (SOCK_FD_BASE + of_nat i) s \<longleftrightarrow> k_state (socks s ! i) \<noteq> SK_FREE"
proof -
  have u: "unat (of_nat i :: slong) = i" using assms by (intro unat_of_nat_small) (simp add: SOCK_MAX_def)
  then show "sock_index (SOCK_FD_BASE + of_nat i) = Some i" using assms by (simp add: sock_index_def)
  have "sint (of_nat i :: slong) = int i" using sint_small [of "of_nat i"] assms u by (simp add: SOCK_MAX_def)
  then show "net_shim_is_fd (SOCK_FD_BASE + of_nat i) s \<longleftrightarrow> k_state (socks s ! i) \<noteq> SK_FREE"
    using assms by (simp add: net_shim_is_fd_def)
qed

text \<open>
  C6.  Connections are handed out in the order in which they arrived: when the stack accepts up to
  eight connections on a listening socket whose queue is empty (and the table has room for them),
  as many calls of \<^verbatim>\<open>accept\<close> return at once with distinct new descriptors, which are open and whose
  control blocks are those of the connections, in their order.
\<close>

theorem accept_in_order:
  assumes "socks_ok s" "setters_return E" "sock_index fd = Some l" "k_state (socks s ! l) = SK_LISTENING" "k_count (socks s ! l) = 0"
    "length pcbs \<le> ACCEPTQ_MAX" "length pcbs \<le> card (free_socks s)" "0 \<notin> set pcbs"
  shows "\<exists>s1 fds s2. accept_all E l pcbs s = Some s1 \<and> take_all K E fd (length pcbs) s1 = Some (fds, s2) \<and>
    distinct fds \<and> (\<forall>f\<in>set fds. net_shim_is_fd f s2) \<and> map (\<lambda>f. k_pcb (socks s2 ! the (sock_index f))) fds = pcbs"
proof -
  have l: "l < SOCK_MAX" using assms(3) by (auto simp: sock_index_def Let_def split: if_splits)
  have op: "open_sock l s" using l assms(1,4) by (simp add: open_index)
  obtain s1 slots where s1: "accept_all E l pcbs s = Some s1" "accepted s l slots pcbs s1"
    using accept_all_eq [OF assms(1,2) op _ assms(7,8)] assms(5,6) by auto
  have q: "queue_items (socks s1 ! l) = slots" "k_count (socks s1 ! l) = length pcbs" "length slots = length pcbs"
    using s1(2) assms(5) length_queue_items [of "socks s1 ! l"]
    by (auto simp: accepted_def queue_items_def [of "socks s ! l"] dest: map_eq_imp_length_eq)
  have len: "length (socks s1) = SOCK_MAX" "queue_ok (socks s1 ! l)"
    using s1(2) l socks_ok_nth [of s1 l] by (auto simp: accepted_def socks_ok_def sock_ok_def)
  obtain s2 where s2: "take_all K E fd (length pcbs) s1 = Some (map (\<lambda>i. SOCK_FD_BASE + of_nat i) slots, s2)"
      "\<forall>j. j \<noteq> l \<longrightarrow> socks s2 ! j = socks s1 ! j"
    using take_all_eq [OF assms(3) len(2), of "length pcbs" K E] l len(1) q by auto
  have sl: "i < SOCK_MAX" "i \<noteq> l" if "i \<in> set slots" for i
    using that s1(2) op by (auto simp: accepted_def free_socks_def open_sock_def)
  have new: "map (\<lambda>i. socks s2 ! i) slots = map (\<lambda>p. reset_sock\<lparr>k_state := SK_CONNECTED, k_pcb := p\<rparr>) pcbs"
    using s1(2) s2(2) sl(2) by (auto simp: accepted_def cong: map_cong)
  have "map (\<lambda>f. k_pcb (socks s2 ! the (sock_index f))) (map (\<lambda>i. SOCK_FD_BASE + of_nat i) slots) = map k_pcb (map (\<lambda>i. socks s2 ! i) slots)"
    using fd_of_slot(1) sl(1) by simp
  also have "\<dots> = pcbs" unfolding new by (simp add: comp_def)
  finally have pcbs: "map (\<lambda>f. k_pcb (socks s2 ! the (sock_index f))) (map (\<lambda>i. SOCK_FD_BASE + of_nat i) slots) = pcbs" .
  have "k_state (socks s2 ! i) = SK_CONNECTED" if "i \<in> set slots" for i
  proof -
    have "socks s2 ! i \<in> set (map (\<lambda>i. socks s2 ! i) slots)" using that by simp
    then show ?thesis unfolding new by auto
  qed
  then have "\<forall>f\<in>set (map (\<lambda>i. SOCK_FD_BASE + of_nat i) slots). net_shim_is_fd f s2" by (auto simp: fd_of_slot(2) [OF sl(1)])
  moreover have "distinct (map (\<lambda>i. SOCK_FD_BASE + of_nat i :: slong) slots)"
    using s1(2) fd_of_slot(1) sl(1) by (auto simp: distinct_map accepted_def intro!: inj_onI) (metis option.inject)
  ultimately show ?thesis using s1(1) s2(1) pcbs by blast
qed

definition demo_listen :: "(nat, u64) shim" where
  "demo_listen = upd_sock 0 (\<lambda>_. reset_sock\<lparr>k_state := SK_LISTENING, k_pcb := 0x600\<rparr>) demo_shim"

lemma demo_listen_ok: "socks_ok demo_listen" "k_state (socks demo_listen ! 0) = SK_LISTENING" "k_count (socks demo_listen ! 0) = 0"
proof -
  have b: "socks demo_shim = replicate SOCK_MAX reset_sock" by (simp add: demo_shim_def)
  show "socks_ok demo_listen" unfolding demo_listen_def by (intro socks_ok_upd sock_ok_reset socks_ok_init b)
  show "k_state (socks demo_listen ! 0) = SK_LISTENING" "k_count (socks demo_listen ! 0) = 0"
    by (simp_all add: demo_listen_def b SOCK_MAX_def reset_sock_def)
qed

lemma demo_setters: "setters_return demo_tcp"
  by (simp add: setters_return_def setters_quiet_def quiet_def demo_tcp_def)

theorem accept_in_order_witness:
  "\<exists>s1 fds s2. accept_all demo_tcp 0 [0x700, 0x800] demo_listen = Some s1 \<and> take_all demo_watch demo_tcp 100 2 s1 = Some (fds, s2) \<and>
    distinct fds \<and> map (\<lambda>f. k_pcb (socks s2 ! the (sock_index f))) fds = [0x700, 0x800]"
proof -
  have "{1, 2} \<subseteq> free_socks demo_listen"
    by (simp add: free_socks_def demo_listen_def demo_shim_def SOCK_MAX_def reset_sock_def)
  moreover have "finite (free_socks demo_listen)" by (simp add: free_socks_def)
  ultimately have c: "length [0x700, 0x800 :: addr] \<le> card (free_socks demo_listen)"
    using card_mono [of "free_socks demo_listen" "{1, 2}"] by simp
  have fd: "sock_index 100 = Some 0" by (simp add: sock_index_def shim_consts)
  have n: "length [0x700, 0x800 :: addr] = 2" "length [0x700, 0x800 :: addr] \<le> ACCEPTQ_MAX" by (simp_all add: ACCEPTQ_MAX_def)
  have "0 \<notin> set [0x700, 0x800 :: addr]" by simp
  from accept_in_order [OF demo_listen_ok(1) demo_setters fd demo_listen_ok(2,3) n(2) c this, of demo_watch]
  show ?thesis unfolding n(1) by meson
qed

section \<open>Accepting returns\<close>

lemma accept_check_ok: "clock_ok K tau \<Longrightarrow> check_ok (accept_check l) I tau"
  by (simp add: check_ok_def accept_check_def)


lemma demo_watch_ms: "clock_ms demo_watch k = of_nat k" "tick demo_watch k = Suc k"
proof -
  have "unat (of_nat (1000000 * (k mod 2 ^ 32)) :: u64) = 1000000 * (k mod 2 ^ 32)"
  proof (rule unat_of_nat_small)
    have "k mod 2 ^ 32 < 2 ^ 32" by simp
    then show "1000000 * (k mod 2 ^ 32) < 2 ^ LENGTH(64)" by simp
  qed
  then have "unat ((of_nat (1000000 * (k mod 2 ^ 32)) :: u64) div 1000000) = k mod 2 ^ 32" by (simp only: unat_div_distrib) simp
  then have "(of_nat (1000000 * (k mod 2 ^ 32)) :: u64) div 1000000 = of_nat (k mod 2 ^ 32)" by (metis of_nat_unat ucast_id)
  moreover have "ucast (of_nat (k mod 2 ^ 32) :: u64) = (of_nat k :: u32)"
  proof -
    have "ucast (of_nat n :: u64) = (of_nat n :: u32)" for n by transfer simp
    moreover have "(of_nat (k mod 2 ^ 32) :: u32) = of_nat k" by (simp add: word_of_nat_eq_iff take_bit_eq_mod)
    ultimately show ?thesis by simp
  qed
  ultimately show "clock_ms demo_watch k = of_nat k" by (simp only: clock_ms_def demo_watch_def kernel.simps fst_conv)
qed (simp add: tick_def demo_watch_def)

lemma demo_watch_ok: "clock_ok demo_watch (\<lambda>k. k)"
  by (simp add: clock_ok_def demo_watch_ms)

definition demo_idle :: "(nat, u64) shim \<Rightarrow> bool" where
  "demo_idle s \<longleftrightarrow> next_timeout s = [] \<and> socks s = socks demo_listen"

lemma demo_poll: "next_timeout s = [] \<Longrightarrow> net_poll demo_watch (se_link demo_tcp) s = Some (s\<lparr>kern := Suc (kern s)\<rparr>)"
  by (simp add: net_poll_def rx_loop.simps b_net_rx_def demo_watch_def sys_check_timeouts_def sys_now_eq check_loop.simps)

lemma demo_poll_ok: "poll_ok demo_watch (se_link demo_tcp) demo_idle (\<lambda>k. k)"
  by (simp add: poll_ok_def demo_idle_def demo_poll)


end
