(* ===== verification/BM_Net_Stream.thy ===== *)
theory BM_Net_Stream
  imports BM_Net_Props BM_Pbuf_Copy
begin

text \<open>
  The data of a connection: the bytes a socket has received and not read yet, and that the callback and
  \<^verbatim>\<open>recv\<close> treat them as a stream, appending at its end and taking from its front.
\<close>

section \<open>The bytes of a socket\<close>

text \<open>
  The chain \<open>as\<close> of a socket: a packet of nonempty buffers that the socket alone refers to, read up to
  an offset inside the first one.
\<close>

definition rx_buf :: "(addr \<Rightarrow> pbuf option) \<Rightarrow> addr \<Rightarrow> bool" where
  "rx_buf P a \<longleftrightarrow> freeable P a \<and> sole_ref P a \<and> (case P a of None \<Rightarrow> False | Some b \<Rightarrow> p_len b \<noteq> 0)"

definition rx_ok :: "('k, 'm, 'z) shim_scheme \<Rightarrow> nat \<Rightarrow> addr list \<Rightarrow> bool" where
  "rx_ok s i as \<longleftrightarrow> i < length (socks s) \<and> (\<exists>n. packet (pbufs s) (k_rx_head (socks s ! i)) as n) \<and> (\<forall>a\<in>set as. rx_buf (pbufs s) a) \<and>
     (case as of [] \<Rightarrow> k_rx_off (socks s ! i) = 0
      | a # _ \<Rightarrow> (case pbufs s a of None \<Rightarrow> False | Some b \<Rightarrow> k_rx_off (socks s ! i) < p_len b))"

definition rx_pending :: "('k, 'm, 'z) shim_scheme \<Rightarrow> nat \<Rightarrow> addr list \<Rightarrow> u8 list" where
  "rx_pending s i as = drop (unat (k_rx_off (socks s ! i))) (payload (mem s) (pbufs s) as)"

lemma rx_buf_cong: "P a = Q a \<Longrightarrow> rx_buf P a = rx_buf Q a"
  by (simp add: rx_buf_def freeable_def sole_ref_def)

lemma rx_ok_cong:
  assumes "socks s' = socks s" "\<And>a. a \<in> set as \<Longrightarrow> pbufs s' a = pbufs s a"
  shows "rx_ok s' i as = rx_ok s i as"
proof -
  have "packet (pbufs s') p as n = packet (pbufs s) p as n" for p n by (rule packet_cong) (rule assms(2))
  moreover have "(\<forall>a\<in>set as. rx_buf (pbufs s') a) = (\<forall>a\<in>set as. rx_buf (pbufs s) a)" using assms(2) rx_buf_cong by blast
  ultimately show ?thesis unfolding rx_ok_def assms(1) using assms(2) by (auto split: list.splits)
qed

section \<open>Reading\<close>

lemma rx_advance_eq:
  assumes "rx_ok s i (a # as)" "pbufs s a = Some b" "off \<le> p_len b"
  shows "\<exists>s' as'. rx_advance E i off s = Some s' \<and> rx_ok s' i as' \<and> set as' \<subseteq> set (a # as) \<and> mem s' = mem s \<and>
    (\<forall>x\<in>set as'. pbufs s' x = pbufs s x) \<and> k_pcb (socks s' ! i) = k_pcb (socks s ! i) \<and>
    rx_pending s' i as' = drop (unat off) (payload (mem s) (pbufs s) (a # as))"
proof -
  let ?b = "socks s ! i"
  obtain n where p: "packet (pbufs s) (k_rx_head ?b) (a # as) n" using assms(1) by (auto simp: rx_ok_def)
  then have h: "k_rx_head ?b = a" "a \<noteq> 0" "a \<notin> set as" "packet (pbufs s) (p_next b) as (n - unat (p_len b))"
    using assms(2) by (auto simp: packet_Cons)
  have bufs: "rx_buf (pbufs s) a" "\<forall>x\<in>set as. rx_buf (pbufs s) x" "i < length (socks s)" using assms(1) by (auto simp: rx_ok_def)
  show ?thesis
  proof (cases "off = p_len b")
    case True
    let ?s0 = "put_pbuf a (b\<lparr>p_next := 0\<rparr>) s"
    have "freeable (pbufs ?s0) a" "sole_ref (pbufs ?s0) a"
      using bufs(1) assms(2) by (auto simp: rx_buf_def freeable_def sole_ref_def pbuf_get_allocsrc_def)
    moreover have "chain (pbufs ?s0) a [a]" using h(2) by simp
    ultimately have f: "pbuf_free (se_pbuf E) a ?s0 =
        Some (1, ?s0\<lparr>alloc := e_free (se_pbuf E) a (alloc ?s0), pbufs := release (pbufs ?s0) [a]\<rparr>)"
      using pbuf_free_eq [of ?s0 a "[a]" "se_pbuf E"] by (simp add: released_def)
    define s' where "s' = upd_sock i (\<lambda>c. c\<lparr>k_rx_head := p_next b, k_rx_off := 0\<rparr>)
        (?s0\<lparr>alloc := e_free (se_pbuf E) a (alloc ?s0), pbufs := release (pbufs ?s0) [a]\<rparr>)"
    have r: "rx_advance E i off s = Some s'" using True f h(1) assms(2) by (simp add: rx_advance_def s'_def)
    have "pbufs s' = release ((pbufs s)(a \<mapsto> b\<lparr>p_next := 0\<rparr>)) [a]" by (simp add: s'_def upd_sock_def)
    then have same: "pbufs s' x = pbufs s x" if "x \<in> set as" for x
      using that h(3) release_other [of x "[a]" "(pbufs s)(a \<mapsto> b\<lparr>p_next := 0\<rparr>)"] by auto
    have socks: "socks s' ! i = ?b\<lparr>k_rx_head := p_next b, k_rx_off := 0\<rparr>" "mem s' = mem s" "length (socks s') = length (socks s)"
      using bufs(3) by (simp_all add: s'_def upd_sock_def put_pbuf_def)
    have pk: "packet (pbufs s') (p_next b) as (n - unat (p_len b))" using h(4) packet_cong [of as "pbufs s'" "pbufs s", OF same] by blast
    have bs: "\<forall>x\<in>set as. rx_buf (pbufs s') x" using bufs(2) same rx_buf_cong [of "pbufs s'"] by auto
    have "rx_ok s' i as"
      unfolding rx_ok_def socks(1,3) using bufs(3) pk bs
      by (auto simp: rx_buf_def word_gt_0 split: list.splits option.splits)
    moreover have "rx_pending s' i as = drop (unat off) (payload (mem s) (pbufs s) (a # as))"
      using True assms(2) payload_cong [of as "pbufs s'" "pbufs s" "mem s", OF same] by (simp add: rx_pending_def socks(1,2))
    ultimately show ?thesis using r same socks by (intro exI [of _ s'] exI [of _ as]) auto
  next
    case False
    let ?s' = "upd_sock i (k_rx_off_update (\<lambda>_. off)) s"
    have "rx_advance E i off s = Some ?s'" using False h(1) assms(2) by (simp add: rx_advance_def)
    moreover have "rx_ok ?s' i (a # as)"
      using assms False p bufs h(1) by (auto simp: rx_ok_def upd_sock_def)
    ultimately show ?thesis
      using bufs(3) by (intro exI [of _ ?s'] exI [of _ "a # as"]) (auto simp: rx_pending_def upd_sock_def)
  qed
qed

text \<open>
  What \<^verbatim>\<open>tcp_recved\<close> must not touch: the sockets, the packet buffers \<open>A\<close> and the memory \<open>B\<close>.
\<close>

definition recved_keeps :: "('m, ('k, 'm, 'z) shim_scheme) tcp_env \<Rightarrow> addr set \<Rightarrow> addr set \<Rightarrow> bool" where
  "recved_keeps E A B \<longleftrightarrow> (\<forall>p n s. \<exists>s'. se_recved E p n s = Some s' \<and> socks s' = socks s \<and>
     (\<forall>a\<in>A. pbufs s' a = pbufs s a) \<and> (\<forall>x\<in>B. mem s' x = mem s x))"

definition cells :: "addr \<Rightarrow> nat \<Rightarrow> addr set" where
  "cells a n = {a + of_nat j |j. j < n}"

definition chain_area :: "(addr \<Rightarrow> pbuf option) \<Rightarrow> addr list \<Rightarrow> addr set" where
  "chain_area P as = {x. \<exists>a\<in>set as. \<exists>b. P a = Some b \<and> x \<in> cells (p_payload b) (unat (p_len b))}"

lemma mem_read_cong: "(\<And>x. x \<in> cells a n \<Longrightarrow> m x = m' x) \<Longrightarrow> mem_read m a n = mem_read m' a n"
  by (auto simp: cells_def mem_read_def; blast)

lemma payload_mem_cong: "(\<And>x. x \<in> chain_area P as \<Longrightarrow> m x = m' x) \<Longrightarrow> payload m P as = payload m' P as"
  by (induction as) (fastforce simp: chain_area_def pbuf_bytes_def intro: mem_read_cong split: option.splits)+

lemma chain_area_mono: "set as \<subseteq> set bs \<Longrightarrow> chain_area P as \<subseteq> chain_area P bs"
  by (auto simp: chain_area_def)

lemma chain_area_cong: "(\<And>a. a \<in> set as \<Longrightarrow> P a = Q a) \<Longrightarrow> chain_area P as = chain_area Q as"
  by (auto simp: chain_area_def)

lemma unat_u16_u64: "unat (ucast (x :: u16) :: u64) = unat x"
  using unat_u16_less [of x] by (simp add: unsigned_ucast_eq take_bit_nat_eq_self)

lemma unat_avail:
  assumes "off < (l :: u16)"
  shows "unat (ucast l - ucast off :: u64) = unat l - unat off"
proof -
  have "(ucast off :: u64) \<le> ucast l" using assms by (simp add: word_le_nat_alt word_less_nat_alt unat_u16_u64)
  then show ?thesis by (simp add: unat_sub unat_u16_u64)
qed

lemma recved_tail:
  assumes "recved_keeps E A B" "rx_ok s i as" "set as \<subseteq> A" "chain_area (pbufs s) as \<union> cells buf n \<subseteq> B"
  shows "\<exists>s'. (if k_pcb (socks s ! i) \<noteq> 0 then se_recved E (k_pcb (socks s ! i)) k s else Some s) = Some s' \<and>
    rx_ok s' i as \<and> rx_pending s' i as = rx_pending s i as \<and> mem_read (mem s') buf n = mem_read (mem s) buf n"
proof (cases "k_pcb (socks s ! i) = 0")
  case False
  obtain s' where s': "se_recved E (k_pcb (socks s ! i)) k s = Some s'" "socks s' = socks s"
      "\<forall>a\<in>A. pbufs s' a = pbufs s a" "\<forall>x\<in>B. mem s' x = mem s x"
    using assms(1) unfolding recved_keeps_def by blast
  have same: "pbufs s' a = pbufs s a" if "a \<in> set as" for a using s'(3) that assms(3) by blast
  have area: "chain_area (pbufs s') as = chain_area (pbufs s) as" using same by (rule chain_area_cong)
  have "payload (mem s') (pbufs s') as = payload (mem s) (pbufs s') as"
    by (rule payload_mem_cong) (use area s'(4) assms(4) in blast)
  also have "\<dots> = payload (mem s) (pbufs s) as" using same by (rule payload_cong)
  finally have "rx_pending s' i as = rx_pending s i as" by (simp add: rx_pending_def s'(2))
  moreover have "rx_ok s' i as" using rx_ok_cong [OF s'(2) same] assms(2) by blast
  moreover have "mem_read (mem s') buf n = mem_read (mem s) buf n" by (rule mem_read_cong) (use s'(4) assms(4) in blast)
  ultimately show ?thesis using s'(1) False by auto
qed (use assms(2) in simp)

lemma bytes_at:
  assumes "unat off + n \<le> unat (p_len b)"
  shows "mem_read m (p_payload b + ucast (off :: u16)) n @ drop (unat off + n) (pbuf_bytes m b @ xs) = drop (unat off) (pbuf_bytes m b @ xs)"
proof -
  define q where "q = unat (p_len b) - unat off - n"
  have "unat (p_len b) = unat off + (n + q)" using assms by (simp add: q_def)
  then have "pbuf_bytes m b = mem_read m (p_payload b) (unat off) @ mem_read m (p_payload b + ucast off) n @
      mem_read m (p_payload b + of_nat (unat off) + of_nat n) q"
    by (simp only: pbuf_bytes_def mem_read_add ucast_u64_of_nat)
  then show ?thesis by simp
qed

lemma bsock_read_eq:
  assumes "rx_ok s i as" "as \<noteq> []" "len \<noteq> 0" "off_block (pbufs s) as buf (unat len)"
    "recved_keeps E (set as) (chain_area (pbufs s) as \<union> cells buf (unat len))"
  shows "\<exists>r s' as'. bsock_read E i buf len s = Some (r, s') \<and> rx_ok s' i as' \<and> 0 < unat r \<and> unat r \<le> unat len \<and>
    unat r < 2 ^ 16 \<and> mem_read (mem s') buf (unat r) @ rx_pending s' i as' = rx_pending s i as"
proof -
  obtain a as2 where as: "as = a # as2" using assms(2) by (cases as) auto
  let ?k = "socks s ! i"
  obtain b where b: "pbufs s a = Some b" "k_rx_head ?k = a" "k_rx_off ?k < p_len b"
    using assms(1) by (auto simp: as rx_ok_def packet_Cons split: option.splits)
  let ?off = "k_rx_off ?k"
  define avail :: u64 where "avail = ucast (p_len b) - ucast ?off"
  define r where "r = (if len < avail then len else avail)"
  define off where "off = ?off + ucast r"
  have av: "unat avail = unat (p_len b) - unat ?off" unfolding avail_def by (rule unat_avail [OF b(3)])
  have lt: "unat ?off < unat (p_len b)" using b(3) by (simp add: word_less_nat_alt)
  have r: "0 < unat r" "unat r \<le> unat len" "unat r \<le> unat avail"
    using assms(3) av lt by (auto simp: r_def word_less_nat_alt unat_gt_0)
  have r16: "unat (ucast r :: u16) = unat r" using r(3) av unat_u16_less [of "p_len b"] by (simp add: unsigned_ucast_eq take_bit_nat_eq_self)
  have uo: "unat off = unat ?off + unat r"
    using r(3) av lt unat_u16_less [of "p_len b"] by (simp add: off_def unat_plus_small r16)
  then have ol: "off \<le> p_len b" using r(3) av lt by (simp add: word_le_nat_alt)
  define bs where "bs = mem_read (mem s) (p_payload b + ucast ?off) (unat r)"
  define s0 where "s0 = s\<lparr>mem := mem_write (mem s) buf bs\<rparr>"
  have lr: "length bs = unat r" "length bs \<le> 2 ^ 64" using unat_u64_less [of r] by (simp_all add: bs_def)
  have s0: "socks s0 = socks s" "pbufs s0 = pbufs s" "mem s0 = mem_write (mem s) buf bs" by (simp_all add: s0_def)
  have pay: "payload (mem s0) (pbufs s0) as = payload (mem s) (pbufs s) as"
    using off_block_sub [OF assms(4), of 0 "unat r"] r(2) unat_u64_less [of len] lr by (simp add: s0 payload_write_off)
  have "rx_ok s0 i as" using assms(1) rx_ok_cong [of s0 s] by (simp add: s0)
  then obtain s1 as' where s1: "rx_advance E i off s0 = Some s1" "rx_ok s1 i as'" "set as' \<subseteq> set as" "mem s1 = mem s0"
      "\<forall>x\<in>set as'. pbufs s1 x = pbufs s x" "rx_pending s1 i as' = drop (unat off) (payload (mem s) (pbufs s) as)"
    using rx_advance_eq [of s0 i a as2 b off E] b(1) ol pay by (auto simp: as s0)
  have "chain_area (pbufs s1) as' = chain_area (pbufs s) as'" using s1(5) by (intro chain_area_cong) blast
  then have "chain_area (pbufs s1) as' \<union> cells buf (unat r) \<subseteq> chain_area (pbufs s) as \<union> cells buf (unat len)"
    using chain_area_mono [OF s1(3), of "pbufs s"] r(2) by (auto simp: cells_def)
  from recved_tail [OF assms(5) s1(2,3) this, of "ucast r"] obtain s' where s':
      "(if k_pcb (socks s1 ! i) \<noteq> 0 then se_recved E (k_pcb (socks s1 ! i)) (ucast r) s1 else Some s1) = Some s'"
      "rx_ok s' i as'" "rx_pending s' i as' = rx_pending s1 i as'" "mem_read (mem s') buf (unat r) = mem_read (mem s1) buf (unat r)"
    by blast
  have "bsock_read E i buf len s = do {
      s2 \<leftarrow> rx_advance E i off s0;
      s3 \<leftarrow> (if k_pcb (socks s2 ! i) \<noteq> 0 then se_recved E (k_pcb (socks s2 ! i)) (ucast r) s2 else Some s2);
      Some (r, s3)}"
    unfolding bsock_read_def Let_def b(1,2) off_def s0_def bs_def r_def avail_def by (simp split del: if_split)
  then have "bsock_read E i buf len s = Some (r, s')" using s1(1) s'(1) by simp
  moreover have "mem_read (mem s') buf (unat r) = bs" using s'(4) lr mem_read_write_same [OF lr(2), of "mem s" buf] by (simp add: s1(4) s0(3))
  moreover have "bs @ drop (unat off) (payload (mem s) (pbufs s) as) = rx_pending s i as"
    using bytes_at [of ?off "unat r" b "mem s" "payload (mem s) (pbufs s) as2"] r(3) av lt b(1)
    by (simp add: rx_pending_def as uo bs_def)
  ultimately show ?thesis using s'(2,3) s1(6) r av unat_u16_less [of "p_len b"] by (intro exI [of _ r] exI [of _ s'] exI [of _ as']) simp
qed


definition demo_rx :: "(nat, u64) shim" where
  "demo_rx = demo_shim\<lparr>mem := mem_write (mem_write (\<lambda>_. 0) 0x1021 [10, 20, 30]) 0x2020 [40, 50],
     pbufs := [0x1000 \<mapsto> demo_pbuf1, 0x2000 \<mapsto> demo_pbuf2],
     socks := (socks demo_shim)[3 := reset_sock\<lparr>k_state := SK_CONNECTED, k_pcb := 0x700, k_rx_head := 0x1000, k_rx_off := 1\<rparr>]\<rparr>"

lemma demo_rx_ok: "rx_ok demo_rx 3 [0x1000, 0x2000]" "rx_pending demo_rx 3 [0x1000, 0x2000] = [20, 30, 40, 50]"
proof -
  have p: "pbufs demo_rx = [0x1000 \<mapsto> demo_pbuf1, 0x2000 \<mapsto> demo_pbuf2]" "length (socks demo_rx) = 16"
      "socks demo_rx ! 3 = reset_sock\<lparr>k_state := SK_CONNECTED, k_pcb := 0x700, k_rx_head := 0x1000, k_rx_off := 1\<rparr>"
      "mem demo_rx = mem_write (mem_write (\<lambda>_. 0) 0x1021 [10, 20, 30]) 0x2020 [40, 50]"
    by (simp_all add: demo_rx_def demo_shim_def SOCK_MAX_def)
  have "packet (pbufs demo_rx) 0x1000 [0x1000, 0x2000] 5" using demo_packet by (simp add: p(1) demo_lwip_def heap.defs)
  moreover have "\<forall>a\<in>set [0x1000, 0x2000]. rx_buf (pbufs demo_rx) a"
    by (simp add: p(1) rx_buf_def freeable_def sole_ref_def demo_pbuf1_def demo_pbuf2_def LWIP_MEM_ALIGN_def pbuf_get_allocsrc_def PBUF_FLAG_IS_CUSTOM_def)
  ultimately show "rx_ok demo_rx 3 [0x1000, 0x2000]" unfolding rx_ok_def by (auto simp: p(2,3)) (simp add: p(1,3) demo_pbuf1_def)
  show "rx_pending demo_rx 3 [0x1000, 0x2000] = [20, 30, 40, 50]"
    unfolding rx_pending_def p by (simp add: demo_pbuf1_def demo_pbuf2_def pbuf_bytes_def mem_read_def upt_rec)
qed


section \<open>Receiving\<close>

text \<open>Concatenation changes only the totals and the links of the buffers.\<close>

lemma cat_loop_fields:
  assumes "pbuf_cat_loop p t s = Some s'"
  shows "\<forall>x. map_option (\<lambda>b. b\<lparr>p_tot_len := 0, p_next := 0\<rparr>) (pbufs s' x) = map_option (\<lambda>b. b\<lparr>p_tot_len := 0, p_next := 0\<rparr>) (pbufs s x)"
proof (rule pbuf_cat_loop.raw_induct [OF _ assms, where P = "\<lambda>p t s s'. \<forall>x. map_option (\<lambda>b. b\<lparr>p_tot_len := 0, p_next := 0\<rparr>) (pbufs s' x) =
    map_option (\<lambda>b. b\<lparr>p_tot_len := 0, p_next := 0\<rparr>) (pbufs s x)"], goal_cases)
  case (1 loop p t s s')
  show ?case using 1(2) by (auto simp: bind_eq_Some_conv split: if_splits dest!: 1(1))
qed

lemma rx_buf_fields:
  assumes "map_option (\<lambda>b. b\<lparr>p_tot_len := 0, p_next := 0\<rparr>) (P a) = map_option (\<lambda>b. b\<lparr>p_tot_len := 0, p_next := 0\<rparr>) (Q a)"
  shows "rx_buf P a = rx_buf Q a" "(case P a of None \<Rightarrow> False | Some b \<Rightarrow> off < p_len b) = (case Q a of None \<Rightarrow> False | Some b \<Rightarrow> off < p_len b)"
proof -
  have "p_len b = p_len c \<and> p_ref b = p_ref c \<and> p_flags b = p_flags c \<and> p_type_internal b = p_type_internal c"
    if "P a = Some b" "Q a = Some c" for b c
    using assms that by (cases b; cases c) simp
  then show "rx_buf P a = rx_buf Q a" "(case P a of None \<Rightarrow> False | Some b \<Rightarrow> off < p_len b) = (case Q a of None \<Rightarrow> False | Some b \<Rightarrow> off < p_len b)"
    using assms by (auto simp: rx_buf_def freeable_def sole_ref_def pbuf_get_allocsrc_def split: option.splits)
qed

lemma on_recv_eq:
  assumes "rx_ok s i as" "packet (pbufs s) p bs m" "bs \<noteq> []" "\<forall>b\<in>set bs. rx_buf (pbufs s) b" "set as \<inter> set bs = {}"
    "length (payload (mem s) (pbufs s) as) + m < 65536"
  shows "\<exists>s'. on_recv E i p ERR_OK s = Some (ERR_OK, s') \<and> rx_ok s' i (as @ bs) \<and>
    rx_pending s' i (as @ bs) = rx_pending s i as @ payload (mem s) (pbufs s) bs"
proof (cases "as = []")
  case True
  let ?s' = "upd_sock i (k_rx_head_update (\<lambda>_. p)) s"
  have z: "k_rx_head (socks s ! i) = 0" "k_rx_off (socks s ! i) = 0" "i < length (socks s)" "p \<noteq> 0"
    using assms(1,3) True packet_nonempty [OF assms(2)] by (auto simp: rx_ok_def packet_Nil)
  obtain b bs' where bs: "bs = b # bs'" using assms(3) by (cases bs) auto
  have "rx_ok ?s' i bs"
    using assms(2,4) z bs by (auto simp: rx_ok_def upd_sock_def rx_buf_def word_gt_0 split: option.splits)
  then show ?thesis using True z by (intro exI [of _ ?s']) (simp add: on_recv_def rx_pending_def upd_sock_def)
next
  case False
  obtain n where n: "packet (pbufs s) (k_rx_head (socks s ! i)) as n" using assms(1) by (auto simp: rx_ok_def)
  let ?h = "k_rx_head (socks s ! i)"
  have "n = length (payload (mem s) (pbufs s) as)" using n payload_length [of "pbufs s" as n] by (auto simp: packet_def)
  then have nm: "n + m < 65536" using assms(6) by simp
  obtain s' where s': "pbuf_cat_loop ?h p s = Some s'" "packet (pbufs s') ?h (as @ bs) (n + m)" "mem s' = mem s"
      "payload (mem s) (pbufs s') as = payload (mem s) (pbufs s) as" "\<forall>x. x \<notin> set as \<longrightarrow> pbufs s' x = pbufs s x"
    using cat_loop_eq [OF n False assms(2,3,5) nm] by blast
  have nz: "?h \<noteq> 0" "p \<noteq> 0" using packet_nonempty [OF n] packet_nonempty [OF assms(2)] False assms(3) by auto
  have socks: "socks s' = socks s" using socks_own.cat_loop_same [OF s'(1)] by (simp add: same_socks_def)
  note eq = cat_loop_fields [OF s'(1), THEN spec]
  have f: "rx_buf (pbufs s') x = rx_buf (pbufs s) x"
    "(case pbufs s' x of None \<Rightarrow> False | Some b \<Rightarrow> off < p_len b) = (case pbufs s x of None \<Rightarrow> False | Some b \<Rightarrow> off < p_len b)" for x off
    by (rule rx_buf_fields [OF eq])+
  have bufs: "\<forall>a\<in>set (as @ bs). rx_buf (pbufs s') a" using f(1) assms(1,4) by (auto simp: rx_ok_def)
  obtain a as' where as: "as = a # as'" using False by (cases as) auto
  have "rx_ok s' i (as @ bs)"
    unfolding rx_ok_def socks using assms(1) s'(2) bufs f(2) [where x = a] by (auto simp: rx_ok_def as)
  moreover have "payload (mem s) (pbufs s') bs = payload (mem s) (pbufs s) bs"
    using s'(5) assms(5) by (intro payload_cong) auto
  moreover have "unat (k_rx_off (socks s ! i)) \<le> length (payload (mem s) (pbufs s) as)"
    using assms(1) by (auto simp: rx_ok_def as word_less_nat_alt split: option.splits)
  ultimately show ?thesis
    using nz s'(1,3,4) by (intro exI [of _ s']) (simp add: on_recv_def pbuf_cat_def rx_pending_def socks payload_append)
qed

text \<open>
  C23.  What arrives is appended to the stream: when the stack hands a packet to the receive callback, the
  bytes pending on the socket afterwards are those pending before followed by the data of the packet,
  whether the socket had data waiting or not, and the chain of the socket stays well formed.
\<close>

theorem on_recv_appends:
  assumes "rx_ok s i as" "packet (pbufs s) p bs m" "bs \<noteq> []" "\<forall>b\<in>set bs. rx_buf (pbufs s) b" "set as \<inter> set bs = {}"
    "length (payload (mem s) (pbufs s) as) + m < 65536"
  shows "\<exists>s'. on_recv E i p ERR_OK s = Some (ERR_OK, s') \<and> rx_ok s' i (as @ bs) \<and>
    rx_pending s' i (as @ bs) = rx_pending s i as @ payload (mem s) (pbufs s) bs"
  by (rule on_recv_eq [OF assms])

text \<open>The first buffer waits on the socket, the second one arrives.\<close>

definition demo_rx1 :: "(nat, u64) shim" where
  "demo_rx1 = demo_rx\<lparr>pbufs := [0x1000 \<mapsto> demo_pbuf1\<lparr>p_next := 0, p_tot_len := 3\<rparr>, 0x2000 \<mapsto> demo_pbuf2]\<rparr>"

theorem on_recv_appends_witness:
  "\<exists>s'. on_recv demo_tcp 3 0x2000 ERR_OK demo_rx1 = Some (ERR_OK, s') \<and> rx_pending s' 3 [0x1000, 0x2000] = [20, 30, 40, 50]"
proof -
  let ?P = "[0x1000 \<mapsto> demo_pbuf1\<lparr>p_next := 0, p_tot_len := 3\<rparr>, 0x2000 \<mapsto> demo_pbuf2]"
  have p: "pbufs demo_rx1 = ?P" "socks demo_rx1 = socks demo_rx" "mem demo_rx1 = mem demo_rx" by (simp_all add: demo_rx1_def)
  have k: "length (socks demo_rx) = 16" "k_rx_head (socks demo_rx ! 3) = 0x1000" "k_rx_off (socks demo_rx ! 3) = 1"
      "mem demo_rx = mem_write (mem_write (\<lambda>_. 0) 0x1021 [10, 20, 30]) 0x2020 [40, 50]"
    by (simp_all add: demo_rx_def demo_shim_def SOCK_MAX_def)
  have buf: "rx_buf ?P 0x1000" "rx_buf ?P 0x2000"
    by (simp_all add: rx_buf_def freeable_def sole_ref_def demo_pbuf1_def demo_pbuf2_def LWIP_MEM_ALIGN_def pbuf_get_allocsrc_def PBUF_FLAG_IS_CUSTOM_def)
  have pk: "packet ?P 0x1000 [0x1000] 3" "packet ?P 0x2000 [0x2000] 2" by (simp_all add: packet_def demo_pbuf1_def demo_pbuf2_def)
  have "rx_ok demo_rx1 3 [0x1000]" unfolding rx_ok_def p k(1,2,3) using pk(1) buf(1) by (auto simp: demo_pbuf1_def)
  moreover have "length (payload (mem demo_rx1) (pbufs demo_rx1) [0x1000]) + 2 < 65536" by (simp add: p demo_pbuf1_def)
  moreover have "rx_pending demo_rx1 3 [0x1000] = [20, 30]" "payload (mem demo_rx1) (pbufs demo_rx1) [0x2000] = [40, 50]"
    unfolding rx_pending_def p k by (simp_all add: demo_pbuf1_def demo_pbuf2_def pbuf_bytes_def mem_read_def upt_rec)
  ultimately show ?thesis
    using on_recv_appends [of demo_rx1 3 "[0x1000]" "0x2000" "[0x2000]" 2 demo_tcp] pk(2) buf(2) by (auto simp: p)
qed

end
