(* ===== verification/BM_Bmfs_Codec.thy ===== *)
theory BM_Bmfs_Codec
  imports BM_Bmfs
begin

text \<open>
  The on-disk layout of the BMFS directory: every entry takes 64 bytes, the table takes one
  sector, and encoding and decoding are inverse to each other. The byte-level codec is an
  interface (locale \<open>fixed_codec\<close>); the entry codec interprets it, and the table round trip is
  proved once for any fixed-width codec.
\<close>

section \<open>Fixed-width codecs\<close>

locale fixed_codec =
  fixes enc :: "'a \<Rightarrow> u8 list"
    and dec :: "u8 list \<Rightarrow> 'a"
    and wf :: "'a \<Rightarrow> bool"
    and w :: nat
  assumes width_pos: "0 < w"
    and length_enc: "wf x \<Longrightarrow> length (enc x) = w"
    and dec_enc: "wf x \<Longrightarrow> dec (enc x) = x"
    and wf_dec: "length bs = w \<Longrightarrow> wf (dec bs)"
    and enc_dec: "length bs = w \<Longrightarrow> enc (dec bs) = bs"
begin

lemma length_concat_enc: "\<forall>x \<in> set xs. wf x \<Longrightarrow> length (concat (map enc xs)) = w * length xs"
  by (induction xs) (auto simp: length_enc)

lemma chunk_concat_enc:
  "\<forall>x \<in> set xs. wf x \<Longrightarrow> i < length xs \<Longrightarrow> take w (drop (w * i) (concat (map enc xs))) = enc (xs ! i)"
proof (induction xs arbitrary: i)
  case Nil
  then show ?case by simp
next
  case (Cons x xs)
  then show ?case
    by (cases i) (auto simp: length_enc)
qed

lemma table_dec_enc:
  assumes "\<forall>x \<in> set xs. wf x"
  shows "map (\<lambda>i. dec (take w (drop (w * i) (concat (map enc xs))))) [0..<length xs] = xs"
  using assms by (intro nth_equalityI) (auto simp: chunk_concat_enc dec_enc)

lemma table_enc_dec:
  "length bs = w * n \<Longrightarrow>
    concat (map enc (map (\<lambda>i. dec (take w (drop (w * i) bs))) [0..<n])) = bs"
proof (induction n arbitrary: bs)
  case 0
  then show ?case by simp
next
  case (Suc n)
  have hd_len: "length (take w bs) = w"
    using Suc.prems by simp
  have "map (\<lambda>i. dec (take w (drop (w * i) bs))) [0..<Suc n] =
      dec (take w bs) # map (\<lambda>i. dec (take w (drop (w * i) (drop w bs)))) [0..<n]"
    by (subst upt_rec) (simp add: map_Suc_upt [symmetric] comp_def add.commute
        del: upt_Suc map_Suc_upt)
  moreover have "concat (map enc (map (\<lambda>i. dec (take w (drop (w * i) (drop w bs)))) [0..<n])) = drop w bs"
    using Suc.prems by (intro Suc.IH) simp
  ultimately show ?case
    using enc_dec [OF hd_len] by simp
qed

lemma table_wf_dec:
  assumes "length bs = w * n" and "i < n"
  shows "wf (dec (take w (drop (w * i) bs)))"
proof (rule wf_dec)
  have "w * i + w \<le> w * n"
    using assms(2) by (metis Suc_leI mult_Suc_right mult_le_mono2 add.commute)
  then show "length (take w (drop (w * i) bs)) = w"
    using assms(1) by simp
qed

end

section \<open>Directory entries\<close>

definition dirent_wf :: "bmfs_dirent \<Rightarrow> bool" where
  "dirent_wf e \<longleftrightarrow> length (d_name e) = 32"

lemma decode_encode_dirent: "dirent_wf e \<Longrightarrow> decode_dirent (encode_dirent e) = e"
  by (simp add: decode_dirent_def encode_dirent_def dirent_wf_def)

lemma encode_decode_dirent:
  assumes "length bs = 64"
  shows "encode_dirent (decode_dirent bs) = bs"
proof -
  have le: "le_bytes 8 (of_le_bytes xs :: u64) = xs" if "length xs = 8" for xs
    using le_bytes_of_le_bytes [of xs, where ?'a = 64] that by simp
  have split: "bs = take 32 bs @ take 8 (drop 32 bs) @ take 8 (drop 40 bs) @ take 8 (drop 48 bs) @
      take 8 (drop 56 bs)"
  proof -
    have step: "drop n bs = take 8 (drop n bs) @ drop (n + 8) bs" for n
      by (metis append_take_drop_id drop_drop add.commute)
    have "bs = take 32 bs @ drop 32 bs" by simp
    moreover have "drop 32 bs = take 8 (drop 32 bs) @ drop 40 bs" using step [of 32] by simp
    moreover have "drop 40 bs = take 8 (drop 40 bs) @ drop 48 bs" using step [of 40] by simp
    moreover have "drop 48 bs = take 8 (drop 48 bs) @ drop 56 bs" using step [of 48] by simp
    moreover have "drop 56 bs = take 8 (drop 56 bs)" using assms by simp
    ultimately show ?thesis by metis
  qed
  have "encode_dirent (decode_dirent bs) = take 32 bs @ take 8 (drop 32 bs) @ take 8 (drop 40 bs) @
      take 8 (drop 48 bs) @ take 8 (drop 56 bs)"
    using assms by (simp add: encode_dirent_def decode_dirent_def le)
  then show ?thesis using split by simp
qed

interpretation dirent: fixed_codec encode_dirent decode_dirent dirent_wf 64
proof unfold_locales
  show "length (encode_dirent x) = 64" if "dirent_wf x" for x
    using that by (simp add: encode_dirent_def dirent_wf_def)
  show "dirent_wf (decode_dirent bs)" if "length bs = 64" for bs
    using that by (simp add: decode_dirent_def dirent_wf_def)
qed (simp_all add: decode_encode_dirent encode_decode_dirent)

section \<open>The directory sector\<close>

definition dir_wf :: "bmfs_dirent list \<Rightarrow> bool" where
  "dir_wf d \<longleftrightarrow> length d = BMFS_DIR_ENTRIES \<and> (\<forall>e \<in> set d. dirent_wf e)"

lemma length_encode_dir [len_simps]: "dir_wf d \<Longrightarrow> length (encode_dir d) = 4096"
  using dirent.length_concat_enc [of d]
  by (simp add: encode_dir_def dir_wf_def bmfs_consts)

lemma decode_encode_dir [codec_simps]: "dir_wf d \<Longrightarrow> decode_dir (encode_dir d) = d"
  using dirent.table_dec_enc [of d]
  by (simp add: decode_dir_def encode_dir_def dir_wf_def)

lemma encode_decode_dir [codec_simps]:
  "length bs = 4096 \<Longrightarrow> encode_dir (decode_dir bs) = bs"
  using dirent.table_enc_dec [of bs 64]
  by (simp add: decode_dir_def encode_dir_def bmfs_consts)

lemma dir_wf_decode: "length bs = 4096 \<Longrightarrow> dir_wf (decode_dir bs)"
  using dirent.table_wf_dec [of bs 64]
  by (auto simp: dir_wf_def decode_dir_def bmfs_consts)

lemma dir_wf_update [intro]: "dir_wf d \<Longrightarrow> dirent_wf e \<Longrightarrow> dir_wf (d[i := e])"
  by (auto simp: dir_wf_def dest!: set_update_subset_insert [THEN subsetD])

lemma dirent_wf_nth: "dir_wf d \<Longrightarrow> i < 64 \<Longrightarrow> dirent_wf (d ! i)"
  by (simp add: dir_wf_def bmfs_consts)

lemma dirent_wf_empty [simp]: "dirent_wf empty_dirent"
  by (simp add: dirent_wf_def empty_dirent_def)

lemma length_encode_kstat [len_simps]:
  "length (st_times t) = 6 \<Longrightarrow> length (st_unused t) = 3 \<Longrightarrow> length (encode_kstat t) = 144"
  by (simp add: encode_kstat_def length_concat comp_def sum_list_triv)

end
