(* ===== verification/BM_Bmfs_IO.thy ===== *)
theory BM_Bmfs_IO
  imports BM_Bmfs_Codec
begin

text \<open>
  The sector loops of \<^verbatim>\<open>bmfs_pread\<close> and \<^verbatim>\<open>bmfs_pwrite\<close> against a reference: the disk as one
  array of bytes. A read copies a range of that array into the caller's buffer and changes
  nothing else; a write replaces a range by the caller's bytes and changes no other byte of the
  disk.
\<close>

section \<open>The disk as an array of bytes\<close>

definition disk_at :: "('k \<Rightarrow> u64 \<Rightarrow> u8 list) \<Rightarrow> 'k \<Rightarrow> nat \<Rightarrow> u8" where
  "disk_at sec k i = sec k (of_nat (i div 4096)) ! (i mod 4096)"

definition disk_range :: "('k \<Rightarrow> u64 \<Rightarrow> u8 list) \<Rightarrow> 'k \<Rightarrow> nat \<Rightarrow> nat \<Rightarrow> u8 list" where
  "disk_range sec k a n = map (disk_at sec k) [a..<a + n]"

lemma length_disk_range [simp]: "length (disk_range sec k a n) = n"
  by (simp add: disk_range_def)

lemma disk_range_append: "disk_range sec k a (m + n) = disk_range sec k a m @ disk_range sec k (a + m) n"
  unfolding disk_range_def using upt_add_eq_append [of a "a + m" n] by (simp add: add.assoc)

lemma nth_disk_range: "i < n \<Longrightarrow> disk_range sec k a n ! i = disk_at sec k (a + i)"
  by (simp add: disk_range_def)

lemma nvs_ok_nsec: "nvs_ok K sec nsec \<Longrightarrow> nsec \<le> 2 ^ 51"
  by (simp add: nvs_ok_def)

lemma unat_div_sector: "unat ((b :: u64) div 4096) = unat b div 4096"
  by (simp add: unat_div)

lemma unat_mod_sector: "unat ((b :: u64) mod 4096) = unat b mod 4096"
  by (simp add: unat_mod)

lemma of_nat_sector: "(of_nat (unat (b :: u64) div 4096) :: u64) = b div 4096"
  by (subst unat_div_sector [symmetric]) simp

lemma div_mod_within:
  assumes "j < (c::nat)" and "c \<le> 4096 - b mod 4096"
  shows "(b + j) div 4096 = b div 4096" "(b + j) mod 4096 = b mod 4096 + j"
proof -
  have "(4096 * q + (r + j)) div 4096 = q \<and> (4096 * q + (r + j)) mod 4096 = r + j"
    if "r + j < 4096" for q r
    using that by simp
  from this [of "b mod 4096" "b div 4096"] assms
  show "(b + j) div 4096 = b div 4096" "(b + j) mod 4096 = b mod 4096 + j"
    by (simp_all add: add.assoc [symmetric] del: add.assoc)
qed

text \<open>A piece of one sector is a range of the byte array.\<close>

lemma sector_piece:
  assumes "length (sec k (b div 4096)) = 4096" and "c \<le> 4096 - unat b mod 4096"
  shows "take c (drop (unat b mod 4096) (sec k (b div 4096))) = disk_range sec k (unat b) c"
proof (rule nth_equalityI)
  show "length (take c (drop (unat b mod 4096) (sec k (b div 4096)))) = length (disk_range sec k (unat b) c)"
    using assms by simp
  fix j assume "j < length (take c (drop (unat b mod 4096) (sec k (b div 4096))))"
  then have j: "j < c" by simp
  show "take c (drop (unat b mod 4096) (sec k (b div 4096))) ! j = disk_range sec k (unat b) c ! j"
    using j assms div_mod_within [OF j assms(2)]
    by (simp add: nth_disk_range disk_at_def of_nat_sector)
qed

section \<open>The read loop\<close>

definition pread_step :: "'k kernel \<Rightarrow> addr \<Rightarrow> u64 \<Rightarrow> u64 \<Rightarrow> ('k, 'z) bmfs_scheme \<Rightarrow> ('k, 'z) bmfs_scheme" where
  "pread_step K dst base c s =
     (let (d, _, s1) = b_nvs_read K (base div 4096) 1 0 s;
          s2 = s1\<lparr>scratch := overlay (scratch s1) d\<rparr>
      in s2\<lparr>mem := mem_write (mem s2) dst (take (unat c) (drop (unat base mod 4096) (scratch s2)))\<rparr>)"

lemma pread_loop_unfold:
  "pread_loop K dst base r s =
     (if r = 0 then s
      else let c = io_chunk base r
           in pread_loop K (dst + c) (base + c) (r - c) (pread_step K dst base c s))"
  by (subst pread_loop.simps)
    (simp add: pread_step_def bmfs_consts Let_def unat_mod_sector split: prod.splits)

lemma pread_step_ok:
  assumes ok: "nvs_ok K sec nsec" and len: "length (scratch s) = 4096"
    and sect: "unat base div 4096 < nsec" and c: "unat c \<le> 4096 - unat base mod 4096"
  shows "mem (pread_step K dst base c s) = mem_write (mem s) dst (disk_range sec (kern s) (unat base) (unat c))"
    "sec (kern (pread_step K dst base c s)) = sec (kern s)"
    "length (scratch (pread_step K dst base c s)) = 4096"
    "dir (pread_step K dst base c s) = dir s"
    "dir_loaded (pread_step K dst base c s) = dir_loaded s"
    "files (pread_step K dst base c s) = files s"
    "bmfs.more (pread_step K dst base c s) = bmfs.more s"
proof -
  obtain d n s1 where rd: "b_nvs_read K (base div 4096) 1 0 s = (d, n, s1)"
    by (metis prod_cases3)
  have sect': "unat (base div 4096) < nsec" using sect by (simp add: unat_div_sector)
  note r = b_nvs_read_ok [OF ok sect' rd]
  have s1: "mem s1 = mem s" "scratch s1 = scratch s" "dir s1 = dir s" "dir_loaded s1 = dir_loaded s"
    "files s1 = files s" "bmfs.more s1 = bmfs.more s"
    by (subst r(4); simp)+
  have "take (unat c) (drop (unat base mod 4096) d) = disk_range sec (kern s) (unat base) (unat c)"
    using sector_piece [of sec "kern s" base "unat c"] r(1,2) c by simp
  then show "mem (pread_step K dst base c s) = mem_write (mem s) dst (disk_range sec (kern s) (unat base) (unat c))"
    "sec (kern (pread_step K dst base c s)) = sec (kern s)"
    "length (scratch (pread_step K dst base c s)) = 4096"
    "dir (pread_step K dst base c s) = dir s"
    "dir_loaded (pread_step K dst base c s) = dir_loaded s"
    "files (pread_step K dst base c s) = files s"
    "bmfs.more (pread_step K dst base c s) = bmfs.more s"
    using r s1 len by (simp_all add: pread_step_def rd)
qed

text \<open>The state a read leaves: buffer filled from the disk, disk and tables as they were.\<close>

definition read_post :: "('k \<Rightarrow> u64 \<Rightarrow> u8 list) \<Rightarrow> addr \<Rightarrow> u8 list \<Rightarrow> ('k, 'z) bmfs_scheme \<Rightarrow> ('k, 'z) bmfs_scheme \<Rightarrow> bool" where
  "read_post sec dst bs s s' \<longleftrightarrow> mem s' = mem_write (mem s) dst bs \<and>
     sec (kern s') = sec (kern s) \<and> length (scratch s') = 4096 \<and>
     dir s' = dir s \<and> dir_loaded s' = dir_loaded s \<and> files s' = files s \<and>
     bmfs.more s' = bmfs.more s"

lemma pread_loop_ok:
  assumes ok: "nvs_ok K sec nsec"
  shows "length (scratch s) = 4096 \<Longrightarrow> unat base + unat r \<le> nsec * 4096 \<Longrightarrow>
    read_post sec dst (disk_range sec (kern s) (unat base) (unat r)) s (pread_loop K dst base r s)"
proof (induction "unat r" arbitrary: dst base r s rule: less_induct)
  case less
  show ?case
  proof (cases "r = 0")
    case True
    then show ?thesis using less.prems
      by (simp add: pread_loop_unfold read_post_def disk_range_def)
  next
    case False
    define c where "c = io_chunk base r"
    define s1 where "s1 = pread_step K dst base c s"
    have cu: "unat c = min (4096 - unat base mod 4096) (unat r)" and cr: "c \<le> r"
      by (simp_all add: c_def io_chunk_unat io_chunk_le)
    have cpos: "0 < unat c" using False by (simp add: c_def io_chunk_pos)
    have rr: "unat (r - c) = unat r - unat c" using cr by (rule unat_minus_small)
    have lim: "nsec * 4096 \<le> 2 ^ 64" using nvs_ok_nsec [OF ok] by simp
    have rc: "unat c \<le> unat r" using cu by simp
    have base_c: "unat (base + c) = unat base + unat c \<or> r = c"
    proof (cases "unat c < unat r")
      case True
      then have "unat base + unat c < 2 ^ LENGTH(64)" using less.prems(2) lim by simp
      then show ?thesis by (simp add: unat_plus_small)
    next
      case False
      then show ?thesis using rc by (simp add: word_unat_eq_iff)
    qed
    have sect: "unat base div 4096 < nsec"
      using less.prems(2) cpos rc by (intro less_mult_imp_div_less) linarith
    note st = pread_step_ok [OF ok less.prems(1) sect, of c dst, folded s1_def]
    have cle: "unat c \<le> 4096 - unat base mod 4096" using cu by simp
    have unf: "pread_loop K dst base r s = pread_loop K (dst + c) (base + c) (r - c) s1"
      using False by (subst pread_loop_unfold) (simp add: c_def [symmetric] s1_def Let_def)
    show ?thesis
    proof (cases "r = c")
      case True
      then show ?thesis using unf st [OF cle]
        by (subst unf, subst pread_loop_unfold) (simp add: read_post_def)
    next
      case False
      with base_c have bc: "unat (base + c) = unat base + unat c" by simp
      have IH: "read_post sec (dst + c) (disk_range sec (kern s1) (unat (base + c)) (unat (r - c))) s1
          (pread_loop K (dst + c) (base + c) (r - c) s1)"
        using less.prems cpos rc rr bc st(3) [OF cle] by (intro less.hyps) auto
      have "disk_range sec (kern s) (unat base) (unat r) = disk_range sec (kern s) (unat base) (unat c) @
          disk_range sec (kern s) (unat base + unat c) (unat r - unat c)"
        using disk_range_append [of sec "kern s" "unat base" "unat c" "unat r - unat c"] rc by simp
      moreover have "disk_range sec (kern s1) = disk_range sec (kern s)"
        using st(2) [OF cle] by (simp add: disk_range_def disk_at_def fun_eq_iff)
      ultimately show ?thesis
        using IH st [OF cle] unf bc rr
        by (simp add: read_post_def mem_write_append)
    qed
  qed
qed

section \<open>The write loop\<close>

definition pwrite_step :: "'k kernel \<Rightarrow> addr \<Rightarrow> u64 \<Rightarrow> u64 \<Rightarrow> ('k, 'z) bmfs_scheme \<Rightarrow> ('k, 'z) bmfs_scheme" where
  "pwrite_step K src base c s =
     (let s1 = (if c < 4096
                then let (d, _, s') = b_nvs_read K (base div 4096) 1 0 s
                     in s'\<lparr>scratch := overlay (scratch s') d\<rparr>
                else s);
          s2 = s1\<lparr>scratch := take (unat base mod 4096) (scratch s1) @ mem_read (mem s1) src (unat c) @
                     drop (unat base mod 4096 + unat c) (scratch s1)\<rparr>
      in snd (b_nvs_write K (scratch s2) (base div 4096) 1 0 s2))"

lemma pwrite_loop_unfold:
  "pwrite_loop K src base r s =
     (if r = 0 then s
      else let c = io_chunk base r
           in pwrite_loop K (src + c) (base + c) (r - c) (pwrite_step K src base c s))"
  by (subst pwrite_loop.simps)
    (simp add: pwrite_step_def bmfs_consts Let_def unat_mod_sector)

text \<open>The content a sector has after one turn of the loop.\<close>

lemma pwrite_step_ok:
  assumes ok: "nvs_ok K sec nsec" and len: "length (scratch s) = 4096"
    and sect: "unat base div 4096 < nsec" and c: "unat c \<le> 4096 - unat base mod 4096"
  defines "o' \<equiv> unat base mod 4096"
  shows "sec (kern (pwrite_step K src base c s)) = (sec (kern s))(base div 4096 :=
      take o' (sec (kern s) (base div 4096)) @ mem_read (mem s) src (unat c) @
      drop (o' + unat c) (sec (kern s) (base div 4096)))"
    "mem (pwrite_step K src base c s) = mem s"
    "length (scratch (pwrite_step K src base c s)) = 4096"
    "dir (pwrite_step K src base c s) = dir s"
    "dir_loaded (pwrite_step K src base c s) = dir_loaded s"
    "files (pwrite_step K src base c s) = files s"
    "bmfs.more (pwrite_step K src base c s) = bmfs.more s"
proof -
  have sect': "unat (base div 4096) < nsec" using sect by (simp add: unat_div_sector)
  define s1 where "s1 = (if c < 4096
      then let (d, _, s') = b_nvs_read K (base div 4096) 1 0 s
           in s'\<lparr>scratch := overlay (scratch s') d\<rparr> else s)"
  obtain d n s' where rd: "b_nvs_read K (base div 4096) 1 0 s = (d, n, s')"
    by (metis prod_cases3)
  note r = b_nvs_read_ok [OF ok sect' rd]
  have s': "mem s' = mem s" "scratch s' = scratch s" "dir s' = dir s" "dir_loaded s' = dir_loaded s"
    "files s' = files s" "bmfs.more s' = bmfs.more s"
    by (subst r(4); simp)+
  have s1: "mem s1 = mem s" "length (scratch s1) = 4096" "dir s1 = dir s" "dir_loaded s1 = dir_loaded s"
    "files s1 = files s" "bmfs.more s1 = bmfs.more s" "sec (kern s1) = sec (kern s)"
    using r s' len by (auto simp: s1_def rd)
  have full: "o' = 0 \<and> unat c = 4096" if "\<not> c < 4096"
    using that c by (simp add: word_less_nat_alt o'_def) linarith
  have pre: "take o' (scratch s1) = take o' (sec (kern s) (base div 4096)) \<and>
      drop (o' + unat c) (scratch s1) = drop (o' + unat c) (sec (kern s) (base div 4096))"
  proof (cases "c < 4096")
    case True
    then have "scratch s1 = d" using r s' len by (simp add: s1_def rd)
    then show ?thesis using r by simp
  next
    case False
    then show ?thesis using full s1(2) nvs_ok_length [OF ok sect'] by simp
  qed
  define buf where "buf = take o' (scratch s1) @ mem_read (mem s) src (unat c) @ drop (o' + unat c) (scratch s1)"
  define s2 where "s2 = s1\<lparr>scratch := buf\<rparr>"
  have buf: "length buf = 4096"
    using s1(2) c unfolding buf_def o'_def by simp
  obtain w s3 where wr: "b_nvs_write K buf (base div 4096) 1 0 s2 = (w, s3)"
    by (metis prod.exhaust)
  note wk = b_nvs_write_ok [OF ok sect' buf wr]
  have s3: "mem s3 = mem s2" "scratch s3 = scratch s2" "dir s3 = dir s2" "dir_loaded s3 = dir_loaded s2"
    "files s3 = files s2" "bmfs.more s3 = bmfs.more s2"
    by (subst wk(2); simp)+
  have eq: "pwrite_step K src base c s = s3"
    unfolding pwrite_step_def s1_def [symmetric]
    using wr s1(1) by (simp add: Let_def s2_def buf_def o'_def)
  show "sec (kern (pwrite_step K src base c s)) = (sec (kern s))(base div 4096 :=
      take o' (sec (kern s) (base div 4096)) @ mem_read (mem s) src (unat c) @
      drop (o' + unat c) (sec (kern s) (base div 4096)))"
    using wk(1) s1(7) pre by (simp add: eq s2_def buf_def)
  show "mem (pwrite_step K src base c s) = mem s"
    "length (scratch (pwrite_step K src base c s)) = 4096"
    "dir (pwrite_step K src base c s) = dir s"
    "dir_loaded (pwrite_step K src base c s) = dir_loaded s"
    "files (pwrite_step K src base c s) = files s"
    "bmfs.more (pwrite_step K src base c s) = bmfs.more s"
    using s3 s1 buf by (simp_all add: eq s2_def)
qed

lemma splice_nth:
  assumes "length L = n" and "o' + length M \<le> n" and "x < n"
  shows "(take o' L @ M @ drop (o' + length M) L) ! x =
    (if o' \<le> x \<and> x < o' + length M then M ! (x - o') else L ! x)"
  using assms by (auto simp: nth_append)

lemma pwrite_step_disk:
  assumes ok: "nvs_ok K sec nsec" and len: "length (scratch s) = 4096"
    and sect: "unat base div 4096 < nsec" and c: "unat c \<le> 4096 - unat base mod 4096"
    and i: "i < nsec * 4096"
  shows "disk_at sec (kern (pwrite_step K src base c s)) i =
    (if unat base \<le> i \<and> i < unat base + unat c then mem s (src + of_nat (i - unat base))
     else disk_at sec (kern s) i)"
proof -
  let ?q = "unat base div 4096" and ?o = "unat base mod 4096"
  let ?L = "sec (kern s) (base div 4096)" and ?M = "mem_read (mem s) src (unat c)"
  have b: "unat base = 4096 * ?q + ?o" and i': "i = 4096 * (i div 4096) + i mod 4096"
    by simp_all
  have "i div 4096 < nsec" using i by (simp add: less_mult_imp_div_less)
  then have "i div 4096 < 2 ^ 64" using nvs_ok_nsec [OF ok] by simp
  then have inj: "(of_nat (i div 4096) = base div 4096) = (i div 4096 = ?q)"
    by (simp add: word_unat_eq_iff unat_div_sector)
  have L: "length ?L = 4096"
    using nvs_ok_length [OF ok, of "base div 4096"] sect by (simp add: unat_div_sector)
  have post: "disk_at sec (kern (pwrite_step K src base c s)) i =
      (if i div 4096 = ?q then (take ?o ?L @ ?M @ drop (?o + unat c) ?L) ! (i mod 4096)
       else disk_at sec (kern s) i)"
    using pwrite_step_ok(1) [OF ok len sect c, of src] inj by (simp add: disk_at_def)
  show ?thesis
  proof (cases "i div 4096 = ?q")
    case True
    have cond: "(unat base \<le> i \<and> i < unat base + unat c) = (?o \<le> i mod 4096 \<and> i mod 4096 < ?o + unat c)"
      and diff: "i - unat base = i mod 4096 - ?o"
      using b i' True by linarith+
    have "(take ?o ?L @ ?M @ drop (?o + unat c) ?L) ! (i mod 4096) =
        (if ?o \<le> i mod 4096 \<and> i mod 4096 < ?o + unat c then ?M ! (i mod 4096 - ?o) else ?L ! (i mod 4096))"
      using splice_nth [of ?L 4096 ?o ?M "i mod 4096"] L c by simp
    moreover have "?L ! (i mod 4096) = disk_at sec (kern s) i"
      using True inj by (simp add: disk_at_def)
    ultimately show ?thesis
      unfolding post cond diff using True by auto
  next
    case False
    have "\<not> (unat base \<le> i \<and> i < unat base + unat c)"
    proof
      assume r: "unat base \<le> i \<and> i < unat base + unat c"
      then have "i div 4096 = ?q"
        using div_mod_within(1) [of "i - unat base" "unat c" "unat base"] c by force
      then show False using False by simp
    qed
    then show ?thesis using post False by auto
  qed
qed

text \<open>The state a write leaves: one range of the disk replaced by the bytes of the buffer.\<close>

definition write_post :: "('k \<Rightarrow> u64 \<Rightarrow> u8 list) \<Rightarrow> nat \<Rightarrow> addr \<Rightarrow> nat \<Rightarrow> nat \<Rightarrow> ('k, 'z) bmfs_scheme \<Rightarrow> ('k, 'z) bmfs_scheme \<Rightarrow> bool" where
  "write_post sec nsec src a n s s' \<longleftrightarrow>
     (\<forall>i < nsec * 4096. disk_at sec (kern s') i =
        (if a \<le> i \<and> i < a + n then mem s (src + of_nat (i - a)) else disk_at sec (kern s) i)) \<and>
     mem s' = mem s \<and> length (scratch s') = 4096 \<and>
     dir s' = dir s \<and> dir_loaded s' = dir_loaded s \<and> files s' = files s \<and>
     bmfs.more s' = bmfs.more s"

lemma pwrite_loop_ok:
  assumes ok: "nvs_ok K sec nsec"
  shows "length (scratch s) = 4096 \<Longrightarrow> unat base + unat r \<le> nsec * 4096 \<Longrightarrow>
    write_post sec nsec src (unat base) (unat r) s (pwrite_loop K src base r s)"
proof (induction "unat r" arbitrary: src base r s rule: less_induct)
  case less
  show ?case
  proof (cases "r = 0")
    case True
    then show ?thesis using less.prems
      by (auto simp: pwrite_loop_unfold write_post_def)
  next
    case False
    define c where "c = io_chunk base r"
    define s1 where "s1 = pwrite_step K src base c s"
    have cu: "unat c = min (4096 - unat base mod 4096) (unat r)" and cr: "c \<le> r"
      by (simp_all add: c_def io_chunk_unat io_chunk_le)
    have cpos: "0 < unat c" using False by (simp add: c_def io_chunk_pos)
    have rr: "unat (r - c) = unat r - unat c" using cr by (rule unat_minus_small)
    have lim: "nsec * 4096 \<le> 2 ^ 64" using nvs_ok_nsec [OF ok] by simp
    have rc: "unat c \<le> unat r" and cle: "unat c \<le> 4096 - unat base mod 4096" using cu by simp_all
    have sect: "unat base div 4096 < nsec"
      using less.prems(2) cpos rc by (intro less_mult_imp_div_less) linarith
    note st = pwrite_step_ok [OF ok less.prems(1) sect cle, of src, folded s1_def]
    note sd = pwrite_step_disk [OF ok less.prems(1) sect cle, of _ src, folded s1_def]
    have unf: "pwrite_loop K src base r s = pwrite_loop K (src + c) (base + c) (r - c) s1"
      using False by (subst pwrite_loop_unfold) (simp add: c_def [symmetric] s1_def Let_def)
    show ?thesis
    proof (cases "r = c")
      case True
      then show ?thesis using st sd
        by (subst unf, subst pwrite_loop_unfold) (simp add: write_post_def)
    next
      case False
      then have lt: "unat c < unat r" using rc by (simp add: word_unat_eq_iff)
      then have "unat base + unat c < 2 ^ LENGTH(64)" using less.prems(2) lim by simp
      then have bc: "unat (base + c) = unat base + unat c" by (simp add: unat_plus_small)
      have IH: "write_post sec nsec (src + c) (unat (base + c)) (unat (r - c)) s1
          (pwrite_loop K (src + c) (base + c) (r - c) s1)"
        using less.prems cpos rc rr bc st(3) by (intro less.hyps) auto
      have addr: "src + c + of_nat (i - (unat base + unat c)) = src + of_nat (i - unat base)"
        if "unat base + unat c \<le> i" for i
      proof -
        have "i - unat base = unat c + (i - (unat base + unat c))" using that by simp
        then show ?thesis by (simp only: of_nat_add) simp
      qed
      have "disk_at sec (kern (pwrite_loop K src base r s)) i =
          (if unat base \<le> i \<and> i < unat base + unat r then mem s (src + of_nat (i - unat base))
           else disk_at sec (kern s) i)" if "i < nsec * 4096" for i
        using IH that sd [OF that] st(2) bc rr lt addr [of i] unf
        by (auto simp: write_post_def)
      then show ?thesis using IH st unf by (simp add: write_post_def)
    qed
  qed
qed

end
