(* ===== verification/BM_Bmfs_File.thy ===== *)
theory BM_Bmfs_File
  imports BM_Bmfs_IO
begin

text \<open>
  An abstract open file: the bytes of its reserved extent, its size, position and append flag.
  \<open>bmfs_read\<close> and \<open>bmfs_write\<close> of \<^verbatim>\<open>bmfs.c\<close> refine the operations on it, return code included,
  and leave every other part of the disk and of the tables as it was.
\<close>

section \<open>The abstract file\<close>

record afile =
  a_ext :: "u8 list"
  a_size :: nat
  a_pos :: nat
  a_append :: bool

text \<open>The content of a file is the part of its extent below its size.\<close>

definition a_data :: "afile \<Rightarrow> u8 list" where
  "a_data a = take (a_size a) (a_ext a)"

definition splice :: "'a list \<Rightarrow> nat \<Rightarrow> 'a list \<Rightarrow> 'a list" where
  "splice xs p ys = take p xs @ ys @ drop (p + length ys) xs"

definition spec_read :: "nat \<Rightarrow> afile \<Rightarrow> u8 list \<times> afile" where
  "spec_read n a = (let bs = take n (drop (a_pos a) (a_data a)) in (bs, a\<lparr>a_pos := a_pos a + length bs\<rparr>))"

text \<open>A write takes as many bytes as fit the extent; None when none does.\<close>

definition spec_write :: "u8 list \<Rightarrow> afile \<Rightarrow> (nat \<times> afile) option" where
  "spec_write bs a =
     (let p = (if a_append a then a_size a else a_pos a);
          n = min (length bs) (length (a_ext a) - p)
      in if n = 0 then None
         else Some (n, a\<lparr>a_ext := splice (a_ext a) p (take n bs),
                         a_size := max (a_size a) (p + n), a_pos := p + n\<rparr>))"

section \<open>The abstraction\<close>

definition BLOCK :: nat where
  "BLOCK = 2097152"

lemma unat_BMFS_BLOCK_BYTES: "unat BMFS_BLOCK_BYTES = BLOCK"
  by (simp add: bmfs_consts BLOCK_def)

definition f_base :: "bmfs_file \<Rightarrow> nat" where
  "f_base f = unat (f_start_block f) * BLOCK"

definition f_cap :: "bmfs_file \<Rightarrow> nat" where
  "f_cap f = unat (f_reserved_blocks f) * BLOCK"

definition abs_file :: "('k \<Rightarrow> u64 \<Rightarrow> u8 list) \<Rightarrow> ('k, 'z) bmfs_scheme \<Rightarrow> nat \<Rightarrow> afile" where
  "abs_file sec s i = (let f = files s ! i in
     \<lparr>a_ext = disk_range sec (kern s) (f_base f) (f_cap f), a_size = unat (f_size f),
      a_pos = unat (f_pos f), a_append = f_append f\<rparr>)"

text \<open>
  A slot of the table whose extent lies on the disk behind the directory block, and whose size
  does not exceed the extent.
\<close>

definition file_ok :: "nat \<Rightarrow> bmfs_file \<Rightarrow> bool" where
  "file_ok nsec f \<longleftrightarrow> 1 \<le> unat (f_start_block f) \<and> f_base f + f_cap f \<le> nsec * 4096 \<and>
     unat (f_size f) \<le> f_cap f"

definition tables_wf :: "('k, 'z) bmfs_scheme \<Rightarrow> bool" where
  "tables_wf s \<longleftrightarrow> length (files s) = BMFS_MAX_OPEN \<and> length (scratch s) = 4096"

lemma fd_index_Some_iff: "fd_index fd = Some i \<longleftrightarrow> i < 8 \<and> unat (fd - 3) = i"
  by (auto simp: fd_index_def bmfs_consts)

section \<open>Machine arithmetic of the extents\<close>

lemma file_ok_arith:
  assumes ok: "nvs_ok K sec nsec" and f: "file_ok nsec f"
  shows "unat (f_start_block f * BMFS_BLOCK_BYTES) = f_base f"
    "unat (f_reserved_blocks f * BMFS_BLOCK_BYTES) = f_cap f"
    "f_base f + f_cap f \<le> 2 ^ 63" "f_cap f < 2 ^ 63" "unat (f_size f) < 2 ^ 63"
proof -
  have lim: "nsec * 4096 \<le> 2 ^ 63" using nvs_ok_nsec [OF ok] by simp
  show sum: "f_base f + f_cap f \<le> 2 ^ 63" using f lim by (simp add: file_ok_def)
  have "BLOCK \<le> f_base f" using f by (simp add: file_ok_def f_base_def)
  then show cap: "f_cap f < 2 ^ 63" using sum by (simp add: BLOCK_def)
  then show "unat (f_size f) < 2 ^ 63" using f by (simp add: file_ok_def)
  have "unat (f_start_block f) * unat BMFS_BLOCK_BYTES < 2 ^ LENGTH(64)"
    "unat (f_reserved_blocks f) * unat BMFS_BLOCK_BYTES < 2 ^ LENGTH(64)"
    using sum cap unfolding unat_BMFS_BLOCK_BYTES f_base_def f_cap_def by simp_all
  then show "unat (f_start_block f * BMFS_BLOCK_BYTES) = f_base f"
    "unat (f_reserved_blocks f * BMFS_BLOCK_BYTES) = f_cap f"
    by (simp_all add: unat_mult_small unat_BMFS_BLOCK_BYTES f_base_def f_cap_def)
qed

lemma advance_pos:
  "unat n < 2 ^ 63 \<Longrightarrow> advance i n s = (if n = 0 then s else upd_file i (\<lambda>f. f\<lparr>f_pos := f_pos f + n\<rparr>) s)"
  by (simp add: advance_def sint_pos_iff)

lemma disk_range_drop_take:
  "p + n \<le> m \<Longrightarrow> take n (drop p (disk_range sec k a m)) = disk_range sec k (a + p) n"
  by (rule nth_equalityI) (auto simp: nth_disk_range add.assoc)

lemma upd_file_simps [simp]:
  "mem (upd_file i g s) = mem s" "kern (upd_file i g s) = kern s" "dir (upd_file i g s) = dir s"
  "dir_loaded (upd_file i g s) = dir_loaded s" "scratch (upd_file i g s) = scratch s"
  "bmfs.more (upd_file i g s) = bmfs.more s"
  "files (upd_file i g s) = (files s)[i := g (files s ! i)]"
  by (simp_all add: upd_file_def)

section \<open>Reading\<close>

lemma bmfs_pread_ok:
  assumes ok: "nvs_ok K sec nsec" and wf: "tables_wf s" and f: "file_ok nsec (files s ! i)"
    and nowrap: "unat off + unat len < 2 ^ 64"
    and res: "bmfs_pread K i buf len off s = (n, s')"
  defines "bs \<equiv> take (unat len) (drop (unat off) (a_data (abs_file sec s i)))"
  shows "unat n = length bs \<and> unat n < 2 ^ 63 \<and> read_post sec buf bs s s'"
proof -
  let ?f = "files s ! i"
  note ar = file_ok_arith [OF ok f]
  have size_le: "unat (f_size ?f) \<le> f_cap ?f" and ext: "f_base ?f + f_cap ?f \<le> nsec * 4096"
    using f by (simp_all add: file_ok_def)
  have data: "a_data (abs_file sec s i) = disk_range sec (kern s) (f_base ?f) (unat (f_size ?f))"
    using size_le disk_range_drop_take [of 0 "unat (f_size ?f)" "f_cap ?f" sec "kern s" "f_base ?f"]
    by (simp add: a_data_def abs_file_def Let_def)
  have sum: "unat (off + len) = unat off + unat len" using nowrap by (simp add: unat_plus_small)
  have scr: "length (scratch s) = 4096" using wf by (simp add: tables_wf_def)
  show ?thesis
  proof (cases "f_size ?f \<le> off")
    case True
    then have "bs = []" by (simp add: bs_def data word_le_nat_alt)
    then show ?thesis
      using res True scr by (auto simp: bmfs_pread_def Let_def read_post_def)
  next
    case False
    define len' where "len' = (if f_size ?f < off + len then f_size ?f - off else len)"
    have lt: "unat off < unat (f_size ?f)" using False by (simp add: word_le_nat_alt)
    then have "off \<le> f_size ?f" by (simp add: word_le_nat_alt)
    then have l': "unat len' = min (unat len) (unat (f_size ?f) - unat off)"
      using lt sum by (auto simp: len'_def word_less_nat_alt unat_minus_small min_def)
    have base: "unat (f_start_block ?f * BMFS_BLOCK_BYTES + off) = f_base ?f + unat off"
      using ar lt size_le by (subst unat_plus_small) auto
    have "read_post sec buf (disk_range sec (kern s) (f_base ?f + unat off) (unat len')) s
        (pread_loop K buf (f_start_block ?f * BMFS_BLOCK_BYTES + off) len' s)"
      unfolding base [symmetric] using l' lt size_le ext base scr
      by (intro pread_loop_ok [OF ok]) auto
    moreover have "bs = disk_range sec (kern s) (f_base ?f + unat off) (unat len')"
    proof -
      have "bs = take (unat len') (drop (unat off) (disk_range sec (kern s) (f_base ?f) (unat (f_size ?f))))"
        unfolding bs_def data l' by (auto simp: min_def)
      also have "\<dots> = disk_range sec (kern s) (f_base ?f + unat off) (unat len')"
        using l' lt by (intro disk_range_drop_take) simp
      finally show ?thesis .
    qed
    ultimately show ?thesis
      using res False ar(5) l' by (auto simp: bmfs_pread_def len'_def Let_def)
  qed
qed

text \<open>\<open>read\<close> on a descriptor refines \<open>spec_read\<close>.\<close>

lemma bmfs_read_refines:
  assumes ok: "nvs_ok K sec nsec" and wf: "tables_wf s" and fd: "fd_index fd = Some i"
    and f: "file_ok nsec (files s ! i)" and nowrap: "unat (f_pos (files s ! i)) + unat len < 2 ^ 64"
    and spec: "spec_read (unat len) (abs_file sec s i) = (bs, a')"
  obtains s' where "bmfs_read K fd buf len s = Some (of_nat (length bs), s')"
    "mem s' = mem_write (mem s) buf bs" "abs_file sec s' i = a'" "sec (kern s') = sec (kern s)"
    "files s' = (files s)[i := (files s ! i)\<lparr>f_pos := f_pos (files s ! i) + of_nat (length bs)\<rparr>]"
    "dir s' = dir s" "dir_loaded s' = dir_loaded s" "tables_wf s'" "bmfs.more s' = bmfs.more s"
proof -
  let ?f = "files s ! i"
  obtain n s1 where pr: "bmfs_pread K i buf len (f_pos ?f) s = (n, s1)" by (metis prod.exhaust)
  have bs: "bs = take (unat len) (drop (unat (f_pos ?f)) (a_data (abs_file sec s i)))"
    and a': "a' = (abs_file sec s i)\<lparr>a_pos := a_pos (abs_file sec s i) + length bs\<rparr>"
    using spec by (auto simp: spec_read_def abs_file_def Let_def)
  have n: "unat n = length bs" "unat n < 2 ^ 63" and post: "read_post sec buf bs s s1"
    using bmfs_pread_ok [OF ok wf f nowrap pr] bs by auto
  have nw: "n = of_nat (length bs)" by (simp flip: n(1))
  have i: "i < length (files s)" using fd wf by (simp add: fd_index_Some_iff tables_wf_def bmfs_consts)
  define s2 where "s2 = advance i n s1"
  have fs: "files s2 = (files s)[i := ?f\<lparr>f_pos := f_pos ?f + of_nat (length bs)\<rparr>]"
    using post n(2) nw i by (simp add: s2_def advance_pos read_post_def)
  have rest: "mem s2 = mem_write (mem s) buf bs" "sec (kern s2) = sec (kern s)" "dir s2 = dir s"
    "dir_loaded s2 = dir_loaded s" "length (scratch s2) = 4096" "bmfs.more s2 = bmfs.more s"
    using post n(2) by (simp_all add: s2_def advance_pos read_post_def)
  have "length bs \<le> unat len" using bs by simp
  then have pos: "unat (f_pos ?f + of_nat (length bs)) = unat (f_pos ?f) + length bs"
    using nowrap n nw by (subst unat_plus_small) auto
  have "disk_range sec (kern s2) = disk_range sec (kern s)"
    using rest(2) by (simp add: disk_range_def disk_at_def fun_eq_iff)
  then have "abs_file sec s2 i = a'"
    using fs i a' pos by (simp add: abs_file_def Let_def f_base_def f_cap_def)
  moreover have "bmfs_read K fd buf len s = Some (of_nat (length bs), s2)"
    using fd pr nw by (simp add: bmfs_read_def s2_def)
  moreover have "tables_wf s2" using wf fs rest(5) by (simp add: tables_wf_def)
  ultimately show ?thesis using that fs rest by blast
qed

section \<open>Writing\<close>

lemma bmfs_pwrite_ok:
  assumes ok: "nvs_ok K sec nsec" and wf: "tables_wf s" and f: "file_ok nsec (files s ! i)"
    and i: "i < 8" and nowrap: "unat off + unat len < 2 ^ 64"
    and res: "bmfs_pwrite K i buf len off s = (n, s')"
  defines "m \<equiv> min (unat len) (f_cap (files s ! i) - unat off)"
  shows "m = 0 \<and> n = - ENOSPC \<and> s' = s \<or>
    0 < m \<and> unat n = m \<and> m < 2 ^ 63 \<and>
    (\<exists>s1. write_post sec nsec buf (f_base (files s ! i) + unat off) m s s1 \<and>
      s' = (if unat (f_size (files s ! i)) < unat off + m
            then upd_file i (\<lambda>f. f\<lparr>f_size := off + n, f_dirty := True\<rparr>) s1 else s1))"
proof -
  let ?f = "files s ! i"
  define cap where "cap = f_reserved_blocks ?f * BMFS_BLOCK_BYTES"
  define len' where "len' = (if cap < off + len then cap - off else len)"
  define s1 where "s1 = pwrite_loop K buf (f_start_block ?f * BMFS_BLOCK_BYTES + off) len' s"
  have unf: "(n, s') = (if cap \<le> off \<or> len' = 0 then (- ENOSPC, s)
      else (len', if f_size ?f < off + len'
                  then upd_file i (\<lambda>f. f\<lparr>f_size := off + len', f_dirty := True\<rparr>) s1 else s1))"
    unfolding res [symmetric] bmfs_pwrite_def s1_def len'_def cap_def by (simp add: Let_def)
  note ar = file_ok_arith [OF ok f]
  have cap: "unat cap = f_cap ?f" using ar(2) by (simp add: cap_def)
  have ext: "f_base ?f + f_cap ?f \<le> nsec * 4096" using f by (simp add: file_ok_def)
  have sum: "unat (off + len) = unat off + unat len" using nowrap by (simp add: unat_plus_small)
  have scr: "length (scratch s) = 4096" using wf by (simp add: tables_wf_def)
  show ?thesis
  proof (cases "cap \<le> off")
    case True
    then have "m = 0" using cap by (simp add: m_def word_le_nat_alt)
    then show ?thesis using unf True by simp
  next
    case False
    have lt: "unat off < f_cap ?f" using False cap by (simp add: word_le_nat_alt)
    then have "off \<le> cap" using cap by (simp add: word_le_nat_alt)
    then have l': "unat len' = m"
      using lt sum cap by (auto simp: len'_def m_def word_less_nat_alt unat_minus_small min_def)
    show ?thesis
    proof (cases "len' = 0")
      case True
      then show ?thesis using unf l' by auto
    next
      case nz: False
      have base: "unat (f_start_block ?f * BMFS_BLOCK_BYTES + off) = f_base ?f + unat off"
        using ar lt by (subst unat_plus_small) auto
      have mle: "m \<le> f_cap ?f - unat off" by (simp add: m_def)
      have "write_post sec nsec buf (f_base ?f + unat off) m s s1"
        unfolding base [symmetric] l' [symmetric] s1_def
        using mle l' lt ext base scr by (intro pwrite_loop_ok [OF ok]) auto
      moreover have "unat (off + len') = unat off + m"
        using l' mle lt ar(4) by (subst unat_plus_small) auto
      then have "(f_size ?f < off + len') = (unat (f_size ?f) < unat off + m)"
        by (simp add: word_less_nat_alt)
      ultimately have "n = len' \<and> (\<exists>s1. write_post sec nsec buf (f_base ?f + unat off) m s s1 \<and>
        s' = (if unat (f_size ?f) < unat off + m
              then upd_file i (\<lambda>f. f\<lparr>f_size := off + n, f_dirty := True\<rparr>) s1 else s1))"
        using unf False nz by auto
      moreover have "0 < m" using nz by (simp flip: l' add: unat_gt_0)
      ultimately show ?thesis using l' mle ar(4) by auto
    qed
  qed
qed

lemma write_post_range:
  assumes "write_post sec nsec buf (b + p) m s s1" and "p + m \<le> c" and "b + c \<le> nsec * 4096"
    and "m \<le> n"
  shows "disk_range sec (kern s1) b c = splice (disk_range sec (kern s) b c) p (take m (mem_read (mem s) buf n))"
proof (rule nth_equalityI)
  show "length (disk_range sec (kern s1) b c) =
      length (splice (disk_range sec (kern s) b c) p (take m (mem_read (mem s) buf n)))"
    using assms by (simp add: splice_def)
  fix j assume "j < length (disk_range sec (kern s1) b c)"
  then have j: "j < c" by simp
  have lenM: "length (take m (mem_read (mem s) buf n)) = m" using assms(4) by simp
  have "splice (disk_range sec (kern s) b c) p (take m (mem_read (mem s) buf n)) ! j =
      (if p \<le> j \<and> j < p + m then mem s (buf + of_nat (j - p)) else disk_at sec (kern s) (b + j))"
    unfolding splice_def using splice_nth [of "disk_range sec (kern s) b c" c p "take m (mem_read (mem s) buf n)" j]
      assms j lenM by (auto simp: nth_disk_range)
  then show "disk_range sec (kern s1) b c ! j =
      splice (disk_range sec (kern s) b c) p (take m (mem_read (mem s) buf n)) ! j"
    using assms(1,3) j by (auto simp: nth_disk_range write_post_def)
qed

text \<open>
  The part of the state a write to slot \<open>i\<close> may change: the disk range \<open>[a, a + n)\<close>, the
  scratch buffer, and size, position and dirty flag of the slot.
\<close>

definition write_frame :: "('k \<Rightarrow> u64 \<Rightarrow> u8 list) \<Rightarrow> nat \<Rightarrow> nat \<Rightarrow> nat \<Rightarrow> nat \<Rightarrow> ('k, 'z) bmfs_scheme \<Rightarrow> ('k, 'z) bmfs_scheme \<Rightarrow> bool" where
  "write_frame sec nsec i a n s s' \<longleftrightarrow>
     (\<forall>x < nsec * 4096. x < a \<or> a + n \<le> x \<longrightarrow> disk_at sec (kern s') x = disk_at sec (kern s) x) \<and>
     mem s' = mem s \<and> dir s' = dir s \<and> dir_loaded s' = dir_loaded s \<and> tables_wf s' \<and>
     (\<exists>z p d. files s' = (files s)[i := (files s ! i)\<lparr>f_size := z, f_dirty := d, f_pos := p\<rparr>]) \<and>
     bmfs.more s' = bmfs.more s"

definition write_pos :: "bmfs_file \<Rightarrow> u64" where
  "write_pos f = (if f_append f then f_size f else f_pos f)"

definition write_count :: "bmfs_file \<Rightarrow> u64 \<Rightarrow> nat" where
  "write_count f len = min (unat len) (f_cap f - unat (write_pos f))"

lemma spec_write_abs_file:
  "spec_write (mem_read (mem s) buf (unat len)) (abs_file sec s i) =
     (let f = files s ! i; p = unat (write_pos f); m = write_count f len
      in if m = 0 then None
         else Some (m, (abs_file sec s i)\<lparr>
           a_ext := splice (disk_range sec (kern s) (f_base f) (f_cap f)) p (take m (mem_read (mem s) buf (unat len))),
           a_size := max (unat (f_size f)) (p + m), a_pos := p + m\<rparr>))"
  by (auto simp: spec_write_def abs_file_def Let_def write_pos_def write_count_def)

text \<open>\<open>write\<close> on a descriptor: the code and the abstract operation agree on every branch.\<close>

lemma bmfs_write_cases:
  assumes ok: "nvs_ok K sec nsec" and wf: "tables_wf s" and fd: "fd_index fd = Some i"
    and f: "file_ok nsec (files s ! i)"
    and nowrap: "unat (write_pos (files s ! i)) + unat len < 2 ^ 64"
  defines "m \<equiv> write_count (files s ! i) len" and "p \<equiv> unat (write_pos (files s ! i))"
  shows "\<exists>s'. bmfs_write K fd buf len s = Some (if m = 0 then - ENOSPC else of_nat m, s') \<and>
    write_frame sec nsec i (f_base (files s ! i) + p) m s s' \<and>
    (m \<noteq> 0 \<longrightarrow> abs_file sec s' i = (abs_file sec s i)\<lparr>
       a_ext := splice (disk_range sec (kern s) (f_base (files s ! i)) (f_cap (files s ! i))) p
                 (take m (mem_read (mem s) buf (unat len))),
       a_size := max (unat (f_size (files s ! i))) (p + m), a_pos := p + m\<rparr>) \<and>
    (m = 0 \<longrightarrow> abs_file sec s' i = (abs_file sec s i)\<lparr>a_pos := p\<rparr>)"
proof -
  let ?f = "files s ! i"
  define s0 where "s0 = (if f_append ?f then upd_file i (\<lambda>f. f\<lparr>f_pos := f_size f\<rparr>) s else s)"
  have i: "i < 8" "i < length (files s)" using fd wf by (simp_all add: fd_index_Some_iff tables_wf_def bmfs_consts)
  have f0: "files s0 ! i = ?f\<lparr>f_pos := write_pos ?f\<rparr>" using i by (simp add: s0_def write_pos_def)
  have fs0: "files s0 = (files s)[i := ?f\<lparr>f_pos := write_pos ?f\<rparr>]"
    using i by (simp add: s0_def write_pos_def)
  have s0: "mem s0 = mem s" "kern s0 = kern s" "dir s0 = dir s" "dir_loaded s0 = dir_loaded s"
    "bmfs.more s0 = bmfs.more s" by (simp_all add: s0_def)
  have wf0: "tables_wf s0" using wf by (simp add: s0_def tables_wf_def)
  have ok0: "file_ok nsec (files s0 ! i)" using f f0 by (simp add: file_ok_def f_base_def f_cap_def)
  have geo: "f_base (files s0 ! i) = f_base ?f" "f_cap (files s0 ! i) = f_cap ?f"
    using f0 by (simp_all add: f_base_def f_cap_def)
  obtain n s1 where pw: "bmfs_pwrite K i buf len (write_pos ?f) s0 = (n, s1)" by (metis prod.exhaust)
  have res: "bmfs_write K fd buf len s = Some (n, advance i n s1)"
    using fd pw f0 by (simp add: bmfs_write_def s0_def [symmetric] Let_def)
  note alt = bmfs_pwrite_ok [OF ok wf0 ok0 i(1) nowrap pw, unfolded geo]
  have m_eq: "min (unat len) (f_cap ?f - unat (write_pos ?f)) = m" by (simp add: m_def write_count_def)
  show ?thesis
  proof (cases "m = 0")
    case True
    then have "n = - ENOSPC" and s1: "s1 = s0" using alt m_eq by auto
    moreover have "advance i (- ENOSPC) s0 = s0" by (simp add: advance_def)
    moreover have "write_frame sec nsec i (f_base ?f + p) m s s0"
    proof -
      have "?f\<lparr>f_pos := write_pos ?f\<rparr> = ?f\<lparr>f_size := f_size ?f, f_dirty := f_dirty ?f, f_pos := write_pos ?f\<rparr>"
        by simp
      then show ?thesis unfolding write_frame_def fs0 using s0 wf0 by metis
    qed
    ultimately show ?thesis using res True i fs0
      by (simp add: abs_file_def Let_def p_def s0 f_base_def f_cap_def)
  next
    case False
    then obtain s1' where n: "unat n = m" "m < 2 ^ 63"
      and post: "write_post sec nsec buf (f_base ?f + p) m s0 s1'"
      and s1: "s1 = (if unat (f_size ?f) < p + m
            then upd_file i (\<lambda>f. f\<lparr>f_size := write_pos ?f + n, f_dirty := True\<rparr>) s1' else s1')"
      using alt m_eq f0 by (auto simp: p_def)
    have nw: "n = of_nat m" by (simp flip: n(1))
    have pm: "p + m \<le> f_cap ?f"
      using False unfolding m_def p_def write_count_def by linarith
    have ext: "f_base ?f + f_cap ?f \<le> nsec * 4096" using f by (simp add: file_ok_def)
    have capb: "f_cap ?f < 2 ^ 63" using file_ok_arith [OF ok f] by simp
    have sum: "unat (write_pos ?f + n) = p + m"
      using pm capb n by (subst unat_plus_small) (simp_all add: p_def)
    define s2 where "s2 = advance i n s1"
    have adv: "s2 = upd_file i (\<lambda>f. f\<lparr>f_pos := f_pos f + n\<rparr>) s1"
      using n False by (auto simp: s2_def advance_pos)
    have fs1: "files s1' = files s0" using post by (simp add: write_post_def)
    have fs2: "files s2 = (files s)[i := ?f\<lparr>f_size := (if unat (f_size ?f) < p + m then write_pos ?f + n else f_size ?f),
        f_dirty := (if unat (f_size ?f) < p + m then True else f_dirty ?f), f_pos := write_pos ?f + n\<rparr>]"
      using adv s1 fs1 fs0 i by simp
    have k2: "kern s2 = kern s1'" "mem s2 = mem s" "dir s2 = dir s" "dir_loaded s2 = dir_loaded s"
      "length (scratch s2) = 4096" "bmfs.more s2 = bmfs.more s"
      using adv s1 post s0 by (simp_all add: write_post_def)
    have rng: "disk_range sec (kern s2) (f_base ?f) (f_cap ?f) =
        splice (disk_range sec (kern s) (f_base ?f) (f_cap ?f)) p (take m (mem_read (mem s) buf (unat len)))"
      using write_post_range [OF post pm ext, of "unat len"] k2 s0 by (simp add: m_def write_count_def)
    have ex: "\<exists>z p d. files s2 = (files s)[i := ?f\<lparr>f_size := z, f_dirty := d, f_pos := p\<rparr>]"
      using fs2 by blast
    have "tables_wf s2" using wf fs2 k2(5) by (simp add: tables_wf_def)
    then have "write_frame sec nsec i (f_base ?f + p) m s s2"
      unfolding write_frame_def using k2 post s0 ex by (auto simp: write_post_def)
    moreover have "abs_file sec s2 i = (abs_file sec s i)\<lparr>
       a_ext := splice (disk_range sec (kern s) (f_base ?f) (f_cap ?f)) p (take m (mem_read (mem s) buf (unat len))),
       a_size := max (unat (f_size ?f)) (p + m), a_pos := p + m\<rparr>"
      using fs2 i sum rng by (auto simp: abs_file_def Let_def f_base_def f_cap_def max_def)
    ultimately show ?thesis using res False nw s2_def by auto
  qed
qed

end
