(* ===== verification/BM_Bmfs_Dir.thy ===== *)
theory BM_Bmfs_Dir
  imports BM_Bmfs_File
begin

text \<open>
  The directory of BMFS: names are unique, extents are disjoint and lie on the disk, and the
  copy in memory agrees with the sector on disk at every API boundary. This theory proves the
  behaviour of \<open>open\<close>, \<open>close\<close> and \<open>unlink\<close> on each branch.
\<close>

section \<open>Names\<close>

definition fname :: "bmfs_dirent \<Rightarrow> u8 list" where
  "fname e = cstr (\<lambda>i. d_name e ! i) 32"

definition path_name :: "memory \<Rightarrow> addr \<Rightarrow> u8 list" where
  "path_name m path = cstr (at m (bmfs_name m path)) 32"

text \<open>The names \<open>open\<close> accepts: 1 to 31 bytes, no slash.\<close>

definition valid_name :: "u8 list \<Rightarrow> bool" where
  "valid_name nm \<longleftrightarrow> nm \<noteq> [] \<and> length nm < 32 \<and> 0x2F \<notin> set nm"

lemma open_guard_iff:
  "(strnlen (at m (bmfs_name m path)) 32 = 0 \<or> strnlen (at m (bmfs_name m path)) 32 \<ge> 32 \<or>
    strchr 32 (at m (bmfs_name m path)) 0x2F \<noteq> Some None) \<longleftrightarrow> \<not> valid_name (path_name m path)"
proof (cases "length (path_name m path) < 32")
  case True
  then have "strchr 32 (at m (bmfs_name m path)) 0x2F = Some (first_idx (\<lambda>b. b = 0x2F) (path_name m path))"
    unfolding path_name_def by (intro strchr_terminated) auto
  then show ?thesis using True
    by (auto simp: strnlen_cstr path_name_def [symmetric] valid_name_def first_idx_None_iff)
next
  case False
  then show ?thesis by (simp add: strnlen_cstr path_name_def [symmetric] valid_name_def)
qed

lemma dir_find_eq:
  "dir_find d (at m (bmfs_name m path)) = first_idx (\<lambda>e. d_live e \<and> fname e = path_name m path) d"
  by (simp add: dir_find_def strncmp_0_iff fname_def path_name_def)

lemma dir_find_free_slot_eq: "dir_find_free_slot d = first_idx (\<lambda>e. \<not> d_live e) d"
  by (simp add: dir_find_free_slot_def d_live_def)

lemma d_live_empty [simp]: "\<not> d_live empty_dirent"
  by (simp add: d_live_def empty_dirent_def)

section \<open>Well-formed directories\<close>

definition d_end :: "bmfs_dirent \<Rightarrow> nat" where
  "d_end e = unat (d_start_block e) + unat (d_reserved_blocks e)"

definition extent_ok :: "nat \<Rightarrow> bmfs_dirent \<Rightarrow> bool" where
  "extent_ok nblk e \<longleftrightarrow> 1 \<le> unat (d_start_block e) \<and> d_end e \<le> nblk \<and>
     unat (d_size e) \<le> unat (d_reserved_blocks e) * BLOCK"

definition apart :: "bmfs_dirent \<Rightarrow> bmfs_dirent \<Rightarrow> bool" where
  "apart e e' \<longleftrightarrow> fname e \<noteq> fname e' \<and>
     (d_end e \<le> unat (d_start_block e') \<or> d_end e' \<le> unat (d_start_block e))"

lemma apart_sym: "apart e e' \<Longrightarrow> apart e' e"
  by (auto simp: apart_def)

definition dir_ok :: "nat \<Rightarrow> bmfs_dirent list \<Rightarrow> bool" where
  "dir_ok nblk d \<longleftrightarrow> dir_wf d \<and> (\<forall>i < 64. d_live (d ! i) \<longrightarrow> extent_ok nblk (d ! i)) \<and>
     (\<forall>i < 64. \<forall>j < 64. i \<noteq> j \<longrightarrow> d_live (d ! i) \<longrightarrow> d_live (d ! j) \<longrightarrow> apart (d ! i) (d ! j))"

lemma dir_ok_length: "dir_ok nblk d \<Longrightarrow> length d = 64"
  by (simp add: dir_ok_def dir_wf_def bmfs_consts)

lemma dir_ok_wf: "dir_ok nblk d \<Longrightarrow> dir_wf d"
  by (simp add: dir_ok_def)

lemma dir_ok_extent: "dir_ok nblk d \<Longrightarrow> i < 64 \<Longrightarrow> d_live (d ! i) \<Longrightarrow> extent_ok nblk (d ! i)"
  by (simp add: dir_ok_def)

lemma dir_ok_apart:
  "dir_ok nblk d \<Longrightarrow> i < 64 \<Longrightarrow> j < 64 \<Longrightarrow> i \<noteq> j \<Longrightarrow> d_live (d ! i) \<Longrightarrow> d_live (d ! j) \<Longrightarrow> apart (d ! i) (d ! j)"
  by (simp add: dir_ok_def)

text \<open>Replacing one entry: what the new entry has to satisfy.\<close>

lemma dir_ok_update:
  assumes "dir_ok nblk d" and "i < 64" and "dirent_wf e"
    and "d_live e \<Longrightarrow> extent_ok nblk e"
    and "\<And>j. j < 64 \<Longrightarrow> j \<noteq> i \<Longrightarrow> d_live e \<Longrightarrow> d_live (d ! j) \<Longrightarrow> apart e (d ! j)"
  shows "dir_ok nblk (d[i := e])"
proof -
  have len: "length d = 64" using assms(1) by (rule dir_ok_length)
  show ?thesis
    unfolding dir_ok_def
  proof (intro conjI allI impI)
    show "dir_wf (d[i := e])" using assms(1,3) by (auto simp: dir_ok_def)
  next
    fix j assume "j < 64" "d_live (d[i := e] ! j)"
    then show "extent_ok nblk (d[i := e] ! j)"
      using assms(4) dir_ok_extent [OF assms(1)] len by (cases "j = i") auto
  next
    fix j k assume jk: "j < 64" "k < 64" "j \<noteq> k" "d_live (d[i := e] ! j)" "d_live (d[i := e] ! k)"
    consider "j = i" | "k = i" | "j \<noteq> i" "k \<noteq> i" by blast
    then show "apart (d[i := e] ! j) (d[i := e] ! k)"
    proof cases
      case 1
      then show ?thesis using jk assms(5) [of k] len by simp
    next
      case 2
      then show ?thesis using jk assms(5) [of j] len by (simp add: apart_sym)
    next
      case 3
      then show ?thesis using jk dir_ok_apart [OF assms(1), of j k] by simp
    qed
  qed
qed

lemma dir_ok_clear: "dir_ok nblk d \<Longrightarrow> i < 64 \<Longrightarrow> dir_ok nblk (d[i := empty_dirent])"
  by (rule dir_ok_update) auto

text \<open>A live entry may have its size set to anything within its extent.\<close>

lemma dir_ok_set_size:
  assumes "dir_ok nblk d" and "i < 64" and "d_live (d ! i) \<Longrightarrow> unat z \<le> unat (d_reserved_blocks (d ! i)) * BLOCK"
  shows "dir_ok nblk (d[i := (d ! i)\<lparr>d_size := z\<rparr>])"
proof (rule dir_ok_update [OF assms(1,2)])
  show "dirent_wf ((d ! i)\<lparr>d_size := z\<rparr>)"
    using dirent_wf_nth [OF dir_ok_wf [OF assms(1)] assms(2)] by (simp add: dirent_wf_def)
  assume l: "d_live ((d ! i)\<lparr>d_size := z\<rparr>)"
  then have l': "d_live (d ! i)" by (simp add: d_live_def)
  then show "extent_ok nblk ((d ! i)\<lparr>d_size := z\<rparr>)"
    using dir_ok_extent [OF assms(1,2)] assms(3) by (simp add: extent_ok_def d_end_def)
  fix j assume "j < 64" "j \<noteq> i" "d_live (d ! j)"
  then show "apart ((d ! i)\<lparr>d_size := z\<rparr>) (d ! j)"
    using dir_ok_apart [OF assms(1,2), of j] l' by (simp add: apart_def fname_def d_end_def)
qed

section \<open>The block allocator\<close>

lemma next_free_loop_ok:
  assumes "nblk < 2 ^ 64"
  shows "\<forall>e \<in> set es. d_live e \<longrightarrow> d_end e \<le> nblk \<Longrightarrow> unat nxt \<le> nblk \<Longrightarrow>
    unat nxt \<le> unat (next_free_loop es nxt) \<and> unat (next_free_loop es nxt) \<le> nblk \<and>
    (\<forall>e \<in> set es. d_live e \<longrightarrow> d_end e \<le> unat (next_free_loop es nxt))"
proof (induction es arbitrary: nxt)
  case Nil
  then show ?case by simp
next
  case (Cons e es)
  show ?case
  proof (cases "d_live e")
    case False
    then show ?thesis using Cons by (simp add: d_live_def)
  next
    case True
    let ?fin = "d_start_block e + d_reserved_blocks e"
    define nxt' where "nxt' = (if nxt < ?fin then ?fin else nxt)"
    have "d_end e \<le> nblk" using Cons.prems True by simp
    then have "unat ?fin = d_end e"
      using assms by (subst unat_plus_small) (auto simp: d_end_def)
    then have n: "unat nxt' = max (unat nxt) (d_end e)"
      by (simp add: nxt'_def word_less_nat_alt max_def)
    have "unat nxt' \<le> nblk" using n Cons.prems(2) \<open>d_end e \<le> nblk\<close> by simp
    then have "unat nxt' \<le> unat (next_free_loop es nxt') \<and> unat (next_free_loop es nxt') \<le> nblk \<and>
        (\<forall>e \<in> set es. d_live e \<longrightarrow> d_end e \<le> unat (next_free_loop es nxt'))"
      using Cons.prems(1) by (intro Cons.IH) auto
    moreover have "next_free_loop (e # es) nxt = next_free_loop es nxt'"
      using True by (simp add: nxt'_def d_live_def Let_def)
    ultimately show ?thesis using n by auto
  qed
qed

lemma dir_next_free_block_ok:
  assumes "\<forall>e \<in> set d. d_live e \<longrightarrow> d_end e \<le> nblk" and "1 \<le> nblk" and "nblk < 2 ^ 64"
  shows "1 \<le> unat (dir_next_free_block d)" "unat (dir_next_free_block d) \<le> nblk"
    "e \<in> set d \<Longrightarrow> d_live e \<Longrightarrow> d_end e \<le> unat (dir_next_free_block d)"
  using next_free_loop_ok [OF assms(3,1), of BMFS_FIRST_DATA_BLOCK] assms(2)
  by (auto simp: dir_next_free_block_def bmfs_consts)

text \<open>The half-filled new entry has the end 0 and does not move the allocator.\<close>

lemma next_free_loop_zero:
  "d_start_block e = 0 \<Longrightarrow> d_reserved_blocks e = 0 \<Longrightarrow> \<not> d_live (es ! i) \<Longrightarrow> i < length es \<Longrightarrow>
    next_free_loop (es[i := e]) nxt = next_free_loop es nxt"
proof (induction es arbitrary: i nxt)
  case Nil
  then show ?case by simp
next
  case (Cons x es)
  then show ?case by (cases i) (auto simp: d_live_def)
qed

section \<open>Loading and flushing\<close>

definition cur_dir :: "('k \<Rightarrow> u64 \<Rightarrow> u8 list) \<Rightarrow> ('k, 'z) bmfs_scheme \<Rightarrow> bmfs_dirent list" where
  "cur_dir sec s = (if dir_loaded s then dir s else decode_dir (sec (kern s) 1))"

lemma dir_load_ok:
  assumes ok: "nvs_ok K sec nsec" and n: "1 < nsec" and wf: "dir_wf (dir s)"
  shows "dir (dir_load K s) = cur_dir sec s" "dir_loaded (dir_load K s)"
    "sec (kern (dir_load K s)) = sec (kern s)" "mem (dir_load K s) = mem s"
    "files (dir_load K s) = files s" "scratch (dir_load K s) = scratch s"
    "bmfs.more (dir_load K s) = bmfs.more s"
proof -
  obtain d r s1 where rd: "b_nvs_read K 1 1 0 s = (d, r, s1)" by (metis prod_cases3)
  have "unat (1 :: u64) < nsec" using n by simp
  note q = b_nvs_read_ok [OF ok this rd]
  have s1: "mem s1 = mem s" "scratch s1 = scratch s" "dir s1 = dir s" "files s1 = files s"
    "bmfs.more s1 = bmfs.more s"
    by (subst q(4); simp)+
  have "overlay (encode_dir (dir s1)) d = d"
    using q(2) wf s1 by (simp add: length_encode_dir)
  then show "dir (dir_load K s) = cur_dir sec s" "dir_loaded (dir_load K s)"
    "sec (kern (dir_load K s)) = sec (kern s)" "mem (dir_load K s) = mem s"
    "files (dir_load K s) = files s" "scratch (dir_load K s) = scratch s"
    "bmfs.more (dir_load K s) = bmfs.more s"
    using q s1 by (auto simp: dir_load_def bmfs_consts rd cur_dir_def)
qed

lemma dir_flush_ok:
  assumes ok: "nvs_ok K sec nsec" and n: "1 < nsec" and wf: "dir_wf (dir s)"
  shows "sec (kern (dir_flush K s)) = (sec (kern s))(1 := encode_dir (dir s))"
    "dir (dir_flush K s) = dir s" "dir_loaded (dir_flush K s) = dir_loaded s"
    "mem (dir_flush K s) = mem s" "files (dir_flush K s) = files s"
    "scratch (dir_flush K s) = scratch s" "bmfs.more (dir_flush K s) = bmfs.more s"
proof -
  obtain r s1 where w: "b_nvs_write K (encode_dir (dir s)) 1 1 0 s = (r, s1)" by (metis prod.exhaust)
  have "unat (1 :: u64) < nsec" using n by simp
  note q = b_nvs_write_ok [OF ok this length_encode_dir [OF wf] w]
  have s1: "mem s1 = mem s" "scratch s1 = scratch s" "dir s1 = dir s" "files s1 = files s"
    "dir_loaded s1 = dir_loaded s" "bmfs.more s1 = bmfs.more s"
    by (subst q(2); simp)+
  have "dir_flush K s = s1" by (simp add: dir_flush_def bmfs_consts w)
  then show "sec (kern (dir_flush K s)) = (sec (kern s))(1 := encode_dir (dir s))"
    "dir (dir_flush K s) = dir s" "dir_loaded (dir_flush K s) = dir_loaded s"
    "mem (dir_flush K s) = mem s" "files (dir_flush K s) = files s"
    "scratch (dir_flush K s) = scratch s" "bmfs.more (dir_flush K s) = bmfs.more s"
    using q(1) s1 by simp_all
qed

end
