(* ===== verification/BM_Bmfs_Inv.thy ===== *)
theory BM_Bmfs_Inv
  imports BM_Bmfs_Dir
begin

text \<open>
  The invariant of BMFS, its preservation by every API operation, and the operations as a step
  relation with the states reachable from a well-formed disk.
\<close>

section \<open>The invariant\<close>

text \<open>An open file refers to a live directory entry with the same extent.\<close>

definition fd_live :: "bmfs_dirent list \<Rightarrow> bmfs_file \<Rightarrow> bool" where
  "fd_live d f \<longleftrightarrow> f_dir_index f < 64 \<and> d_live (d ! f_dir_index f) \<and>
     d_start_block (d ! f_dir_index f) = f_start_block f \<and>
     d_reserved_blocks (d ! f_dir_index f) = f_reserved_blocks f"

definition slot_ok :: "bmfs_dirent list \<Rightarrow> bmfs_file \<Rightarrow> bool" where
  "slot_ok d f \<longleftrightarrow> fd_live d f \<and> unat (f_size f) \<le> f_cap f \<and> unat (f_pos f) < 2 ^ 63"

definition bmfs_inv :: "('k \<Rightarrow> u64 \<Rightarrow> u8 list) \<Rightarrow> nat \<Rightarrow> ('k, 'z) bmfs_scheme \<Rightarrow> bool" where
  "bmfs_inv sec nblk s \<longleftrightarrow> tables_wf s \<and> dir_wf (dir s) \<and> dir_ok nblk (cur_dir sec s) \<and>
     (dir_loaded s \<longrightarrow> sec (kern s) 1 = encode_dir (dir s)) \<and>
     (\<forall>i < 8. f_used (files s ! i) \<longrightarrow> dir_loaded s \<and> slot_ok (dir s) (files s ! i))"

text \<open>A disk of \<open>nblk\<close> blocks of 2 MiB, the directory block included.\<close>

definition bmfs_dev :: "'k kernel \<Rightarrow> ('k \<Rightarrow> u64 \<Rightarrow> u8 list) \<Rightarrow> nat \<Rightarrow> bool" where
  "bmfs_dev K sec nblk \<longleftrightarrow> nvs_ok K sec (512 * nblk) \<and> 1 \<le> nblk"

lemma bmfs_dev_nvs: "bmfs_dev K sec nblk \<Longrightarrow> nvs_ok K sec (512 * nblk)"
  by (simp add: bmfs_dev_def)

lemma bmfs_dev_gt1: "bmfs_dev K sec nblk \<Longrightarrow> 1 < 512 * nblk"
  by (simp add: bmfs_dev_def)

lemma bmfs_dev_bound: "bmfs_dev K sec nblk \<Longrightarrow> nblk \<le> 2 ^ 42"
  using nvs_ok_nsec [of K sec "512 * nblk"] by (simp add: bmfs_dev_def)

lemma slot_file_ok:
  assumes "dir_ok nblk d" and "slot_ok d f"
  shows "file_ok (512 * nblk) f"
proof -
  let ?e = "d ! f_dir_index f"
  have "extent_ok nblk ?e"
    using assms dir_ok_extent by (auto simp: slot_ok_def fd_live_def)
  then have e: "1 \<le> unat (f_start_block f)" "unat (f_start_block f) + unat (f_reserved_blocks f) \<le> nblk"
    using assms(2) by (auto simp: extent_ok_def d_end_def slot_ok_def fd_live_def)
  have "f_base f + f_cap f = (unat (f_start_block f) + unat (f_reserved_blocks f)) * BLOCK"
    by (simp add: f_base_def f_cap_def algebra_simps)
  also have "\<dots> \<le> nblk * BLOCK" using e(2) by (rule mult_le_mono1)
  also have "\<dots> = 512 * nblk * 4096" by (simp add: BLOCK_def)
  finally show ?thesis using e assms(2) by (simp add: file_ok_def slot_ok_def)
qed

lemma inv_file_ok:
  "bmfs_inv sec nblk s \<Longrightarrow> i < 8 \<Longrightarrow> f_used (files s ! i) \<Longrightarrow> file_ok (512 * nblk) (files s ! i)"
  by (auto simp: bmfs_inv_def cur_dir_def intro: slot_file_ok)

lemma inv_tables_wf: "bmfs_inv sec nblk s \<Longrightarrow> tables_wf s"
  by (simp add: bmfs_inv_def)

lemma tables_wf_files: "tables_wf s \<Longrightarrow> length (files s) = 8"
  by (simp add: tables_wf_def bmfs_consts)

lemma inv_slot: "bmfs_inv sec nblk s \<Longrightarrow> i < 8 \<Longrightarrow> f_used (files s ! i) \<Longrightarrow> dir_loaded s \<and> slot_ok (dir s) (files s ! i)"
  by (simp add: bmfs_inv_def)

section \<open>Descriptors\<close>

lemma bmfs_is_fdE:
  assumes "bmfs_is_fd fd s"
  obtains i where "i < 8" "fd_index fd = Some i" "f_used (files s ! i)" "fd = 3 + of_nat i"
proof -
  have b: "3 \<le> sint fd" "sint fd < 11" and u: "f_used (files s ! unat (fd - 3))"
    using assms by (auto simp: bmfs_is_fd_def bmfs_consts)
  then have sf: "sint fd = int (unat fd)" by (intro sint_nonneg_unat) simp
  have ub: "3 \<le> unat fd" "unat fd < 11" using b unfolding sf by linarith+
  then have "(3 :: u64) \<le> fd" by (simp add: word_le_nat_alt)
  then have d: "unat (fd - 3) = unat fd - 3" using unat_minus_small [of 3 fd] by simp
  then have i: "unat (fd - 3) < 8" using ub by linarith
  have "fd = 3 + of_nat (unat (fd - 3))" by simp
  then show ?thesis using that [of "unat (fd - 3)"] i u by (simp add: fd_index_Some_iff)
qed

lemma bmfs_is_fd_slot:
  assumes "i < 8"
  shows "bmfs_is_fd (3 + of_nat i) s \<longleftrightarrow> f_used (files s ! i)" "fd_index (3 + of_nat i) = Some i"
proof -
  have u: "unat (of_nat i :: u64) = i" using assms by simp
  have v: "unat (3 + of_nat i :: u64) = 3 + i" using assms by (subst unat_plus_small) simp_all
  then have "sint (3 + of_nat i :: u64) = 3 + int i" using assms by (subst sint_small) simp_all
  then show "bmfs_is_fd (3 + of_nat i) s \<longleftrightarrow> f_used (files s ! i)"
    using assms u by (simp add: bmfs_is_fd_def bmfs_consts)
  show "fd_index (3 + of_nat i) = Some i" using assms u by (simp add: fd_index_Some_iff)
qed

section \<open>Loading and flushing keep the invariant\<close>

lemma inv_dir_load:
  assumes dev: "bmfs_dev K sec nblk" and inv: "bmfs_inv sec nblk s"
  shows "bmfs_inv sec nblk (dir_load K s)" "cur_dir sec (dir_load K s) = cur_dir sec s"
    "dir (dir_load K s) = cur_dir sec s" "dir_loaded (dir_load K s)"
    "sec (kern (dir_load K s)) = sec (kern s)" "mem (dir_load K s) = mem s"
    "files (dir_load K s) = files s"
proof -
  have wf: "dir_wf (dir s)" using inv by (simp add: bmfs_inv_def)
  note l = dir_load_ok [OF bmfs_dev_nvs [OF dev] bmfs_dev_gt1 [OF dev] wf]
  show cd: "cur_dir sec (dir_load K s) = cur_dir sec s" using l by (simp add: cur_dir_def)
  show "dir (dir_load K s) = cur_dir sec s" "dir_loaded (dir_load K s)"
    "sec (kern (dir_load K s)) = sec (kern s)" "mem (dir_load K s) = mem s"
    "files (dir_load K s) = files s" using l by simp_all
  have "length (sec (kern s) 1) = 4096"
    using nvs_ok_length [OF bmfs_dev_nvs [OF dev], of 1 "kern s"] bmfs_dev_gt1 [OF dev] by simp
  then have "sec (kern s) 1 = encode_dir (cur_dir sec s)"
    using inv by (auto simp: cur_dir_def bmfs_inv_def encode_decode_dir)
  then show "bmfs_inv sec nblk (dir_load K s)"
    using inv l cd by (auto simp: bmfs_inv_def tables_wf_def dir_ok_wf cur_dir_def)
qed

text \<open>Replacing the loaded directory and flushing it.\<close>

lemma inv_dir_replace:
  assumes dev: "bmfs_dev K sec nblk" and inv: "bmfs_inv sec nblk s" and ld: "dir_loaded s"
    and ok: "dir_ok nblk d" and slots: "\<And>i. i < 8 \<Longrightarrow> f_used (files s ! i) \<Longrightarrow> slot_ok d (files s ! i)"
  defines "s' \<equiv> dir_flush K (s\<lparr>dir := d\<rparr>)"
  shows "bmfs_inv sec nblk s'" "dir s' = d" "dir_loaded s'" "mem s' = mem s" "files s' = files s"
    "sec (kern s') = (sec (kern s))(1 := encode_dir d)"
proof -
  have wf: "dir_wf (dir (s\<lparr>dir := d\<rparr>))" using ok by (simp add: dir_ok_wf)
  note f = dir_flush_ok [OF bmfs_dev_nvs [OF dev] bmfs_dev_gt1 [OF dev] wf, folded s'_def]
  show "dir s' = d" "dir_loaded s'" "mem s' = mem s" "files s' = files s"
    "sec (kern s') = (sec (kern s))(1 := encode_dir d)" using f ld by simp_all
  then show "bmfs_inv sec nblk s'"
    using inv ok slots f by (auto simp: bmfs_inv_def tables_wf_def cur_dir_def dir_ok_wf)
qed

lemma inv_upd_files:
  assumes inv: "bmfs_inv sec nblk s" and "dir_loaded s"
    and "i < 8" and "f_used f \<Longrightarrow> slot_ok (dir s) f"
  shows "bmfs_inv sec nblk (s\<lparr>files := (files s)[i := f]\<rparr>)"
proof -
  have "length (files s) = 8" using inv by (intro tables_wf_files inv_tables_wf)
  then show ?thesis
    using assms by (auto simp: bmfs_inv_def tables_wf_def cur_dir_def nth_list_update)
qed

section \<open>open\<close>

definition created_entry :: "u8 list \<Rightarrow> bmfs_dirent list \<Rightarrow> bmfs_dirent" where
  "created_entry nm d = \<lparr>d_name = nm @ replicate (32 - length nm) 0,
     d_start_block = dir_next_free_block d, d_reserved_blocks = 1, d_size = 0, d_unused = 0\<rparr>"

text \<open>\<open>open\<close> over the abstract directory: names compared as strings, slots by index.\<close>

lemma bmfs_open_unfold:
  fixes path :: addr
  assumes dev: "bmfs_dev K sec nblk" and inv: "bmfs_inv sec nblk s"
  defines "d \<equiv> cur_dir sec s" and "nm \<equiv> path_name (mem s) path" and "s1 \<equiv> dir_load K s"
  shows "bmfs_open K path flags mode s =
    (if \<not> valid_name nm then (- ENOENT, s)
     else case first_idx (\<lambda>f. \<not> f_used f) (files s) of
       None \<Rightarrow> (- EMFILE, s1)
     | Some slot \<Rightarrow>
         (case first_idx (\<lambda>e. d_live e \<and> fname e = nm) d of
           None \<Rightarrow>
             if flags AND O_CREAT = 0 then (- ENOENT, s1)
             else (case first_idx (\<lambda>e. \<not> d_live e) d of
               None \<Rightarrow> (- ENOSPC, s1)
             | Some di \<Rightarrow> open_entry K flags slot di
                 (dir_flush K (s1\<lparr>dir := d[di := created_entry nm d]\<rparr>)))
         | Some di \<Rightarrow>
             if flags AND O_CREAT \<noteq> 0 \<and> flags AND O_EXCL \<noteq> 0 then (- EEXIST, s1)
             else open_entry K flags slot di s1))"
proof -
  note l = inv_dir_load [OF dev inv, folded s1_def d_def]
  let ?name = "bmfs_name (mem s) path"
  let ?len = "strnlen (at (mem s) ?name) 32"
  have nm: "mem_read (mem s) ?name (length nm) = nm" "?len = length nm"
    using cstr_take [of "at (mem s) ?name" 32]
    by (simp_all add: nm_def path_name_def strnlen_cstr map_at_upt)
  have new: "new_dirent (mem s) ?name ?len (d[di := empty_dirent\<lparr>d_name := nm @ replicate (32 - length nm) 0\<rparr>]) =
      created_entry nm d" if "first_idx (\<lambda>e. \<not> d_live e) d = Some di" for di
    using that next_free_loop_zero [of "empty_dirent\<lparr>d_name := nm @ replicate (32 - length nm) 0\<rparr>" d di]
    by (simp add: new_dirent_def created_entry_def dir_next_free_block_def nm bmfs_consts
        first_idx_Some_iff empty_dirent_def)
  show ?thesis
  proof (cases "valid_name nm")
    case False
    then have "bmfs_open K path flags mode s = (- ENOENT, s)"
      using open_guard_iff [of "mem s" path] unfolding bmfs_open_def nm_def Let_def by simp
    then show ?thesis using False by simp
  next
    case True
    then have g: "\<not> (?len = 0 \<or> ?len \<ge> 32 \<or> strchr 32 (at (mem s) ?name) 0x2F \<noteq> Some None)"
      using open_guard_iff [of "mem s" path] unfolding nm_def by simp
    show ?thesis
      unfolding bmfs_open_def Let_def if_not_P [OF g] s1_def [symmetric]
      using True l new
      by (auto simp: dir_find_eq dir_find_free_slot_eq nm nm_def [symmetric]
          split: option.splits)
  qed
qed

lemma created_entry_ok:
  assumes "valid_name nm" and "0 \<notin> set nm"
  shows "dirent_wf (created_entry nm d)" "d_live (created_entry nm d)" "fname (created_entry nm d) = nm"
proof -
  show "dirent_wf (created_entry nm d)"
    using assms by (simp add: dirent_wf_def created_entry_def valid_name_def)
  show "d_live (created_entry nm d)"
    using assms by (cases nm) (auto simp: d_live_def created_entry_def valid_name_def)
  show "fname (created_entry nm d) = nm"
    using assms cstr_nth_pad [of nm 32] by (simp add: fname_def created_entry_def valid_name_def)
qed

lemma path_name_nonzero: "0 \<notin> set (path_name m path)"
  by (simp add: path_name_def cstr_nonzero)

text \<open>
  The allocator gives a new file a block that no existing file has: the directory stays
  well-formed as long as a block is left on the disk.
\<close>

lemma created_dir_ok:
  assumes d: "dir_ok nblk d" and nm: "valid_name nm" "0 \<notin> set nm"
    and new: "\<forall>e \<in> set d. \<not> (d_live e \<and> fname e = nm)" and di: "di < 64" "\<not> d_live (d ! di)"
    and room: "unat (dir_next_free_block d) < nblk" and b: "nblk < 2 ^ 64"
  shows "dir_ok nblk (d[di := created_entry nm d])"
proof (rule dir_ok_update [OF d di(1)])
  have len: "length d = 64" using d by (rule dir_ok_length)
  have ends: "\<forall>e \<in> set d. d_live e \<longrightarrow> d_end e \<le> nblk"
    using d len by (auto simp: dir_ok_def extent_ok_def in_set_conv_nth)
  have one: "1 \<le> nblk" using room by simp
  note nf = dir_next_free_block_ok [OF ends one b]
  show "dirent_wf (created_entry nm d)" using nm by (rule created_entry_ok)
  show "extent_ok nblk (created_entry nm d)"
    using nf(1) room by (simp add: extent_ok_def created_entry_def d_end_def)
  fix j assume j: "j < 64" "d_live (d ! j)"
  then have "d ! j \<in> set d" using len by simp
  then show "apart (created_entry nm d) (d ! j)"
    using nf(3) new j(2) created_entry_ok(3) [OF nm, of d]
    by (auto simp: apart_def created_entry_def)
qed

lemma open_entry_ok:
  fixes flags :: u32
  assumes dev: "bmfs_dev K sec nblk" and inv: "bmfs_inv sec nblk s" and ld: "dir_loaded s"
    and slot: "slot < 8" and di: "di < 64" "d_live (dir s ! di)"
  defines "e \<equiv> (if flags AND O_TRUNC \<noteq> 0 then (dir s ! di)\<lparr>d_size := 0\<rparr> else dir s ! di)"
  shows "\<exists>s'. open_entry K flags slot di s = (3 + of_nat slot, s') \<and> bmfs_inv sec nblk s' \<and>
    dir s' = (dir s)[di := e] \<and> dir_loaded s' \<and> mem s' = mem s \<and>
    files s' = (files s)[slot := open_file flags di e] \<and>
    (\<forall>n. n \<noteq> 1 \<longrightarrow> sec (kern s') n = sec (kern s) n)"
proof -
  define s1 where "s1 = (if flags AND O_TRUNC \<noteq> 0
      then dir_flush K (s\<lparr>dir := (dir s)[di := (dir s ! di)\<lparr>d_size := 0\<rparr>]\<rparr>) else s)"
  have dok: "dir_ok nblk (dir s)" using inv ld by (simp add: bmfs_inv_def cur_dir_def)
  have len: "length (dir s) = 64" using dok by (rule dir_ok_length)
  have dok': "dir_ok nblk ((dir s)[di := (dir s ! di)\<lparr>d_size := 0\<rparr>])"
    using dok di by (intro dir_ok_set_size) auto
  have slots: "slot_ok ((dir s)[di := (dir s ! di)\<lparr>d_size := 0\<rparr>]) (files s ! i)"
    if "i < 8" "f_used (files s ! i)" for i
    using inv_slot [OF inv that] len di
    by (auto simp: slot_ok_def fd_live_def nth_list_update d_live_def)
  have s1: "bmfs_inv sec nblk s1 \<and> dir s1 = (dir s)[di := e] \<and> dir_loaded s1 \<and> mem s1 = mem s \<and>
      files s1 = files s \<and> (\<forall>n. n \<noteq> 1 \<longrightarrow> sec (kern s1) n = sec (kern s) n)"
    using inv_dir_replace [OF dev inv ld dok' slots] inv ld
    by (auto simp: s1_def e_def)
  have e: "dir s1 ! di = e" using s1 len di by simp
  have "extent_ok nblk (dir s ! di)" using dir_ok_extent [OF dok di] .
  then have ext: "unat (d_size e) \<le> unat (d_reserved_blocks e) * BLOCK" "extent_ok nblk e"
    by (auto simp: e_def extent_ok_def d_end_def)
  have "unat (d_reserved_blocks e) * BLOCK < 2 ^ 63"
  proof -
    have "unat (d_reserved_blocks e) \<le> nblk - 1" using ext(2) by (auto simp: extent_ok_def d_end_def)
    then have "unat (d_reserved_blocks e) < 2 ^ 42" using bmfs_dev_bound [OF dev] ext(2)
      by (auto simp: extent_ok_def d_end_def)
    then show ?thesis by (simp add: BLOCK_def)
  qed
  then have "slot_ok (dir s1) (open_file flags di e)"
    using ext s1 len di
    by (auto simp: slot_ok_def fd_live_def open_file_def Let_def f_cap_def e_def d_live_def)
  then have "bmfs_inv sec nblk (s1\<lparr>files := (files s1)[slot := open_file flags di e]\<rparr>)"
    using s1 slot by (intro inv_upd_files) auto
  then show ?thesis
    using s1 e by (auto simp: open_entry_def Let_def s1_def [symmetric] bmfs_consts)
qed

text \<open>Creating a file: every hypothesis of the creating branch gives a descriptor and the new entry.\<close>

lemma bmfs_open_create:
  assumes dev: "bmfs_dev K sec nblk" and inv: "bmfs_inv sec nblk s"
    and nm: "valid_name (path_name (mem s) path)"
    and slot: "first_idx (\<lambda>f. \<not> f_used f) (files s) = Some slot"
    and new: "\<forall>e \<in> set (cur_dir sec s). \<not> (d_live e \<and> fname e = path_name (mem s) path)"
    and creat: "flags AND O_CREAT \<noteq> 0"
    and di: "first_idx (\<lambda>e. \<not> d_live e) (cur_dir sec s) = Some di"
    and room: "unat (dir_next_free_block (cur_dir sec s)) < nblk"
  defines "e \<equiv> created_entry (path_name (mem s) path) (cur_dir sec s)"
  shows "\<exists>s'. bmfs_open K path flags mode s = (3 + of_nat slot, s') \<and> bmfs_inv sec nblk s' \<and>
    dir s' = (cur_dir sec s)[di := e] \<and> dir_loaded s' \<and> mem s' = mem s \<and>
    files s' = (files s)[slot := open_file flags di e] \<and>
    sec (kern s') 1 = encode_dir (dir s') \<and> (\<forall>n. n \<noteq> 1 \<longrightarrow> sec (kern s') n = sec (kern s) n)"
proof -
  let ?d = "cur_dir sec s" and ?nm = "path_name (mem s) path"
  note l = inv_dir_load [OF dev inv]
  have d: "dir_ok nblk ?d" using inv by (simp add: bmfs_inv_def)
  have len: "length ?d = 64" using d by (rule dir_ok_length)
  have b: "nblk < 2 ^ 64" using bmfs_dev_bound [OF dev] by simp
  have di': "di < 64" "\<not> d_live (?d ! di)" using di len by (auto simp: first_idx_Some_iff)
  have slot': "slot < 8" using slot tables_wf_files [OF inv_tables_wf [OF inv]] by (auto simp: first_idx_Some_iff)
  have d': "dir_ok nblk (?d[di := e])"
    unfolding e_def using d nm path_name_nonzero new di' room b by (rule created_dir_ok)
  define s2 where "s2 = dir_flush K ((dir_load K s)\<lparr>dir := ?d[di := e]\<rparr>)"
  have slots: "slot_ok (?d[di := e]) (files (dir_load K s) ! i)"
    if "i < 8" "f_used (files (dir_load K s) ! i)" for i
  proof -
    have so: "slot_ok ?d (files s ! i)" using inv_slot [OF l(1) that] l by simp
    then have "f_dir_index (files s ! i) \<noteq> di" using di' by (auto simp: slot_ok_def fd_live_def)
    then show ?thesis using so l by (simp add: slot_ok_def fd_live_def)
  qed
  note r = inv_dir_replace [OF dev l(1) l(4) d' slots, folded s2_def]
  have live: "d_live (dir s2 ! di)"
    using r(2) len di' created_entry_ok(2) [OF nm path_name_nonzero] by (simp add: e_def)
  have e0: "(if flags AND O_TRUNC \<noteq> 0 then (dir s2 ! di)\<lparr>d_size := 0\<rparr> else dir s2 ! di) = e"
    using r(2) len di' by (simp add: e_def created_entry_def)
  obtain s' where oe: "open_entry K flags slot di s2 = (3 + of_nat slot, s')" "bmfs_inv sec nblk s'"
    "dir s' = (dir s2)[di := e]" "dir_loaded s'" "mem s' = mem s2"
    "files s' = (files s2)[slot := open_file flags di e]"
    "\<forall>n. n \<noteq> 1 \<longrightarrow> sec (kern s') n = sec (kern s2) n"
    using open_entry_ok [OF dev r(1,3) slot' di'(1) live, of flags] e0 by auto
  have "bmfs_open K path flags mode s = (3 + of_nat slot, s')"
    using bmfs_open_unfold [OF dev inv, of path flags mode] nm slot new creat di oe(1)
    by (simp add: s2_def e_def first_idx_None_iff [THEN iffD2])
  moreover have "sec (kern s') 1 = encode_dir (dir s')" using oe(2,4) by (simp add: bmfs_inv_def)
  ultimately show ?thesis using oe r l by auto
qed

text \<open>Opening an existing file.\<close>

lemma bmfs_open_existing:
  assumes dev: "bmfs_dev K sec nblk" and inv: "bmfs_inv sec nblk s"
    and nm: "valid_name (path_name (mem s) path)"
    and slot: "first_idx (\<lambda>f. \<not> f_used f) (files s) = Some slot"
    and old: "first_idx (\<lambda>e. d_live e \<and> fname e = path_name (mem s) path) (cur_dir sec s) = Some di"
    and noexcl: "flags AND O_CREAT = 0 \<or> flags AND O_EXCL = 0"
  defines "e \<equiv> (if flags AND O_TRUNC \<noteq> 0 then (cur_dir sec s ! di)\<lparr>d_size := 0\<rparr> else cur_dir sec s ! di)"
  shows "\<exists>s'. bmfs_open K path flags mode s = (3 + of_nat slot, s') \<and> bmfs_inv sec nblk s' \<and>
    dir s' = (cur_dir sec s)[di := e] \<and> dir_loaded s' \<and> mem s' = mem s \<and>
    files s' = (files s)[slot := open_file flags di e] \<and>
    (\<forall>n. n \<noteq> 1 \<longrightarrow> sec (kern s') n = sec (kern s) n)"
proof -
  note l = inv_dir_load [OF dev inv]
  have len: "length (cur_dir sec s) = 64" using inv by (auto simp: bmfs_inv_def intro: dir_ok_length)
  have di: "di < 64" "d_live (dir (dir_load K s) ! di)" using old len l(3) by (auto simp: first_idx_Some_iff)
  have slot': "slot < 8" using slot tables_wf_files [OF inv_tables_wf [OF inv]] by (auto simp: first_idx_Some_iff)
  obtain s' where oe: "open_entry K flags slot di (dir_load K s) = (3 + of_nat slot, s')"
    "bmfs_inv sec nblk s'" "dir s' = (cur_dir sec s)[di := e]" "dir_loaded s'" "mem s' = mem s"
    "files s' = (files s)[slot := open_file flags di e]"
    "\<forall>n. n \<noteq> 1 \<longrightarrow> sec (kern s') n = sec (kern s) n"
    using open_entry_ok [OF dev l(1,4) slot' di, of flags] l by (auto simp: e_def)
  have "bmfs_open K path flags mode s = (3 + of_nat slot, s')"
    using bmfs_open_unfold [OF dev inv, of path flags mode] nm slot old noexcl oe(1) by auto
  then show ?thesis using oe by blast
qed

lemma bmfs_open_inv:
  assumes dev: "bmfs_dev K sec nblk" and inv: "bmfs_inv sec nblk s"
    and room: "unat (dir_next_free_block (cur_dir sec s)) < nblk"
  shows "bmfs_inv sec nblk (snd (bmfs_open K path flags mode s))"
proof -
  let ?d = "cur_dir sec s" and ?nm = "path_name (mem s) path"
  note u = bmfs_open_unfold [OF dev inv, of path flags mode]
  note l = inv_dir_load(1) [OF dev inv]
  show ?thesis
  proof (cases "valid_name ?nm")
    case False
    then show ?thesis using u inv by simp
  next
    case nm: True
    show ?thesis
    proof (cases "first_idx (\<lambda>f. \<not> f_used f) (files s)")
      case None
      then show ?thesis using u nm l by simp
    next
      case slot: (Some slot)
      show ?thesis
      proof (cases "first_idx (\<lambda>e. d_live e \<and> fname e = ?nm) ?d")
        case (Some di)
        then show ?thesis
          using u nm slot l bmfs_open_existing [OF dev inv nm slot Some, of flags mode] by force
      next
        case new: None
        show ?thesis
        proof (cases "flags AND O_CREAT = 0")
          case True
          then show ?thesis using u nm slot new l by simp
        next
          case creat: False
          show ?thesis
          proof (cases "first_idx (\<lambda>e. \<not> d_live e) ?d")
            case None
            then show ?thesis using u nm slot new creat l by simp
          next
            case (Some di)
            have "\<forall>e \<in> set ?d. \<not> (d_live e \<and> fname e = ?nm)" using new by (simp add: first_idx_None_iff)
            from bmfs_open_create [OF dev inv nm slot this creat Some room, of mode]
            show ?thesis by auto
          qed
        qed
      qed
    qed
  qed
qed

section \<open>close, lseek, unlink, fstat\<close>

lemma bmfs_close_ok:
  assumes dev: "bmfs_dev K sec nblk" and inv: "bmfs_inv sec nblk s" and fd: "fd_index fd = Some i"
    and used: "f_used (files s ! i)"
  defines "f \<equiv> files s ! i"
  defines "d \<equiv> (if f_dirty f then (dir s)[f_dir_index f := (dir s ! f_dir_index f)\<lparr>d_size := f_size f\<rparr>] else dir s)"
  shows "\<exists>s'. bmfs_close K fd s = Some (0, s') \<and> bmfs_inv sec nblk s' \<and> dir s' = d \<and> dir_loaded s' \<and>
    sec (kern s') 1 = encode_dir d \<and> (\<forall>n. n \<noteq> 1 \<longrightarrow> sec (kern s') n = sec (kern s) n) \<and>
    mem s' = mem s \<and> files s' = (files s)[i := f\<lparr>f_used := False\<rparr>]"
proof -
  have i: "i < 8" using fd by (simp add: fd_index_Some_iff)
  have ld: "dir_loaded s" and so: "slot_ok (dir s) f" using inv_slot [OF inv i used] by (simp_all add: f_def)
  have dok: "dir_ok nblk (dir s)" using inv ld by (simp add: bmfs_inv_def cur_dir_def)
  have len: "length (dir s) = 64" using dok by (rule dir_ok_length)
  have dok': "dir_ok nblk d"
    using dok so by (auto simp: d_def slot_ok_def fd_live_def f_cap_def intro!: dir_ok_set_size)
  have slots: "slot_ok d (files s ! j)" if "j < 8" "f_used (files s ! j)" for j
    using inv_slot [OF inv that] len so
    by (auto simp: d_def slot_ok_def fd_live_def nth_list_update d_live_def)
  define s1 where "s1 = (if f_dirty f then dir_flush K (s\<lparr>dir := d\<rparr>) else s)"
  have s1: "bmfs_inv sec nblk s1 \<and> dir s1 = d \<and> dir_loaded s1 \<and> mem s1 = mem s \<and> files s1 = files s \<and>
      (\<forall>n. n \<noteq> 1 \<longrightarrow> sec (kern s1) n = sec (kern s) n)"
  proof (cases "f_dirty f")
    case True
    then show ?thesis using inv_dir_replace [OF dev inv ld dok' slots] by (simp add: s1_def)
  next
    case False
    then show ?thesis using inv ld by (simp add: s1_def d_def)
  qed
  then have sec1: "sec (kern s1) 1 = encode_dir d" by (auto simp: bmfs_inv_def)
  have "bmfs_inv sec nblk (s1\<lparr>files := (files s1)[i := f\<lparr>f_used := False\<rparr>]\<rparr>)"
    using s1 i by (intro inv_upd_files) auto
  moreover have "bmfs_close K fd s = Some (0, s1\<lparr>files := (files s1)[i := f\<lparr>f_used := False\<rparr>]\<rparr>)"
  proof -
    have "bmfs_close K fd s = Some (0, upd_file i (\<lambda>f. f\<lparr>f_used := False\<rparr>) s1)"
      using fd by (simp add: bmfs_close_def Let_def f_def s1_def d_def)
    then show ?thesis using s1 by (simp add: upd_file_def f_def)
  qed
  ultimately show ?thesis using s1 sec1 by auto
qed

lemma bmfs_unlink_unfold:
  assumes dev: "bmfs_dev K sec nblk" and inv: "bmfs_inv sec nblk s"
  shows "bmfs_unlink K path s =
    (case first_idx (\<lambda>e. d_live e \<and> fname e = path_name (mem s) path) (cur_dir sec s) of
       None \<Rightarrow> (- ENOENT, dir_load K s)
     | Some di \<Rightarrow> (0, dir_flush K ((dir_load K s)\<lparr>dir := (cur_dir sec s)[di := empty_dirent]\<rparr>)))"
  using inv_dir_load [OF dev inv] by (simp add: bmfs_unlink_def Let_def dir_find_eq split: option.splits)

text \<open>The entry a path names, and whether some descriptor is open on it.\<close>

definition open_on :: "nat \<Rightarrow> ('k, 'z) bmfs_scheme \<Rightarrow> bool" where
  "open_on di s \<longleftrightarrow> (\<exists>i < 8. f_used (files s ! i) \<and> f_dir_index (files s ! i) = di)"

lemma bmfs_unlink_ok:
  assumes dev: "bmfs_dev K sec nblk" and inv: "bmfs_inv sec nblk s"
    and di: "first_idx (\<lambda>e. d_live e \<and> fname e = path_name (mem s) path) (cur_dir sec s) = Some di"
    and closed: "\<not> open_on di s"
  shows "\<exists>s'. bmfs_unlink K path s = (0, s') \<and> bmfs_inv sec nblk s' \<and>
    dir s' = (cur_dir sec s)[di := empty_dirent] \<and> dir_loaded s' \<and> mem s' = mem s \<and> files s' = files s \<and>
    sec (kern s') 1 = encode_dir (dir s') \<and> (\<forall>n. n \<noteq> 1 \<longrightarrow> sec (kern s') n = sec (kern s) n)"
proof -
  let ?d = "cur_dir sec s"
  note l = inv_dir_load [OF dev inv]
  have d: "dir_ok nblk ?d" using inv by (simp add: bmfs_inv_def)
  have len: "length ?d = 64" using d by (rule dir_ok_length)
  have di': "di < 64" using di len by (auto simp: first_idx_Some_iff)
  have d': "dir_ok nblk (?d[di := empty_dirent])" using d di' by (rule dir_ok_clear)
  have slots: "slot_ok (?d[di := empty_dirent]) (files (dir_load K s) ! i)"
    if "i < 8" "f_used (files (dir_load K s) ! i)" for i
  proof -
    have "f_dir_index (files s ! i) \<noteq> di" using closed that l by (auto simp: open_on_def)
    then show ?thesis using inv_slot [OF l(1) that] l by (simp add: slot_ok_def fd_live_def)
  qed
  note r = inv_dir_replace [OF dev l(1) l(4) d' slots]
  show ?thesis using r l bmfs_unlink_unfold [OF dev inv, of path] di by auto
qed

lemma bmfs_unlink_inv:
  assumes dev: "bmfs_dev K sec nblk" and inv: "bmfs_inv sec nblk s"
    and closed: "\<And>di. first_idx (\<lambda>e. d_live e \<and> fname e = path_name (mem s) path) (cur_dir sec s) = Some di
      \<Longrightarrow> \<not> open_on di s"
  shows "bmfs_inv sec nblk (snd (bmfs_unlink K path s))"
proof (cases "first_idx (\<lambda>e. d_live e \<and> fname e = path_name (mem s) path) (cur_dir sec s)")
  case None
  then show ?thesis using bmfs_unlink_unfold [OF dev inv, of path] inv_dir_load(1) [OF dev inv] by simp
next
  case (Some di)
  then show ?thesis using bmfs_unlink_ok [OF dev inv Some closed [OF Some]] by auto
qed

lemma inv_mem_update: "bmfs_inv sec nblk s \<Longrightarrow> bmfs_inv sec nblk (s\<lparr>mem := m\<rparr>)"
  by (auto simp: bmfs_inv_def tables_wf_def cur_dir_def)

lemma bmfs_fstatat_inv:
  assumes "bmfs_dev K sec nblk" and "bmfs_inv sec nblk s"
  shows "bmfs_inv sec nblk (snd (bmfs_fstatat K path buf s))"
  using inv_dir_load(1) [OF assms]
  by (auto simp: bmfs_fstatat_def Let_def inv_mem_update split: option.splits)

lemma bmfs_fstat_fd_inv:
  assumes "bmfs_inv sec nblk s" and "bmfs_fstat_fd fd buf s = Some (r, s')"
  shows "bmfs_inv sec nblk s'"
  using assms by (auto simp: bmfs_fstat_fd_def Let_def inv_mem_update split: option.splits)

lemma bmfs_lseek_inv:
  assumes inv: "bmfs_inv sec nblk s" and fd: "bmfs_is_fd fd s"
    and res: "bmfs_lseek fd off whence s = Some (r, s')"
  shows "bmfs_inv sec nblk s'"
proof -
  obtain i where i: "i < 8" "fd_index fd = Some i" "f_used (files s ! i)"
    using fd by (rule bmfs_is_fdE)
  have so: "dir_loaded s" "slot_ok (dir s) (files s ! i)" using inv_slot [OF inv i(1,3)] by auto
  have "bmfs_inv sec nblk (upd_file i (\<lambda>f. f\<lparr>f_pos := np\<rparr>) s)" if "\<not> sint np < 0" for np
  proof -
    have "unat np < 2 ^ 63" using that sint_nonneg_unat(2) [of np] by simp
    then show ?thesis unfolding upd_file_def
      using so i inv by (intro inv_upd_files) (auto simp: slot_ok_def fd_live_def f_cap_def)
  qed
  then show ?thesis using res i(2) inv by (auto simp: bmfs_lseek_def Let_def split: if_splits)
qed

section \<open>read and write\<close>

lemma sec_eqI:
  assumes ok: "nvs_ok K sec nsec" and n: "unat n < nsec"
    and eq: "\<And>x. unat n * 4096 \<le> x \<Longrightarrow> x < unat n * 4096 + 4096 \<Longrightarrow> disk_at sec k x = disk_at sec k' x"
  shows "sec k n = sec k' n"
proof (rule nth_equalityI)
  have l: "length (sec k n) = 4096" "length (sec k' n) = 4096" using nvs_ok_length [OF ok n] by auto
  then show "length (sec k n) = length (sec k' n)" by simp
  fix j assume "j < length (sec k n)"
  then have j: "j < 4096" using l by simp
  have dm: "(unat n * 4096 + j) div 4096 = unat n" "(unat n * 4096 + j) mod 4096 = j"
    using j by auto
  then show "sec k n ! j = sec k' n ! j"
    using eq [of "unat n * 4096 + j"] j unfolding disk_at_def dm by simp
qed

lemma bmfs_read_inv:
  assumes dev: "bmfs_dev K sec nblk" and inv: "bmfs_inv sec nblk s" and fd: "bmfs_is_fd fd s"
    and len: "0 \<le> sint len" and res: "bmfs_read K fd buf len s = Some (r, s')"
  shows "bmfs_inv sec nblk s'"
proof -
  obtain i where i: "i < 8" "fd_index fd = Some i" "f_used (files s ! i)"
    using fd by (rule bmfs_is_fdE)
  have so: "dir_loaded s" "slot_ok (dir s) (files s ! i)" using inv_slot [OF inv i(1,3)] by auto
  have fok: "file_ok (512 * nblk) (files s ! i)" using inv i by (intro inv_file_ok)
  have l: "unat len < 2 ^ 63" using len by (rule sint_nonneg_unat)
  have nowrap: "unat (f_pos (files s ! i)) + unat len < 2 ^ 64"
    using l so by (auto simp: slot_ok_def)
  obtain bs a' where sp: "spec_read (unat len) (abs_file sec s i) = (bs, a')" by (metis prod.exhaust)
  obtain s2 where r: "bmfs_read K fd buf len s = Some (of_nat (length bs), s2)"
    "abs_file sec s2 i = a'" "sec (kern s2) = sec (kern s)"
    "files s2 = (files s)[i := (files s ! i)\<lparr>f_pos := f_pos (files s ! i) + of_nat (length bs)\<rparr>]"
    "dir s2 = dir s" "dir_loaded s2 = dir_loaded s" "tables_wf s2"
    using bmfs_read_refines [OF bmfs_dev_nvs [OF dev] inv_tables_wf [OF inv] i(2) fok nowrap sp] by metis
  have eq: "s' = s2" using r(1) res by simp
  let ?f = "(files s ! i)\<lparr>f_pos := f_pos (files s ! i) + of_nat (length bs)\<rparr>"
  have "unat (f_pos ?f) < 2 ^ 63"
  proof (cases "bs = []")
    case True
    then show ?thesis using so by (simp add: slot_ok_def)
  next
    case False
    have len_fs: "i < length (files s)" using i(1) tables_wf_files [OF inv_tables_wf [OF inv]] by simp
    have "unat (f_pos ?f) = a_pos a'" using r(2,4) len_fs by (auto simp: abs_file_def Let_def)
    also have "\<dots> = unat (f_pos (files s ! i)) + length bs"
      using sp by (auto simp: spec_read_def Let_def abs_file_def)
    also have "\<dots> \<le> f_cap (files s ! i)"
    proof -
      have "bs = take (unat len) (drop (unat (f_pos (files s ! i))) (a_data (abs_file sec s i)))"
        using sp by (auto simp: spec_read_def Let_def abs_file_def)
      then have "length bs \<le> length (a_data (abs_file sec s i)) - unat (f_pos (files s ! i))" "length bs > 0"
        using False by auto
      moreover have "length (a_data (abs_file sec s i)) \<le> f_cap (files s ! i)"
        by (simp add: a_data_def abs_file_def Let_def)
      ultimately show ?thesis by linarith
    qed
    also have "\<dots> < 2 ^ 63" using file_ok_arith(4) [OF bmfs_dev_nvs [OF dev] fok] .
    finally show ?thesis .
  qed
  then have "slot_ok (dir s) ?f" using so by (simp add: slot_ok_def fd_live_def f_cap_def)
  then have "bmfs_inv sec nblk (s\<lparr>files := (files s)[i := ?f]\<rparr>)"
    using inv so i by (intro inv_upd_files) auto
  then show ?thesis using r eq so by (auto simp: bmfs_inv_def cur_dir_def)
qed

lemma bmfs_write_inv:
  assumes dev: "bmfs_dev K sec nblk" and inv: "bmfs_inv sec nblk s" and fd: "bmfs_is_fd fd s"
    and len: "0 \<le> sint len" and res: "bmfs_write K fd buf len s = Some (r, s')"
  shows "bmfs_inv sec nblk s'"
proof -
  obtain i where i: "i < 8" "fd_index fd = Some i" "f_used (files s ! i)"
    using fd by (rule bmfs_is_fdE)
  let ?f = "files s ! i"
  have so: "dir_loaded s" "slot_ok (dir s) ?f" using inv_slot [OF inv i(1,3)] by auto
  have fok: "file_ok (512 * nblk) ?f" using inv i by (intro inv_file_ok)
  note ar = file_ok_arith [OF bmfs_dev_nvs [OF dev] fok]
  define m p where "m = write_count ?f len" and "p = unat (write_pos ?f)"
  have p: "p < 2 ^ 63" using so ar(5) by (auto simp: p_def write_pos_def slot_ok_def)
  have nowrap: "unat (write_pos ?f) + unat len < 2 ^ 64"
    using p sint_nonneg_unat(2) [OF len] by (simp add: p_def)
  have fr: "write_frame sec (512 * nblk) i (f_base ?f + p) m s s'"
    and pos: "m \<noteq> 0 \<Longrightarrow> a_size (abs_file sec s' i) = max (unat (f_size ?f)) (p + m) \<and> a_pos (abs_file sec s' i) = p + m"
    and zero: "m = 0 \<Longrightarrow> a_size (abs_file sec s' i) = unat (f_size ?f) \<and> a_pos (abs_file sec s' i) = p"
    using bmfs_write_cases [OF bmfs_dev_nvs [OF dev] inv_tables_wf [OF inv] i(2) fok nowrap, of buf] res
    by (auto simp: m_def p_def abs_file_def Let_def)
  obtain z q d where files': "files s' = (files s)[i := ?f\<lparr>f_size := z, f_dirty := d, f_pos := q\<rparr>]"
    using fr unfolding write_frame_def by blast
  have len_fs: "length (files s) = 8" using tables_wf_files [OF inv_tables_wf [OF inv]] .
  have zq: "a_size (abs_file sec s' i) = unat z" "a_pos (abs_file sec s' i) = unat q"
    using files' len_fs i(1) by (simp_all add: abs_file_def Let_def)
  have mle: "m \<noteq> 0 \<Longrightarrow> p + m \<le> f_cap ?f" by (auto simp: m_def p_def write_count_def)
  have sz: "unat (f_size ?f) \<le> f_cap ?f" using so by (simp add: slot_ok_def)
  have "slot_ok (dir s) (?f\<lparr>f_size := z, f_dirty := d, f_pos := q\<rparr>)"
    using pos zero mle sz p ar(4) so unfolding zq
    by (cases "m = 0") (auto simp: slot_ok_def fd_live_def f_cap_def)
  then have inv1: "bmfs_inv sec nblk (s\<lparr>files := files s'\<rparr>)"
    unfolding files' using inv so i by (intro inv_upd_files) auto
  have "sec (kern s') 1 = sec (kern s) 1"
  proof (rule sec_eqI [OF bmfs_dev_nvs [OF dev]])
    show "unat (1 :: u64) < 512 * nblk" using bmfs_dev_gt1 [OF dev] by simp
    have "BLOCK \<le> f_base ?f" using fok by (simp add: file_ok_def f_base_def)
    then have base: "8192 \<le> f_base ?f" by (simp add: BLOCK_def)
    fix x assume "unat (1 :: u64) * 4096 \<le> x" "x < unat (1 :: u64) * 4096 + 4096"
    then have "x < 8192" by simp
    then show "disk_at sec (kern s') x = disk_at sec (kern s) x"
      using fr base bmfs_dev_gt1 [OF dev] unfolding write_frame_def by simp
  qed
  then show ?thesis using inv1 fr so by (auto simp: bmfs_inv_def cur_dir_def write_frame_def tables_wf_def)
qed

section \<open>The API as a step relation\<close>

text \<open>
  The calls the dispatcher makes, under the discipline the invariant needs: a descriptor passed
  the \<^verbatim>\<open>bmfs_is_fd\<close> test, a length does not read as a negative long, a file is not unlinked
  while it is open, and an \<^verbatim>\<open>open\<close> that may create a file finds a block left on the disk.  Between
  two calls the program may change its memory at will.
\<close>

inductive bmfs_step :: "'k kernel \<Rightarrow> ('k \<Rightarrow> u64 \<Rightarrow> u8 list) \<Rightarrow> nat \<Rightarrow> ('k, 'z) bmfs_scheme \<Rightarrow> ('k, 'z) bmfs_scheme \<Rightarrow> bool"
  for K sec nblk where
  step_user: "bmfs_step K sec nblk s (s\<lparr>mem := m\<rparr>)"
| step_open: "unat (dir_next_free_block (cur_dir sec s)) < nblk \<Longrightarrow>
    bmfs_open K path flags mode s = (r, s') \<Longrightarrow> bmfs_step K sec nblk s s'"
| step_read: "bmfs_is_fd fd s \<Longrightarrow> 0 \<le> sint len \<Longrightarrow>
    bmfs_read K fd buf len s = Some (r, s') \<Longrightarrow> bmfs_step K sec nblk s s'"
| step_write: "bmfs_is_fd fd s \<Longrightarrow> 0 \<le> sint len \<Longrightarrow>
    bmfs_write K fd buf len s = Some (r, s') \<Longrightarrow> bmfs_step K sec nblk s s'"
| step_lseek: "bmfs_is_fd fd s \<Longrightarrow>
    bmfs_lseek fd off whence s = Some (r, s') \<Longrightarrow> bmfs_step K sec nblk s s'"
| step_close: "bmfs_is_fd fd s \<Longrightarrow>
    bmfs_close K fd s = Some (r, s') \<Longrightarrow> bmfs_step K sec nblk s s'"
| step_fstat: "bmfs_is_fd fd s \<Longrightarrow>
    bmfs_fstat_fd fd buf s = Some (r, s') \<Longrightarrow> bmfs_step K sec nblk s s'"
| step_fstatat: "bmfs_fstatat K path buf s = (r, s') \<Longrightarrow> bmfs_step K sec nblk s s'"
| step_unlink: "(\<And>di. first_idx (\<lambda>e. d_live e \<and> fname e = path_name (mem s) path) (cur_dir sec s) = Some di
      \<Longrightarrow> \<not> open_on di s) \<Longrightarrow>
    bmfs_unlink K path s = (r, s') \<Longrightarrow> bmfs_step K sec nblk s s'"

inductive bmfs_reach :: "'k kernel \<Rightarrow> ('k \<Rightarrow> u64 \<Rightarrow> u8 list) \<Rightarrow> nat \<Rightarrow> ('k, 'z) bmfs_scheme \<Rightarrow> bool"
  for K sec nblk where
  reach_init: "tables_wf s \<Longrightarrow> dir_wf (dir s) \<Longrightarrow> \<not> dir_loaded s \<Longrightarrow> \<forall>f \<in> set (files s). \<not> f_used f \<Longrightarrow>
    dir_ok nblk (decode_dir (sec (kern s) 1)) \<Longrightarrow> bmfs_reach K sec nblk s"
| reach_step: "bmfs_reach K sec nblk s \<Longrightarrow> bmfs_step K sec nblk s s' \<Longrightarrow> bmfs_reach K sec nblk s'"

lemma bmfs_step_inv:
  assumes dev: "bmfs_dev K sec nblk" and step: "bmfs_step K sec nblk s s'" and inv: "bmfs_inv sec nblk s"
  shows "bmfs_inv sec nblk s'"
  using step
proof cases
  case step_user
  then show ?thesis using inv by (simp add: inv_mem_update)
next
  case step_open
  then show ?thesis using bmfs_open_inv [OF dev inv] by (metis snd_conv)
next
  case step_read
  then show ?thesis using bmfs_read_inv [OF dev inv] by blast
next
  case step_write
  then show ?thesis using bmfs_write_inv [OF dev inv] by blast
next
  case step_lseek
  then show ?thesis using bmfs_lseek_inv [OF inv] by blast
next
  case (step_close fd r)
  obtain i where "fd_index fd = Some i" "f_used (files s ! i)"
    using step_close(1) by (rule bmfs_is_fdE)
  then show ?thesis using bmfs_close_ok [OF dev inv, of fd i] step_close(2) by auto
next
  case step_fstat
  then show ?thesis using bmfs_fstat_fd_inv [OF inv] by blast
next
  case step_fstatat
  then show ?thesis using bmfs_fstatat_inv [OF dev inv] by (metis snd_conv)
next
  case step_unlink
  then show ?thesis using bmfs_unlink_inv [OF dev inv] by (metis snd_conv)
qed

lemma bmfs_reach_inv:
  assumes "bmfs_dev K sec nblk" and "bmfs_reach K sec nblk s"
  shows "bmfs_inv sec nblk s"
  using assms(2)
proof induction
  case (reach_init s)
  then show ?case
    by (auto simp: bmfs_inv_def cur_dir_def tables_wf_def bmfs_consts)
next
  case (reach_step s s')
  then show ?case using bmfs_step_inv [OF assms(1)] by blast
qed

end
