(* ===== verification/BM_Bmfs_Fs.thy ===== *)
theory BM_Bmfs_Fs
  imports BM_Bmfs_Inv
begin

text \<open>
  What BMFS stores: the disk as a finite map from file names to contents, read off the directory
  sector and the extents.  Creating, truncating, unlinking, writing and closing files are the
  corresponding updates of that map.
\<close>

section \<open>The stored files\<close>

definition lookup :: "bmfs_dirent list \<Rightarrow> u8 list \<Rightarrow> nat option" where
  "lookup d nm = first_idx (\<lambda>e. d_live e \<and> fname e = nm) d"

definition entry_data :: "('k \<Rightarrow> u64 \<Rightarrow> u8 list) \<Rightarrow> 'k \<Rightarrow> bmfs_dirent \<Rightarrow> u8 list" where
  "entry_data sec k e = disk_range sec k (unat (d_start_block e) * BLOCK) (unat (d_size e))"

definition files_of :: "('k \<Rightarrow> u64 \<Rightarrow> u8 list) \<Rightarrow> 'k \<Rightarrow> bmfs_dirent list \<Rightarrow> u8 list \<Rightarrow> u8 list option" where
  "files_of sec k d nm = map_option (\<lambda>i. entry_data sec k (d ! i)) (lookup d nm)"

definition disk_files :: "('k \<Rightarrow> u64 \<Rightarrow> u8 list) \<Rightarrow> 'k \<Rightarrow> u8 list \<Rightarrow> u8 list option" where
  "disk_files sec k = files_of sec k (decode_dir (sec k 1))"

section \<open>Lookup in a well-formed directory\<close>

lemma lookup_Some_iff:
  assumes "dir_ok nblk d"
  shows "lookup d nm = Some i \<longleftrightarrow> i < 64 \<and> d_live (d ! i) \<and> fname (d ! i) = nm"
proof
  assume "lookup d nm = Some i"
  then show "i < 64 \<and> d_live (d ! i) \<and> fname (d ! i) = nm"
    using dir_ok_length [OF assms] by (auto simp: lookup_def first_idx_Some_iff)
next
  assume i: "i < 64 \<and> d_live (d ! i) \<and> fname (d ! i) = nm"
  have "j = i" if "j < 64" "d_live (d ! j)" "fname (d ! j) = nm" for j
    using dir_ok_apart [OF assms, of j i] that i by (auto simp: apart_def)
  then show "lookup d nm = Some i"
    using i dir_ok_length [OF assms] unfolding lookup_def first_idx_Some_iff
    by (metis order.strict_trans less_irrefl)
qed

lemma lookup_update:
  assumes d: "dir_ok nblk d" and d': "dir_ok nblk (d[i := e])" and i: "i < 64"
  shows "lookup (d[i := e]) nm =
    (if d_live e \<and> fname e = nm then Some i else if lookup d nm = Some i then None else lookup d nm)"
proof -
  have len: "length d = 64" using d by (rule dir_ok_length)
  have eq: "(lookup (d[i := e]) nm = Some j) =
      ((if d_live e \<and> fname e = nm then Some i else if lookup d nm = Some i then None else lookup d nm) = Some j)" for j
  proof (cases "i = j")
    case True
    then show ?thesis unfolding lookup_Some_iff [OF d'] using len i by (auto simp: lookup_Some_iff [OF d])
  next
    case False
    then show ?thesis unfolding lookup_Some_iff [OF d'] using dir_ok_apart [OF d', of i j] dir_ok_apart [OF d, of i j] len i
      by (auto simp: lookup_Some_iff [OF d] apart_def)
  qed
  show ?thesis using eq by (metis not_None_eq)
qed

lemma files_of_update:
  assumes "dir_ok nblk d" and "dir_ok nblk (d[i := e])" and "i < 64"
  shows "files_of sec k (d[i := e]) nm =
    (if d_live e \<and> fname e = nm then Some (entry_data sec k e)
     else if lookup d nm = Some i then None else files_of sec k d nm)"
proof -
  have "length d = 64" using assms(1) by (rule dir_ok_length)
  then show ?thesis
    using assms(3) by (cases "lookup d nm") (auto simp: files_of_def lookup_update [OF assms])
qed

text \<open>The contents depend only on the bytes of the extents.\<close>

lemma disk_range_cong:
  assumes "\<And>x. a \<le> x \<Longrightarrow> x < a + n \<Longrightarrow> disk_at sec k x = disk_at sec k' x"
  shows "disk_range sec k a n = disk_range sec k' a n"
  using assms by (auto simp: disk_range_def)

lemma disk_at_other_sector:
  assumes "\<forall>n. n \<noteq> 1 \<longrightarrow> sec k' n = sec k n" and "BLOCK \<le> x" and "x < 2 ^ 63"
  shows "disk_at sec k' x = disk_at sec k x"
proof -
  have "512 \<le> x div 4096" using assms(2) by (simp add: BLOCK_def)
  moreover have "x div 4096 < 2 ^ 51" using assms(3) by (simp add: less_mult_imp_div_less)
  ultimately have "unat (of_nat (x div 4096) :: u64) \<noteq> 1" by (subst unat_of_nat_small) auto
  then have "(of_nat (x div 4096) :: u64) \<noteq> 1" by auto
  then show ?thesis using assms(1) by (simp add: disk_at_def)
qed

lemma entry_range:
  assumes "bmfs_dev K sec nblk" and "extent_ok nblk e"
  shows "BLOCK \<le> unat (d_start_block e) * BLOCK"
    "unat (d_start_block e) * BLOCK + unat (d_size e) \<le> d_end e * BLOCK"
    "d_end e * BLOCK \<le> nblk * BLOCK" "nblk * BLOCK \<le> 2 ^ 63"
proof -
  show "BLOCK \<le> unat (d_start_block e) * BLOCK" using assms(2) by (simp add: extent_ok_def)
  show "unat (d_start_block e) * BLOCK + unat (d_size e) \<le> d_end e * BLOCK"
    using assms(2) by (simp add: extent_ok_def d_end_def add_mult_distrib)
  show "d_end e * BLOCK \<le> nblk * BLOCK" using assms(2) by (simp add: extent_ok_def)
  show "nblk * BLOCK \<le> 2 ^ 63" using bmfs_dev_bound [OF assms(1)] by (simp add: BLOCK_def)
qed

lemma entry_data_frame:
  assumes dev: "bmfs_dev K sec nblk" and e: "extent_ok nblk e" and eq: "\<forall>n. n \<noteq> 1 \<longrightarrow> sec k' n = sec k n"
  shows "entry_data sec k' e = entry_data sec k e"
  unfolding entry_data_def
proof (rule disk_range_cong)
  fix x assume x: "unat (d_start_block e) * BLOCK \<le> x" "x < unat (d_start_block e) * BLOCK + unat (d_size e)"
  note r = entry_range [OF dev e]
  have "BLOCK \<le> x" using r(1) x(1) by (rule order_trans)
  moreover have "x < 2 ^ 63" using x(2) r(2,3,4) by linarith
  ultimately show "disk_at sec k' x = disk_at sec k x" using eq by (intro disk_at_other_sector)
qed

lemma files_of_frame:
  assumes dev: "bmfs_dev K sec nblk" and d: "dir_ok nblk d" and eq: "\<forall>n. n \<noteq> 1 \<longrightarrow> sec k' n = sec k n"
  shows "files_of sec k' d = files_of sec k d"
proof
  fix nm
  show "files_of sec k' d nm = files_of sec k d nm"
  proof (cases "lookup d nm")
    case None
    then show ?thesis by (simp add: files_of_def)
  next
    case (Some i)
    then have "extent_ok nblk (d ! i)" using dir_ok_extent [OF d] lookup_Some_iff [OF d] by blast
    then show ?thesis using Some entry_data_frame [OF dev _ eq] by (simp add: files_of_def)
  qed
qed

lemma disk_files_inv:
  assumes dev: "bmfs_dev K sec nblk" and inv: "bmfs_inv sec nblk s"
  shows "disk_files sec (kern s) = files_of sec (kern s) (cur_dir sec s)"
proof (cases "dir_loaded s")
  case True
  then have "sec (kern s) 1 = encode_dir (dir s)" "dir_wf (dir s)" using inv by (auto simp: bmfs_inv_def)
  then show ?thesis using True by (simp add: disk_files_def cur_dir_def decode_encode_dir)
next
  case False
  then show ?thesis by (simp add: disk_files_def cur_dir_def)
qed

text \<open>Any operation that leaves the data sectors alone and replaces one directory entry.\<close>

lemma disk_files_replace:
  assumes dev: "bmfs_dev K sec nblk" and inv: "bmfs_inv sec nblk s" and inv': "bmfs_inv sec nblk s'"
    and dir': "cur_dir sec s' = (cur_dir sec s)[i := e]" and i: "i < 64"
    and eq: "\<forall>n. n \<noteq> 1 \<longrightarrow> sec (kern s') n = sec (kern s) n"
  shows "disk_files sec (kern s') nm =
    (if d_live e \<and> fname e = nm then Some (entry_data sec (kern s) e)
     else if lookup (cur_dir sec s) nm = Some i then None else disk_files sec (kern s) nm)"
proof -
  let ?d = "cur_dir sec s"
  have d: "dir_ok nblk ?d" "dir_ok nblk (?d[i := e])" using inv inv' dir' by (auto simp: bmfs_inv_def)
  have "disk_files sec (kern s') nm = files_of sec (kern s) (?d[i := e]) nm"
    using disk_files_inv [OF dev inv'] files_of_frame [OF dev d(2) eq] dir' by simp
  then show ?thesis unfolding files_of_update [OF d i] disk_files_inv [OF dev inv] .
qed

section \<open>The operations on the stored files\<close>

text \<open>The name and the stored entry behind an open descriptor.\<close>

definition fd_name :: "('k, 'z) bmfs_scheme \<Rightarrow> nat \<Rightarrow> u8 list" where
  "fd_name s i = fname (dir s ! f_dir_index (files s ! i))"

lemma cur_dir_loaded: "dir_loaded s \<Longrightarrow> cur_dir sec s = dir s"
  by (simp add: cur_dir_def)

lemma inv_dir_ok: "bmfs_inv sec nblk s \<Longrightarrow> dir_ok nblk (cur_dir sec s)"
  by (simp add: bmfs_inv_def)

lemma fd_name_lookup:
  assumes inv: "bmfs_inv sec nblk s" and i: "i < 8" "f_used (files s ! i)"
  shows "lookup (cur_dir sec s) nm = Some (f_dir_index (files s ! i)) \<longleftrightarrow> nm = fd_name s i"
  using inv_slot [OF inv i] lookup_Some_iff [OF inv_dir_ok [OF inv]]
  by (auto simp: fd_name_def slot_ok_def fd_live_def cur_dir_loaded)

lemma lookup_None_iff: "lookup d nm = None \<longleftrightarrow> (\<forall>e \<in> set d. \<not> (d_live e \<and> fname e = nm))"
  by (simp add: lookup_def first_idx_None_iff)

lemma disk_files_None_iff:
  assumes "bmfs_dev K sec nblk" and "bmfs_inv sec nblk s"
  shows "disk_files sec (kern s) nm = None \<longleftrightarrow> lookup (cur_dir sec s) nm = None"
  by (simp add: disk_files_inv [OF assms] files_of_def)

lemma create_files:
  assumes dev: "bmfs_dev K sec nblk" and inv: "bmfs_inv sec nblk s"
    and nm: "valid_name (path_name (mem s) path)"
    and slot: "first_idx (\<lambda>f. \<not> f_used f) (files s) = Some slot"
    and new: "disk_files sec (kern s) (path_name (mem s) path) = None"
    and creat: "flags AND O_CREAT \<noteq> 0"
    and free: "\<exists>e \<in> set (cur_dir sec s). \<not> d_live e"
    and room: "unat (dir_next_free_block (cur_dir sec s)) < nblk"
  shows "\<exists>s'. bmfs_open K path flags mode s = (3 + of_nat slot, s') \<and> bmfs_inv sec nblk s' \<and>
    disk_files sec (kern s') = (disk_files sec (kern s))(path_name (mem s) path \<mapsto> []) \<and>
    bmfs_is_fd (3 + of_nat slot) s' \<and> fd_name s' slot = path_name (mem s) path \<and> mem s' = mem s \<and>
    f_size (files s' ! slot) = 0 \<and> f_pos (files s' ! slot) = 0 \<and> f_cap (files s' ! slot) = BLOCK"
proof -
  let ?d = "cur_dir sec s" and ?nm = "path_name (mem s) path"
  have none: "\<forall>e \<in> set ?d. \<not> (d_live e \<and> fname e = ?nm)"
    using new disk_files_None_iff [OF dev inv] by (simp add: lookup_None_iff)
  have d: "dir_ok nblk ?d" using inv by (rule inv_dir_ok)
  have len: "length ?d = 64" using d by (rule dir_ok_length)
  obtain di where di: "first_idx (\<lambda>e. \<not> d_live e) ?d = Some di"
    using free first_idx_None_iff [of "\<lambda>e. \<not> d_live e" ?d] by (metis not_None_eq)
  then have di': "di < 64" using len by (auto simp: first_idx_Some_iff)
  let ?e = "created_entry ?nm ?d"
  note ce = created_entry_ok [OF nm path_name_nonzero, of ?d]
  obtain s' where s': "bmfs_open K path flags mode s = (3 + of_nat slot, s')" "bmfs_inv sec nblk s'"
    "dir s' = ?d[di := ?e]" "dir_loaded s'" "mem s' = mem s" "files s' = (files s)[slot := open_file flags di ?e]"
    "\<forall>n. n \<noteq> 1 \<longrightarrow> sec (kern s') n = sec (kern s) n"
    using bmfs_open_create [OF dev inv nm slot none creat di room] by blast
  have "disk_files sec (kern s') n = ((disk_files sec (kern s))(?nm \<mapsto> [])) n" for n
  proof -
    have cd: "cur_dir sec s' = ?d[di := ?e]" using s' by (simp add: cur_dir_loaded)
    have "lookup ?d n \<noteq> Some di" using di lookup_Some_iff [OF d] by (auto simp: first_idx_Some_iff)
    moreover have "entry_data sec (kern s) ?e = []" by (simp add: entry_data_def created_entry_def disk_range_def)
    ultimately show ?thesis
      using disk_files_replace [OF dev inv s'(2) cd di' s'(7)] ce(2,3) by auto
  qed
  moreover have sl: "slot < 8" "slot < length (files s)"
    using slot tables_wf_files [OF inv_tables_wf [OF inv]] by (auto simp: first_idx_Some_iff)
  moreover have "files s' ! slot = open_file flags di ?e" using sl s'(6) by simp
  ultimately show ?thesis
    using s' ce(3) len di' bmfs_is_fd_slot(1) [OF sl(1), of s']
    by (intro exI [of _ s']) (auto simp: fd_name_def open_file_def created_entry_def Let_def f_cap_def)
qed

lemma unlink_files:
  assumes dev: "bmfs_dev K sec nblk" and inv: "bmfs_inv sec nblk s"
    and old: "disk_files sec (kern s) (path_name (mem s) path) \<noteq> None"
    and closed: "\<forall>i < 8. f_used (files s ! i) \<longrightarrow> fd_name s i \<noteq> path_name (mem s) path"
  shows "\<exists>s'. bmfs_unlink K path s = (0, s') \<and> bmfs_inv sec nblk s' \<and>
    disk_files sec (kern s') = (disk_files sec (kern s))(path_name (mem s) path := None)"
proof -
  let ?d = "cur_dir sec s" and ?nm = "path_name (mem s) path"
  obtain di where di: "lookup ?d ?nm = Some di" using old disk_files_None_iff [OF dev inv] by auto
  have di': "di < 64" using di lookup_Some_iff [OF inv_dir_ok [OF inv]] by blast
  have "\<not> open_on di s"
    using closed fd_name_lookup [OF inv] di by (auto simp: open_on_def)
  then obtain s' where s': "bmfs_unlink K path s = (0, s')" "bmfs_inv sec nblk s'"
    "dir s' = ?d[di := empty_dirent]" "dir_loaded s'" "\<forall>n. n \<noteq> 1 \<longrightarrow> sec (kern s') n = sec (kern s) n"
    using bmfs_unlink_ok [OF dev inv di [unfolded lookup_def]] by blast
  have cd: "cur_dir sec s' = ?d[di := empty_dirent]" using s' by (simp add: cur_dir_loaded)
  have "disk_files sec (kern s') n = ((disk_files sec (kern s))(?nm := None)) n" for n
  proof -
    have "lookup ?d n = Some di \<longleftrightarrow> n = ?nm" using di by (auto simp: lookup_Some_iff [OF inv_dir_ok [OF inv]])
    then show ?thesis unfolding disk_files_replace [OF dev inv s'(2) cd di' s'(5), of n] by simp
  qed
  then show ?thesis using s' by blast
qed

lemma close_files:
  assumes dev: "bmfs_dev K sec nblk" and inv: "bmfs_inv sec nblk s" and fd: "fd_index fd = Some i"
    and used: "f_used (files s ! i)"
  shows "\<exists>s'. bmfs_close K fd s = Some (0, s') \<and> bmfs_inv sec nblk s' \<and> \<not> bmfs_is_fd fd s' \<and> mem s' = mem s \<and>
    disk_files sec (kern s') = (if f_dirty (files s ! i)
      then (disk_files sec (kern s))(fd_name s i \<mapsto> a_data (abs_file sec s i)) else disk_files sec (kern s))"
proof -
  let ?f = "files s ! i"
  let ?di = "f_dir_index ?f"
  let ?e = "(dir s ! ?di)\<lparr>d_size := f_size ?f\<rparr>"
  have i: "i < 8" "fd = 3 + of_nat i" using fd by (auto simp: fd_index_Some_iff)
  have so: "dir_loaded s" "slot_ok (dir s) ?f" using inv_slot [OF inv i(1) used] by auto
  have di: "?di < 64" "d_live (dir s ! ?di)" using so by (auto simp: slot_ok_def fd_live_def)
  obtain s' where s': "bmfs_close K fd s = Some (0, s')" "bmfs_inv sec nblk s'" "dir_loaded s'"
    "dir s' = (if f_dirty ?f then (dir s)[?di := ?e] else dir s)" "mem s' = mem s"
    "\<forall>n. n \<noteq> 1 \<longrightarrow> sec (kern s') n = sec (kern s) n" "files s' = (files s)[i := ?f\<lparr>f_used := False\<rparr>]"
    using bmfs_close_ok [OF dev inv fd used] by blast
  have nofd: "\<not> bmfs_is_fd fd s'"
    using bmfs_is_fd_slot(1) [OF i(1), of s'] s'(7) i tables_wf_files [OF inv_tables_wf [OF inv]] by simp
  have "disk_files sec (kern s') n = ((disk_files sec (kern s))(fd_name s i \<mapsto> a_data (abs_file sec s i))) n"
    if "f_dirty ?f" for n
  proof -
    have cd: "cur_dir sec s' = (cur_dir sec s)[?di := ?e]" using s' so that by (simp add: cur_dir_loaded)
    have "entry_data sec (kern s) ?e = a_data (abs_file sec s i)"
      using so by (auto simp: entry_data_def a_data_def abs_file_def Let_def slot_ok_def fd_live_def
          f_base_def disk_range_def take_map take_upt min_def)
    moreover have "d_live ?e" "fname ?e = fd_name s i" using di by (auto simp: d_live_def fname_def fd_name_def)
    ultimately show ?thesis
      using disk_files_replace [OF dev inv s'(2) cd di(1) s'(6), of n] fd_name_lookup [OF inv i(1) used, of n] by auto
  qed
  moreover have "disk_files sec (kern s') = disk_files sec (kern s)" if "\<not> f_dirty ?f"
    using that s' so disk_files_inv [OF dev inv] disk_files_inv [OF dev s'(2)]
      files_of_frame [OF dev inv_dir_ok [OF inv] s'(6)] by (simp add: cur_dir_loaded)
  ultimately show ?thesis using s' nofd by (intro exI [of _ s']) auto
qed

section \<open>Writing\<close>

lemma pwrite_loop_files: "files (pwrite_loop K src base r s) = files s"
proof (induction K src base r s rule: pwrite_loop.induct)
  case (1 K src base r s)
  have w: "files (snd (b_nvs_write K d n m v t)) = files t" for d n m v and t :: "('a, 'b) bmfs_scheme"
    by (simp add: b_nvs_write_def split: prod.split)
  have rd: "files (snd (snd (b_nvs_read K n m v t))) = files t" for n m v and t :: "('a, 'b) bmfs_scheme"
    by (simp add: b_nvs_read_def split: prod.split)
  show ?case
    using 1 rd [of "base div BMFS_SECTOR_BYTES" 1 BMFS_DRIVE s]
    by (subst pwrite_loop.simps) (auto simp: Let_def w split: prod.splits)
qed

text \<open>A write that changes the size of the file marks the descriptor dirty.\<close>

lemma bmfs_pwrite_dirty:
  assumes "bmfs_pwrite K i buf len off s = (n, s')" and "i < length (files s)"
    and "f_dirty (files s ! i) \<or> f_size (files s' ! i) \<noteq> f_size (files s ! i)"
  shows "f_dirty (files s' ! i)"
proof -
  have eq: "f_dirty (files s' ! i) = f_dirty (files s ! i) \<and> f_size (files s' ! i) = f_size (files s ! i)"
    if "files s' = files s" using that by simp
  have "files s' = files s \<or> f_dirty (files s' ! i)"
    using assms(1,2) unfolding bmfs_pwrite_def Let_def
    by (auto simp: pwrite_loop_files upd_file_def split: if_split_asm)
  then show ?thesis using eq assms(3) by blast
qed

lemma advance_size_dirty [simp]:
  "f_size (files (advance i n s) ! j) = f_size (files s ! j)"
  "f_dirty (files (advance i n s) ! j) = f_dirty (files s ! j)"
proof -
  show "f_size (files (advance i n s) ! j) = f_size (files s ! j)"
    by (cases "i < length (files s)") (simp_all add: advance_def upd_file_def nth_list_update list_update_beyond not_less)
  show "f_dirty (files (advance i n s) ! j) = f_dirty (files s ! j)"
    by (cases "i < length (files s)") (simp_all add: advance_def upd_file_def nth_list_update list_update_beyond not_less)
qed

lemma bmfs_write_dirty:
  assumes res: "bmfs_write K fd buf len s = Some (r, s')" and fd: "fd_index fd = Some i" and l: "length (files s) = 8"
    and ch: "f_dirty (files s ! i) \<or> f_size (files s' ! i) \<noteq> f_size (files s ! i)"
  shows "f_dirty (files s' ! i)"
proof -
  have i: "i < length (files s)" using fd l by (simp add: fd_index_Some_iff)
  define s0 where "s0 = (if f_append (files s ! i) then upd_file i (\<lambda>f. f\<lparr>f_pos := f_size f\<rparr>) s else s)"
  have s0: "f_size (files s0 ! i) = f_size (files s ! i)" "f_dirty (files s0 ! i) = f_dirty (files s ! i)"
    "length (files s0) = length (files s)" using i by (auto simp: s0_def)
  obtain n s1 where pw: "bmfs_pwrite K i buf len (f_pos (files s0 ! i)) s0 = (n, s1)" by (metis prod.exhaust)
  have s': "s' = advance i n s1"
    using res fd pw unfolding bmfs_write_def s0_def [symmetric] by (auto simp: s0_def [symmetric] Let_def)
  have "f_dirty (files s1 ! i)"
  proof (rule bmfs_pwrite_dirty [OF pw])
    show "i < length (files s0)" using s0(3) i by simp
    show "f_dirty (files s0 ! i) \<or> f_size (files s1 ! i) \<noteq> f_size (files s0 ! i)"
      using ch unfolding s' s0(1,2) by simp
  qed
  then show ?thesis unfolding s' by simp
qed

lemma write_files:
  assumes dev: "bmfs_dev K sec nblk" and inv: "bmfs_inv sec nblk s" and fd: "fd_index fd = Some i"
    and used: "f_used (files s ! i)" and len: "0 \<le> sint len"
    and res: "bmfs_write K fd buf len s = Some (r, s')"
  shows "bmfs_inv sec nblk s'" "fd_name s' i = fd_name s i" "bmfs_is_fd fd s'"
    "\<And>nm. nm \<noteq> fd_name s i \<Longrightarrow> disk_files sec (kern s') nm = disk_files sec (kern s) nm"
    "\<And>j. j < 8 \<Longrightarrow> f_used (files s ! j) \<Longrightarrow> fd_name s j \<noteq> fd_name s i \<Longrightarrow> abs_file sec s' j = abs_file sec s j"
proof -
  let ?f = "files s ! i" and ?e = "dir s ! f_dir_index (files s ! i)"
  have i: "i < 8" "fd = 3 + of_nat i" using fd by (auto simp: fd_index_Some_iff)
  have isfd: "bmfs_is_fd fd s" using bmfs_is_fd_slot(1) [OF i(1), of s] i used by simp
  show inv': "bmfs_inv sec nblk s'" by (rule bmfs_write_inv [OF dev inv isfd len res])
  have so: "dir_loaded s" "slot_ok (dir s) ?f" using inv_slot [OF inv i(1) used] by auto
  have fok: "file_ok (512 * nblk) ?f" using inv i used by (intro inv_file_ok)
  note ar = file_ok_arith [OF bmfs_dev_nvs [OF dev] fok]
  have p: "unat (write_pos ?f) < 2 ^ 63" using so ar(5) by (auto simp: write_pos_def slot_ok_def)
  then have nowrap: "unat (write_pos ?f) + unat len < 2 ^ 64" using sint_nonneg_unat(2) [OF len] by simp
  have fr: "write_frame sec (512 * nblk) i (f_base ?f + unat (write_pos ?f)) (write_count ?f len) s s'"
    using bmfs_write_cases [OF bmfs_dev_nvs [OF dev] inv_tables_wf [OF inv] fd fok nowrap, of buf] res by auto
  have same: "disk_at sec (kern s') x = disk_at sec (kern s) x"
    if "x < f_base ?f \<or> f_base ?f + f_cap ?f \<le> x" "x < nblk * BLOCK" for x
  proof -
    have "x < 512 * nblk * 4096" using that(2) by (simp add: BLOCK_def)
    moreover have "x < f_base ?f + unat (write_pos ?f) \<or>
        f_base ?f + unat (write_pos ?f) + write_count ?f len \<le> x"
      using that(1) by (auto simp: write_count_def)
    ultimately show ?thesis using fr unfolding write_frame_def by blast
  qed
  obtain z q d where files': "files s' = (files s)[i := ?f\<lparr>f_size := z, f_dirty := d, f_pos := q\<rparr>]"
    using fr unfolding write_frame_def by blast
  have len_fs: "length (files s) = 8" using tables_wf_files [OF inv_tables_wf [OF inv]] .
  have dir': "dir s' = dir s" "dir_loaded s'" using fr so by (auto simp: write_frame_def)
  show "fd_name s' i = fd_name s i" using files' dir' len_fs i by (simp add: fd_name_def)
  show "bmfs_is_fd fd s'" using bmfs_is_fd_slot(1) [OF i(1), of s'] i files' len_fs used by simp
  have range: "disk_range sec (kern s') (unat (d_start_block e) * BLOCK) n = disk_range sec (kern s) (unat (d_start_block e) * BLOCK) n"
    if e: "extent_ok nblk e" "apart e ?e" "n \<le> unat (d_reserved_blocks e) * BLOCK" for e n
  proof (rule disk_range_cong)
    fix x assume x: "unat (d_start_block e) * BLOCK \<le> x" "x < unat (d_start_block e) * BLOCK + n"
    have "x < d_end e * BLOCK" using x(2) e(3) by (simp add: d_end_def add_mult_distrib)
    moreover have "f_base ?f = unat (d_start_block ?e) * BLOCK" "f_base ?f + f_cap ?f = d_end ?e * BLOCK"
      using so by (auto simp: slot_ok_def fd_live_def f_base_def f_cap_def d_end_def add_mult_distrib)
    moreover have "d_end e * BLOCK \<le> unat (d_start_block ?e) * BLOCK \<or> d_end ?e * BLOCK \<le> unat (d_start_block e) * BLOCK"
      using e(2) by (auto simp: apart_def)
    ultimately have "x < f_base ?f \<or> f_base ?f + f_cap ?f \<le> x" "x < nblk * BLOCK"
      using x(1) entry_range(3) [OF dev e(1)] by linarith+
    then show "disk_at sec (kern s') x = disk_at sec (kern s) x" by (rule same)
  qed
  have d: "dir_ok nblk (dir s)" using inv_dir_ok [OF inv] so by (simp add: cur_dir_loaded)
  have other: "extent_ok nblk (dir s ! j) \<and> apart (dir s ! j) ?e"
    if "j < 64" "d_live (dir s ! j)" "fname (dir s ! j) \<noteq> fd_name s i" for j
    using dir_ok_extent [OF d that(1,2)] dir_ok_apart [OF d that(1), of "f_dir_index ?f"] that so
    by (auto simp: fd_name_def slot_ok_def fd_live_def)
  show "disk_files sec (kern s') nm = disk_files sec (kern s) nm" if nm: "nm \<noteq> fd_name s i" for nm
  proof (cases "lookup (dir s) nm")
    case None
    then show ?thesis using disk_files_inv [OF dev inv] disk_files_inv [OF dev inv'] dir' so
      by (simp add: cur_dir_loaded files_of_def)
  next
    case (Some j)
    then have j: "extent_ok nblk (dir s ! j) \<and> apart (dir s ! j) ?e" using other [of j] nm Some unfolding lookup_Some_iff [OF d] by simp
    then have "unat (d_size (dir s ! j)) \<le> unat (d_reserved_blocks (dir s ! j)) * BLOCK" by (simp add: extent_ok_def)
    then show ?thesis using Some range j disk_files_inv [OF dev inv] disk_files_inv [OF dev inv'] dir' so
      by (simp add: cur_dir_loaded files_of_def entry_data_def)
  qed
  show "abs_file sec s' j = abs_file sec s j"
    if j: "j < 8" "f_used (files s ! j)" "fd_name s j \<noteq> fd_name s i" for j
  proof -
    have "j \<noteq> i" using j(3) by auto
    then have fj: "files s' ! j = files s ! j" using files' by simp
    have "slot_ok (dir s) (files s ! j)" using inv_slot [OF inv j(1,2)] by simp
    then have l: "fd_live (dir s) (files s ! j)" by (simp add: slot_ok_def)
    then have "extent_ok nblk (dir s ! f_dir_index (files s ! j)) \<and> apart (dir s ! f_dir_index (files s ! j)) ?e"
      using other j(3) by (auto simp: fd_live_def fd_name_def)
    then show ?thesis using range [of "dir s ! f_dir_index (files s ! j)"] l fj
      by (auto simp: abs_file_def Let_def fd_live_def f_base_def f_cap_def)
  qed
qed

end
