(* ===== verification/BM_Bmfs_Props.thy ===== *)
theory BM_Bmfs_Props
  imports BM_Bmfs_Fs
begin

text \<open>
  The correctness properties of BMFS over the stored files, and a concrete disk on which their
  hypotheses hold.
\<close>

section \<open>Opening and reading a stored file\<close>

lemma disk_files_same:
  assumes "sec k' = sec k"
  shows "disk_files sec k' = disk_files sec k"
proof -
  have "disk_at sec k' = disk_at sec k" using assms by (simp add: disk_at_def fun_eq_iff)
  then show ?thesis using assms by (intro ext) (simp add: disk_files_def files_of_def entry_data_def disk_range_def)
qed

lemma open_files:
  assumes dev: "bmfs_dev K sec nblk" and inv: "bmfs_inv sec nblk s"
    and nm: "valid_name (path_name (mem s) path)"
    and slot: "first_idx (\<lambda>f. \<not> f_used f) (files s) = Some slot"
    and old: "disk_files sec (kern s) (path_name (mem s) path) = Some bs"
    and noexcl: "flags AND O_CREAT = 0 \<or> flags AND O_EXCL = 0"
  defines "bs' \<equiv> (if flags AND O_TRUNC \<noteq> 0 then [] else bs)"
  shows "\<exists>s'. bmfs_open K path flags mode s = (3 + of_nat slot, s') \<and> bmfs_inv sec nblk s' \<and>
    disk_files sec (kern s') = (disk_files sec (kern s))(path_name (mem s) path \<mapsto> bs') \<and>
    bmfs_is_fd (3 + of_nat slot) s' \<and> fd_name s' slot = path_name (mem s) path \<and> mem s' = mem s \<and>
    a_data (abs_file sec s' slot) = bs' \<and>
    f_pos (files s' ! slot) = (if flags AND O_APPEND \<noteq> 0 then of_nat (length bs') else 0)"
proof -
  let ?d = "cur_dir sec s" and ?nm = "path_name (mem s) path"
  obtain di where di: "lookup ?d ?nm = Some di" using old disk_files_None_iff [OF dev inv, of ?nm] by (cases "lookup ?d ?nm") auto
  note d = inv_dir_ok [OF inv]
  have len: "length ?d = 64" using d by (rule dir_ok_length)
  have di': "di < 64" "d_live (?d ! di)" "fname (?d ! di) = ?nm" using di lookup_Some_iff [OF d] by auto
  have bs: "bs = entry_data sec (kern s) (?d ! di)" using old di disk_files_inv [OF dev inv] by (simp add: files_of_def)
  define e where "e = (if flags AND O_TRUNC \<noteq> 0 then (?d ! di)\<lparr>d_size := 0\<rparr> else ?d ! di)"
  have e: "d_live e" "fname e = ?nm" using di' by (auto simp: e_def d_live_def fname_def)
  have eb: "entry_data sec (kern s) e = bs'" by (auto simp: e_def bs'_def bs entry_data_def disk_range_def)
  obtain s' where s': "bmfs_open K path flags mode s = (3 + of_nat slot, s')" "bmfs_inv sec nblk s'"
    "dir s' = ?d[di := e]" "dir_loaded s'" "mem s' = mem s" "files s' = (files s)[slot := open_file flags di e]"
    "\<forall>n. n \<noteq> 1 \<longrightarrow> sec (kern s') n = sec (kern s) n"
    using bmfs_open_existing [OF dev inv nm slot di [unfolded lookup_def] noexcl, of mode] unfolding e_def by blast
  have cd: "cur_dir sec s' = ?d[di := e]" using s' by (simp add: cur_dir_loaded)
  have "disk_files sec (kern s') n = ((disk_files sec (kern s))(?nm \<mapsto> bs')) n" for n
  proof -
    have "lookup ?d n = Some di \<longleftrightarrow> n = ?nm" using di' by (auto simp: lookup_Some_iff [OF d])
    then show ?thesis unfolding disk_files_replace [OF dev inv s'(2) cd di'(1) s'(7), of n] using e eb by auto
  qed
  moreover have sl: "slot < 8" "slot < length (files s)"
    using slot tables_wf_files [OF inv_tables_wf [OF inv]] by (auto simp: first_idx_Some_iff)
  moreover have f: "files s' ! slot = open_file flags di e" using sl s'(6) by simp
  moreover have "a_data (abs_file sec s' slot) = bs'"
  proof -
    have ok: "extent_ok nblk e" using dir_ok_extent [OF inv_dir_ok [OF s'(2)] di'(1)] cd len di' e by simp
    then have "unat (d_size e) \<le> unat (d_reserved_blocks e) * BLOCK" by (simp add: extent_ok_def)
    then have "a_data (abs_file sec s' slot) = entry_data sec (kern s') e"
      using f by (auto simp: a_data_def abs_file_def Let_def open_file_def f_base_def f_cap_def entry_data_def
          disk_range_def take_map take_upt min_def)
    then show ?thesis using entry_data_frame [OF dev ok s'(7)] eb by simp
  qed
  moreover have "length bs' = unat (d_size e)" using eb by (auto simp: entry_data_def)
  ultimately show ?thesis
    using s' e len di' bmfs_is_fd_slot(1) [OF sl(1), of s']
    by (intro exI [of _ s']) (auto simp: fd_name_def open_file_def Let_def)
qed

text \<open>A read through a descriptor, over the invariant.\<close>

lemma inv_read:
  assumes dev: "bmfs_dev K sec nblk" and inv: "bmfs_inv sec nblk s" and fd: "fd_index fd = Some i"
    and used: "f_used (files s ! i)" and len: "0 \<le> sint len"
    and spec: "spec_read (unat len) (abs_file sec s i) = (bs, a')"
  obtains s' where "bmfs_read K fd buf len s = Some (of_nat (length bs), s')"
    "mem s' = mem_write (mem s) buf bs" "abs_file sec s' i = a'" "sec (kern s') = sec (kern s)"
    "bmfs_inv sec nblk s'"
    "files s' = (files s)[i := (files s ! i)\<lparr>f_pos := f_pos (files s ! i) + of_nat (length bs)\<rparr>]"
proof -
  have i: "i < 8" "fd = 3 + of_nat i" using fd by (auto simp: fd_index_Some_iff)
  have so: "slot_ok (dir s) (files s ! i)" using inv_slot [OF inv i(1) used] by auto
  have isfd: "bmfs_is_fd fd s" using bmfs_is_fd_slot(1) [OF i(1), of s] i used by simp
  have nowrap: "unat (f_pos (files s ! i)) + unat len < 2 ^ 64"
    using sint_nonneg_unat(2) [OF len] so by (auto simp: slot_ok_def)
  obtain s' where s': "bmfs_read K fd buf len s = Some (of_nat (length bs), s')"
    "mem s' = mem_write (mem s) buf bs" "abs_file sec s' i = a'" "sec (kern s') = sec (kern s)"
    "files s' = (files s)[i := (files s ! i)\<lparr>f_pos := f_pos (files s ! i) + of_nat (length bs)\<rparr>]"
    using bmfs_read_refines [OF bmfs_dev_nvs [OF dev] inv_tables_wf [OF inv] fd inv_file_ok [OF inv i(1) used] nowrap spec]
    by metis
  then show ?thesis using that bmfs_read_inv [OF dev inv isfd len s'(1)] by blast
qed

text \<open>A write through a descriptor, over the invariant.\<close>

lemma inv_write:
  fixes buf :: addr
  assumes dev: "bmfs_dev K sec nblk" and inv: "bmfs_inv sec nblk s" and fd: "fd_index fd = Some i"
    and used: "f_used (files s ! i)" and len: "0 \<le> sint len"
  defines "w \<equiv> spec_write (mem_read (mem s) buf (unat len)) (abs_file sec s i)"
  obtains r s' where "bmfs_write K fd buf len s = Some (r, s')" "mem s' = mem s"
    "case w of None \<Rightarrow> r = - ENOSPC \<and> a_data (abs_file sec s' i) = a_data (abs_file sec s i)
     | Some (n, a') \<Rightarrow> r = of_nat n \<and> abs_file sec s' i = a'"
    "write_frame sec (512 * nblk) i (f_base (files s ! i) + unat (write_pos (files s ! i)))
       (write_count (files s ! i) len) s s'"
proof -
  have i: "i < 8" using fd by (auto simp: fd_index_Some_iff)
  have fok: "file_ok (512 * nblk) (files s ! i)" by (rule inv_file_ok [OF inv i used])
  have "unat (write_pos (files s ! i)) < 2 ^ 63"
    using inv_slot [OF inv i used] file_ok_arith(5) [OF bmfs_dev_nvs [OF dev] fok]
    by (auto simp: write_pos_def slot_ok_def)
  then have nowrap: "unat (write_pos (files s ! i)) + unat len < 2 ^ 64" using sint_nonneg_unat(2) [OF len] by simp
  let ?m = "write_count (files s ! i) len"
  obtain s' where s': "bmfs_write K fd buf len s = Some (if ?m = 0 then - ENOSPC else of_nat ?m, s')"
    and fr: "write_frame sec (512 * nblk) i (f_base (files s ! i) + unat (write_pos (files s ! i))) ?m s s'"
    and ab: "?m \<noteq> 0 \<Longrightarrow> w = Some (?m, abs_file sec s' i)"
    and z: "?m = 0 \<Longrightarrow> w = None \<and> abs_file sec s' i = (abs_file sec s i)\<lparr>a_pos := unat (write_pos (files s ! i))\<rparr>"
    using bmfs_write_cases [OF bmfs_dev_nvs [OF dev] inv_tables_wf [OF inv] fd fok nowrap, of buf]
    unfolding w_def spec_write_abs_file Let_def by auto
  have "mem s' = mem s" using fr by (simp add: write_frame_def)
  then show ?thesis
    using that [OF s' _ _ fr] ab z by (cases "?m = 0") (auto simp: a_data_def)
qed

section \<open>A concrete disk\<close>

text \<open>
  A simulated disk of four blocks with the directory \<open>d\<close> in sector 1 and data sectors full of the
  byte 7, and a path \<^verbatim>\<open>"A"\<close> at address \<open>0x1000\<close> in memory.
\<close>

definition demo_entry :: bmfs_dirent where
  "demo_entry = \<lparr>d_name = 0x41 # replicate 31 0, d_start_block = 1, d_reserved_blocks = 1, d_size = 3, d_unused = 0\<rparr>"

definition demo_empty :: "bmfs_dirent list" where
  "demo_empty = replicate 64 empty_dirent"

definition demo_dir :: "bmfs_dirent list" where
  "demo_dir = demo_empty[0 := demo_entry]"

definition demo_closed :: bmfs_file where
  "demo_closed = \<lparr>f_used = False, f_dirty = False, f_append = False, f_dir_index = 0, f_start_block = 0,
     f_reserved_blocks = 0, f_size = 0, f_pos = 0\<rparr>"

definition demo :: "bool \<Rightarrow> bmfs_dirent list \<Rightarrow> bmfs_file list \<Rightarrow> sim bmfs" where
  "demo ld d fs = \<lparr>mem = (\<lambda>a. if a = 0x1000 then 0x41 else 0),
     kern = sim_blank\<lparr>sim_sec := (\<lambda>n. if n = 1 then encode_dir d else replicate 4096 7)\<rparr>,
     dir = d, dir_loaded = ld, files = fs, scratch = replicate 4096 0\<rparr>"

abbreviation demo_fds :: "bmfs_file list" where
  "demo_fds \<equiv> replicate 8 demo_closed"

lemma demo_dev: "bmfs_dev sim_kernel sim_view 4"
  by (simp add: bmfs_dev_def sim_nvs_ok)

lemma demo_sec: "dir_wf d \<Longrightarrow> sim_view (kern (demo ld d fs)) 1 = encode_dir d"
  by (simp add: demo_def sim_view_def len_simps)

lemma demo_data: "n \<noteq> 1 \<Longrightarrow> sim_view (kern (demo ld d fs)) n = replicate 4096 7"
  by (simp add: demo_def sim_view_def)

lemma demo_cur_dir: "dir_wf d \<Longrightarrow> cur_dir sim_view (demo ld d fs) = d"
  using demo_sec [of d ld fs] by (simp add: cur_dir_def codec_simps) (simp add: demo_def)

lemma demo_path: "path_name (mem (demo ld d fs)) 0x1000 = [0x41]"
  by (simp add: demo_def path_name_def bmfs_name_def at_def cstr_def upt_rec)

lemma demo_valid: "valid_name [0x41]"
  by (simp add: valid_name_def)

lemma demo_empty_ok: "dir_ok 4 demo_empty"
  by (auto simp: dir_ok_def demo_empty_def dir_wf_def bmfs_consts)

lemma demo_dir_ok: "dir_ok 4 demo_dir"
  unfolding demo_dir_def
proof (rule dir_ok_update [OF demo_empty_ok])
  show "dirent_wf demo_entry" by (simp add: dirent_wf_def demo_entry_def)
  show "extent_ok 4 demo_entry" by (simp add: extent_ok_def demo_entry_def d_end_def BLOCK_def)
qed (auto simp: demo_empty_def)

lemma demo_next: "dir_next_free_block demo_empty = 1"
proof -
  have "next_free_loop (replicate n empty_dirent) x = x" for n x
    by (induction n) (simp_all add: empty_dirent_def)
  then show ?thesis by (simp add: demo_empty_def dir_next_free_block_def bmfs_consts)
qed

lemma demo_inv:
  assumes "dir_ok 4 d" and "length fs = 8" and "\<And>f. f \<in> set fs \<Longrightarrow> f_used f \<Longrightarrow> slot_ok d f"
  shows "bmfs_inv sim_view 4 (demo True d fs)"
proof -
  have wf: "dir_wf d" using assms(1) by (rule dir_ok_wf)
  show ?thesis
    using assms wf demo_sec [OF wf] demo_cur_dir [OF wf, of True fs]
    by (auto simp: bmfs_inv_def tables_wf_def bmfs_consts) (auto simp: demo_def)
qed

lemma demo_free_slot: "first_idx (\<lambda>f. \<not> f_used f) (files (demo ld d demo_fds)) = Some 0"
  by (simp add: demo_def first_idx_Some_iff demo_closed_def)

text \<open>One descriptor open on the file \<^verbatim>\<open>"A"\<close>.\<close>

definition demo_open :: "bmfs_file list" where
  "demo_open = demo_fds[0 := open_file 0 0 demo_entry]"

lemma demo_live0: "demo_dir ! 0 = demo_entry" "d_live demo_entry" "fname demo_entry = [0x41]"
proof -
  show "demo_dir ! 0 = demo_entry" by (simp add: demo_dir_def demo_empty_def)
  show "d_live demo_entry" by (simp add: demo_entry_def d_live_def)
  show "fname demo_entry = [0x41]"
    using cstr_nth_pad [of "[0x41]" 32] by (simp add: fname_def demo_entry_def)
qed

lemma demo_open_slot: "slot_ok demo_dir (open_file 0 0 demo_entry)"
  using demo_live0 by (simp add: slot_ok_def fd_live_def open_file_def) (simp add: demo_entry_def f_cap_def BLOCK_def)

lemma demo_open_inv: "bmfs_inv sim_view 4 (demo True demo_dir demo_open)"
  using demo_open_slot by (intro demo_inv [OF demo_dir_ok])
    (auto simp: demo_open_def demo_closed_def set_update_subset_insert [THEN subsetD] dest!: set_update_subset_insert [THEN subsetD])

lemma demo_open_fd: "bmfs_is_fd 3 (demo True demo_dir demo_open)"
  by (simp add: bmfs_is_fd_def bmfs_consts demo_def demo_open_def open_file_def)

lemma demo_closed_inv: "dir_ok 4 d \<Longrightarrow> bmfs_inv sim_view 4 (demo True d demo_fds)"
  by (rule demo_inv) (auto simp: demo_closed_def)

lemma demo_files: "disk_files sim_view (kern (demo True demo_dir demo_fds)) [0x41] = Some [7, 7, 7]"
proof -
  let ?s = "demo True demo_dir demo_fds"
  have "lookup (cur_dir sim_view ?s) [0x41] = Some 0"
    using demo_live0 by (simp add: demo_cur_dir [OF dir_ok_wf [OF demo_dir_ok]] lookup_Some_iff [OF demo_dir_ok])
  moreover have "entry_data sim_view (kern ?s) demo_entry = [7, 7, 7]"
    by (simp add: entry_data_def demo_entry_def disk_range_def BLOCK_def upt_rec disk_at_def demo_data)
  ultimately show ?thesis
    using disk_files_inv [OF demo_dev demo_closed_inv [OF demo_dir_ok]] demo_live0
    by (simp add: files_of_def demo_cur_dir [OF dir_ok_wf [OF demo_dir_ok]])
qed

lemma demo_no_files: "disk_files sim_view (kern (demo True demo_empty demo_fds)) nm = None"
  unfolding disk_files_inv [OF demo_dev demo_closed_inv [OF demo_empty_ok]] files_of_def
    demo_cur_dir [OF dir_ok_wf [OF demo_empty_ok]]
  by (simp add: lookup_def first_idx_None_iff demo_empty_def)

section \<open>Storing and loading a file\<close>

lemma fd_slot_index: "slot < 8 \<Longrightarrow> fd_index (3 + of_nat slot) = Some slot"
  by (rule bmfs_is_fd_slot)

lemma free_slot_less: "bmfs_inv sec nblk s \<Longrightarrow> first_idx (\<lambda>f. \<not> f_used f) (files s) = Some slot \<Longrightarrow> slot < 8"
  using tables_wf_files [OF inv_tables_wf] by (fastforce simp: first_idx_Some_iff)

text \<open>Writing to an empty file at its start.\<close>

lemma spec_write_empty:
  assumes "a_size a = 0" and "a_pos a = 0" and "bs \<noteq> []" and "length bs \<le> length (a_ext a)"
  shows "\<exists>a'. spec_write bs a = Some (length bs, a') \<and> a_data a' = bs \<and> a_size a' = length bs"
  using assms by (auto simp: spec_write_def Let_def a_data_def splice_def)

text \<open>
  C1. Storing a new file: when the name is valid and not taken, and a descriptor, a directory entry
  and a block are free, then open with O_CREAT, one write of up to a block and close succeed, and the
  disk then holds the file with exactly the bytes written; no other stored file changes.
\<close>

theorem store_file:
  assumes dev: "bmfs_dev K sec nblk" and inv: "bmfs_inv sec nblk s"
    and nm: "valid_name (path_name (mem s) path)"
    and slot: "first_idx (\<lambda>f. \<not> f_used f) (files s) = Some slot"
    and new: "disk_files sec (kern s) (path_name (mem s) path) = None"
    and creat: "flags AND O_CREAT \<noteq> 0"
    and free: "\<exists>e \<in> set (cur_dir sec s). \<not> d_live e"
    and room: "unat (dir_next_free_block (cur_dir sec s)) < nblk"
    and len: "len \<noteq> 0" "unat len \<le> BLOCK"
  shows "\<exists>fd s1 s2 s3. bmfs_open K path flags mode s = (fd, s1) \<and>
    bmfs_write K fd buf len s1 = Some (len, s2) \<and> bmfs_close K fd s2 = Some (0, s3) \<and>
    bmfs_inv sec nblk s3 \<and>
    disk_files sec (kern s3) =
      (disk_files sec (kern s))(path_name (mem s) path \<mapsto> mem_read (mem s) buf (unat len))"
proof -
  let ?fd = "3 + of_nat slot :: slong" and ?nm = "path_name (mem s) path" and ?bs = "mem_read (mem s) buf (unat len)"
  obtain s1 where s1: "bmfs_open K path flags mode s = (?fd, s1)" "bmfs_inv sec nblk s1"
    "disk_files sec (kern s1) = (disk_files sec (kern s))(?nm \<mapsto> [])" "bmfs_is_fd ?fd s1"
    "fd_name s1 slot = ?nm" "mem s1 = mem s" "f_size (files s1 ! slot) = 0" "f_pos (files s1 ! slot) = 0"
    "f_cap (files s1 ! slot) = BLOCK"
    using create_files [OF dev inv nm slot new creat free room, of mode] by blast
  have sl: "slot < 8" using free_slot_less [OF inv slot] .
  have idx: "fd_index ?fd = Some slot" using fd_slot_index [OF sl] .
  have used: "f_used (files s1 ! slot)" using s1(4) bmfs_is_fd_slot(1) [OF sl, of s1] by simp
  have len': "0 \<le> sint len" using len(2) sint_small [of len] by (simp add: BLOCK_def)
  obtain a' where a': "spec_write ?bs (abs_file sec s1 slot) = Some (unat len, a')" "a_data a' = ?bs" "a_size a' = unat len"
  proof -
    have "?bs \<noteq> []" using len(1) by (simp add: mem_read_def unat_gt_0)
    then show ?thesis using that spec_write_empty [of "abs_file sec s1 slot" ?bs] s1 len(2)
      by (auto simp: abs_file_def Let_def)
  qed
  obtain r s2 where w: "bmfs_write K ?fd buf len s1 = Some (r, s2)" "mem s2 = mem s1" "r = len" "abs_file sec s2 slot = a'"
    by (rule inv_write [OF dev s1(2) idx used len', of buf]) (use a' s1(6) in auto)
  note wf = write_files [OF dev s1(2) idx used len' w(1)]
  have used2: "f_used (files s2 ! slot)" using wf(3) bmfs_is_fd_slot(1) [OF sl, of s2] by simp
  have "f_size (files s2 ! slot) \<noteq> f_size (files s1 ! slot)"
  proof -
    have "0 < unat len" using len(1) by (simp add: unat_gt_0)
    then show ?thesis using a'(3) w(4) s1(7) by (auto simp: abs_file_def Let_def)
  qed
  then have dirty: "f_dirty (files s2 ! slot)"
    using bmfs_write_dirty [OF w(1) idx tables_wf_files [OF inv_tables_wf [OF s1(2)]]] by simp
  obtain s3 where s3: "bmfs_close K ?fd s2 = Some (0, s3)" "bmfs_inv sec nblk s3"
    "disk_files sec (kern s3) = (disk_files sec (kern s2))(?nm \<mapsto> ?bs)"
    using close_files [OF dev wf(1) idx used2] dirty wf(2) s1(5) w(4) a'(2) by auto
  have "disk_files sec (kern s3) = (disk_files sec (kern s))(?nm \<mapsto> ?bs)"
    using wf(4) s1(3,5) s3(3) by (auto simp: fun_eq_iff)
  then show ?thesis using s1(1) w s3 by blast
qed

theorem store_file_witness:
  "\<exists>fd s1 s2 s3. bmfs_open sim_kernel 0x1000 0x40 0 (demo True demo_empty demo_fds) = (fd, s1) \<and>
    bmfs_write sim_kernel fd 0x0FFE 5 s1 = Some (5, s2) \<and> bmfs_close sim_kernel fd s2 = Some (0, s3) \<and>
    bmfs_inv sim_view 4 s3 \<and>
    disk_files sim_view (kern s3) =
      (disk_files sim_view (kern (demo True demo_empty demo_fds)))([0x41] \<mapsto> [0, 0, 0x41, 0, 0])"
proof -
  let ?s = "demo True demo_empty demo_fds"
  have bs: "mem_read (mem ?s) 0x0FFE (unat (5 :: u64)) = [0, 0, 0x41, 0, 0]"
    by (simp add: demo_def mem_read_def upt_rec)
  have free: "\<exists>e \<in> set demo_empty. \<not> d_live e" by (simp add: demo_empty_def)
  show ?thesis
    using store_file [of sim_kernel sim_view 4 ?s "0x1000" 0 "0x40" 5 0 "0x0FFE", OF demo_dev demo_closed_inv [OF demo_empty_ok],
        unfolded demo_path demo_cur_dir [OF dir_ok_wf [OF demo_empty_ok]], OF demo_valid demo_free_slot demo_no_files _ free] bs
    by (simp add: demo_next BLOCK_def)
qed

text \<open>
  C2. Loading a stored file: open without O_TRUNC, O_APPEND and without O_CREAT together with O_EXCL,
  then one read with a length that covers the file, delivers exactly the stored bytes into the
  caller's buffer, returns their number, and changes no stored file.
\<close>

theorem load_file:
  assumes dev: "bmfs_dev K sec nblk" and inv: "bmfs_inv sec nblk s"
    and nm: "valid_name (path_name (mem s) path)"
    and slot: "first_idx (\<lambda>f. \<not> f_used f) (files s) = Some slot"
    and old: "disk_files sec (kern s) (path_name (mem s) path) = Some bs"
    and flags: "flags AND O_TRUNC = 0" "flags AND O_APPEND = 0" "flags AND O_CREAT = 0 \<or> flags AND O_EXCL = 0"
    and len: "0 \<le> sint len" "length bs \<le> unat len"
  shows "\<exists>fd s1 s2. bmfs_open K path flags mode s = (fd, s1) \<and>
    bmfs_read K fd buf len s1 = Some (of_nat (length bs), s2) \<and> mem s2 = mem_write (mem s) buf bs \<and>
    bmfs_inv sec nblk s2 \<and> disk_files sec (kern s2) = disk_files sec (kern s)"
proof -
  let ?fd = "3 + of_nat slot :: slong" and ?nm = "path_name (mem s) path"
  obtain s1 where s1: "bmfs_open K path flags mode s = (?fd, s1)" "bmfs_inv sec nblk s1"
    "disk_files sec (kern s1) = disk_files sec (kern s)" "bmfs_is_fd ?fd s1" "mem s1 = mem s"
    "a_data (abs_file sec s1 slot) = bs" "f_pos (files s1 ! slot) = 0"
    using open_files [OF dev inv nm slot old flags(3), of mode] flags old by (auto simp: map_upd_triv)
  have sl: "slot < 8" using free_slot_less [OF inv slot] .
  have used: "f_used (files s1 ! slot)" using s1(4) bmfs_is_fd_slot(1) [OF sl, of s1] by simp
  have "spec_read (unat len) (abs_file sec s1 slot) = (bs, (abs_file sec s1 slot)\<lparr>a_pos := length bs\<rparr>)"
    using s1(6,7) len(2) by (simp add: spec_read_def Let_def abs_file_def)
  then obtain s2 where "bmfs_read K ?fd buf len s1 = Some (of_nat (length bs), s2)"
    "mem s2 = mem_write (mem s1) buf bs" "sec (kern s2) = sec (kern s1)" "bmfs_inv sec nblk s2"
    using inv_read [OF dev s1(2) fd_slot_index [OF sl] used len(1)] by metis
  moreover from this have "disk_files sec (kern s2) = disk_files sec (kern s1)"
    by (intro disk_files_same)
  ultimately show ?thesis using s1 by metis
qed

theorem load_file_witness:
  "\<exists>fd s1 s2. bmfs_open sim_kernel 0x1000 0 0 (demo True demo_dir demo_fds) = (fd, s1) \<and>
    bmfs_read sim_kernel fd 0x2000 10 s1 = Some (3, s2) \<and>
    mem s2 = mem_write (mem (demo True demo_dir demo_fds)) 0x2000 [7, 7, 7] \<and>
    bmfs_inv sim_view 4 s2 \<and> disk_files sim_view (kern s2) = disk_files sim_view (kern (demo True demo_dir demo_fds))"
  using load_file [of sim_kernel sim_view 4 "demo True demo_dir demo_fds" "0x1000" 0 "[7, 7, 7]" 0 10 0 "0x2000",
      OF demo_dev demo_closed_inv [OF demo_dir_ok], unfolded demo_path, OF demo_valid demo_free_slot demo_files]
  by simp

text \<open>
  C3. Every state the API can reach from a well-formed disk, under the discipline of the step
  relation, satisfies the invariant: file names are unique, extents are disjoint and on the disk,
  the directory in memory equals the directory sector, and every open descriptor refers to a live
  entry with the same extent and a size within it.
\<close>

theorem bmfs_reachable_inv:
  assumes "bmfs_dev K sec nblk" and "bmfs_reach K sec nblk s"
  shows "bmfs_inv sec nblk s"
  using assms by (rule bmfs_reach_inv)

theorem bmfs_reachable_inv_witness:
  "bmfs_inv sim_view 4 (snd (bmfs_open sim_kernel 0x1000 0x40 0 (demo False demo_empty demo_fds)))"
proof (rule bmfs_reachable_inv [OF demo_dev reach_step])
  let ?s = "demo False demo_empty demo_fds"
  note wf = dir_ok_wf [OF demo_empty_ok]
  show "bmfs_reach sim_kernel sim_view 4 ?s"
  proof (rule reach_init)
    show "dir_ok 4 (decode_dir (sim_view (kern ?s) 1))"
      by (simp add: demo_sec [OF wf] decode_encode_dir [OF wf] demo_empty_ok)
    show "dir_wf (dir ?s)" using wf by (simp add: demo_def)
  qed (simp_all add: demo_def tables_wf_def bmfs_consts demo_closed_def)
  show "bmfs_step sim_kernel sim_view 4 ?s (snd (bmfs_open sim_kernel 0x1000 0x40 0 ?s))"
  proof (rule step_open)
    show "unat (dir_next_free_block (cur_dir sim_view ?s)) < 4"
      by (simp add: demo_cur_dir [OF wf] demo_next)
    show "bmfs_open sim_kernel 0x1000 0x40 0 ?s = (fst (bmfs_open sim_kernel 0x1000 0x40 0 ?s), snd (bmfs_open sim_kernel 0x1000 0x40 0 ?s))"
      by simp
  qed
qed

text \<open>
  C5. A write through an open descriptor is the abstract write on that file (as many bytes as fit the
  extent, at the position or, with O_APPEND, at the end; -ENOSPC when none fits), and it changes
  neither another stored file nor what another file's descriptors see.
\<close>

theorem bmfs_write_refines:
  assumes dev: "bmfs_dev K sec nblk" and inv: "bmfs_inv sec nblk s" and fd: "bmfs_is_fd fd s" and len: "0 \<le> sint len"
  shows "\<exists>i r s'. fd_index fd = Some i \<and> bmfs_write K fd buf len s = Some (r, s') \<and> bmfs_inv sec nblk s' \<and>
    (case spec_write (mem_read (mem s) buf (unat len)) (abs_file sec s i) of
       None \<Rightarrow> r = - ENOSPC \<and> a_data (abs_file sec s' i) = a_data (abs_file sec s i)
     | Some (n, a') \<Rightarrow> r = of_nat n \<and> abs_file sec s' i = a') \<and>
    mem s' = mem s \<and>
    (\<forall>nm. nm \<noteq> fd_name s i \<longrightarrow> disk_files sec (kern s') nm = disk_files sec (kern s) nm) \<and>
    (\<forall>j < 8. f_used (files s ! j) \<longrightarrow> fd_name s j \<noteq> fd_name s i \<longrightarrow> abs_file sec s' j = abs_file sec s j)"
proof -
  obtain i where i: "i < 8" "fd_index fd = Some i" "f_used (files s ! i)" using fd by (rule bmfs_is_fdE)
  obtain r s' where w: "bmfs_write K fd buf len s = Some (r, s')" "mem s' = mem s"
    "case spec_write (mem_read (mem s) buf (unat len)) (abs_file sec s i) of
       None \<Rightarrow> r = - ENOSPC \<and> a_data (abs_file sec s' i) = a_data (abs_file sec s i)
     | Some (n, a') \<Rightarrow> r = of_nat n \<and> abs_file sec s' i = a'"
    by (rule inv_write [OF dev inv i(2,3) len, of buf])
  show ?thesis using i(2) w write_files [OF dev inv i(2,3) len w(1)] by blast
qed

theorem bmfs_write_refines_witness:
  "\<exists>r s'. bmfs_write sim_kernel 3 0x0FFE 5 (demo True demo_dir demo_open) = Some (r, s') \<and> bmfs_inv sim_view 4 s'"
  using bmfs_write_refines [OF demo_dev demo_open_inv demo_open_fd, of 5 "0x0FFE"] by auto

text \<open>
  C8. A read through an open descriptor is the abstract read: it delivers the bytes from the position
  to the end of the file, at most as many as asked for, advances the position by their number, and
  leaves the disk as it was.
\<close>

theorem bmfs_read_spec:
  assumes dev: "bmfs_dev K sec nblk" and inv: "bmfs_inv sec nblk s" and fd: "bmfs_is_fd fd s" and len: "0 \<le> sint len"
  shows "\<exists>i s' bs a'. fd_index fd = Some i \<and> spec_read (unat len) (abs_file sec s i) = (bs, a') \<and>
    bmfs_read K fd buf len s = Some (of_nat (length bs), s') \<and> mem s' = mem_write (mem s) buf bs \<and>
    abs_file sec s' i = a' \<and> sec (kern s') = sec (kern s) \<and> bmfs_inv sec nblk s'"
proof -
  obtain i where i: "i < 8" "fd_index fd = Some i" "f_used (files s ! i)" using fd by (rule bmfs_is_fdE)
  obtain bs a' where sp: "spec_read (unat len) (abs_file sec s i) = (bs, a')" by (metis prod.exhaust)
  show ?thesis using i sp by (blast intro: inv_read [OF dev inv i(2,3) len sp])
qed

theorem bmfs_read_spec_witness:
  "\<exists>r s'. bmfs_read sim_kernel 3 0x2000 10 (demo True demo_dir demo_open) = Some (r, s') \<and>
    sim_view (kern s') = sim_view (kern (demo True demo_dir demo_open)) \<and> bmfs_inv sim_view 4 s'"
  using bmfs_read_spec [OF demo_dev demo_open_inv demo_open_fd, of 10 "0x2000"] by auto

text \<open>
  C16. Unlinking a stored file that no descriptor has open removes exactly that file from the disk.
\<close>

theorem bmfs_unlink_removes:
  assumes "bmfs_dev K sec nblk" and "bmfs_inv sec nblk s"
    and "disk_files sec (kern s) (path_name (mem s) path) \<noteq> None"
    and "\<forall>i < 8. f_used (files s ! i) \<longrightarrow> fd_name s i \<noteq> path_name (mem s) path"
  shows "\<exists>s'. bmfs_unlink K path s = (0, s') \<and> bmfs_inv sec nblk s' \<and>
    disk_files sec (kern s') = (disk_files sec (kern s))(path_name (mem s) path := None)"
  using assms by (rule unlink_files)

theorem bmfs_unlink_removes_witness:
  "\<exists>s'. bmfs_unlink sim_kernel 0x1000 (demo True demo_dir demo_fds) = (0, s') \<and> bmfs_inv sim_view 4 s' \<and>
    disk_files sim_view (kern s') = (disk_files sim_view (kern (demo True demo_dir demo_fds)))([0x41] := None)"
proof -
  have closed: "\<forall>i < 8. f_used (files (demo True demo_dir demo_fds) ! i) \<longrightarrow> fd_name (demo True demo_dir demo_fds) i \<noteq> [0x41]"
    by (simp add: demo_def demo_closed_def)
  show ?thesis
    using bmfs_unlink_removes [OF demo_dev demo_closed_inv [OF demo_dir_ok], of "0x1000", unfolded demo_path, OF _ closed] demo_files
    by simp
qed

text \<open>
  C19. The result of open on every branch: ENOENT for a name that is empty, too long or has a slash,
  EMFILE when the eight descriptors are taken, EEXIST under O_CREAT with O_EXCL for a stored name,
  ENOENT without O_CREAT and ENOSPC with a full directory for a name that is not stored, and else
  the descriptor of the first free slot.
\<close>

theorem bmfs_open_result:
  assumes dev: "bmfs_dev K sec nblk" and inv: "bmfs_inv sec nblk s"
  shows "fst (bmfs_open K path flags mode s) =
    (if \<not> valid_name (path_name (mem s) path) then - ENOENT
     else case first_idx (\<lambda>f. \<not> f_used f) (files s) of
       None \<Rightarrow> - EMFILE
     | Some slot \<Rightarrow>
         if disk_files sec (kern s) (path_name (mem s) path) \<noteq> None
         then (if flags AND O_CREAT \<noteq> 0 \<and> flags AND O_EXCL \<noteq> 0 then - EEXIST else 3 + of_nat slot)
         else if flags AND O_CREAT = 0 then - ENOENT
         else if \<forall>e \<in> set (cur_dir sec s). d_live e then - ENOSPC
         else 3 + of_nat slot)"
proof -
  have oe: "fst (open_entry K flags slot di t) = 3 + of_nat slot" for slot di and t :: "('a, 'b) bmfs_scheme"
    by (simp add: open_entry_def Let_def bmfs_consts)
  have full: "first_idx (\<lambda>e. \<not> d_live e) (cur_dir sec s) = None \<longleftrightarrow> (\<forall>e \<in> set (cur_dir sec s). d_live e)"
    by (simp add: first_idx_None_iff)
  show ?thesis
    unfolding bmfs_open_unfold [OF dev inv] disk_files_None_iff [OF dev inv] lookup_def full [symmetric]
    by (simp add: oe split: option.split)
qed

theorem bmfs_open_result_witness:
  "fst (bmfs_open sim_kernel 0x1000 0xC0 0 (demo True demo_dir demo_fds)) = - EEXIST"
  using bmfs_open_result [OF demo_dev demo_closed_inv [OF demo_dir_ok], of "0x1000" "0xC0" 0, unfolded demo_path demo_free_slot]
    demo_valid demo_files by simp

end
