(* ===== verification/BM_Posix.thy ===== *)
theory BM_Posix
  imports BM_Net_Stream BM_Bmfs_Props
begin

text \<open>
  The system calls of \<^verbatim>\<open>src/app/posix_shim.c\<close> (the heap calls are in the heap theory): descriptors are
  routed to the files of BMFS, to the sockets, or to the console, and the dispatcher answers the
  calls of the C library.
\<close>

section \<open>State and constants\<close>

text \<open>The base of the FS segment is the only processor state the calls touch.\<close>

record ('k, 'm) posix = "('k, 'm) shim" +
  fs_base :: u64

abbreviation (input) EFAULT :: u64 where "EFAULT \<equiv> 14"
abbreviation (input) ENOTTY :: u64 where "ENOTTY \<equiv> 25"
abbreviation (input) ESPIPE :: u64 where "ESPIPE \<equiv> 29"
abbreviation (input) ENOSYS :: u64 where "ENOSYS \<equiv> 38"
abbreviation (input) S_IFCHR :: u32 where "S_IFCHR \<equiv> 0x2000"
abbreviation (input) S_IFSOCK :: u32 where "S_IFSOCK \<equiv> 0xC000"
abbreviation (input) TIOCGWINSZ :: slong where "TIOCGWINSZ \<equiv> 0x5413"
abbreviation (input) ARCH_SET_FS :: slong where "ARCH_SET_FS \<equiv> 0x1002"
abbreviation (input) ARCH_GET_FS :: slong where "ARCH_GET_FS \<equiv> 0x1003"

section \<open>Reading and writing\<close>

definition sys_write :: "'k kernel \<Rightarrow> ('m, ('k, 'm, 'z) posix_scheme) tcp_env \<Rightarrow> slong \<Rightarrow> slong \<Rightarrow> slong \<Rightarrow> ('k, 'm, 'z) posix_scheme \<Rightarrow> (slong \<times> ('k, 'm, 'z) posix_scheme) option" where
  "sys_write K E fd buf len s =
     (if bmfs_is_fd fd s then bmfs_write K fd buf len s
      else if net_shim_is_fd fd s then net_shim_send K E fd buf len 0 s
      else if fd \<noteq> 1 \<and> fd \<noteq> 2 then Some (- EBADF, s)
      else Some (len, if 0 < sint len then b_output K buf len s else s))"

text \<open>Reading the console: wait for a byte, then take what is there.\<close>

partial_function (option) input_wait :: "'k kernel \<Rightarrow> ('k, 'z) machine_scheme \<Rightarrow> (u8 \<times> ('k, 'z) machine_scheme) option" where
  "input_wait K s = (let (c, s1) = b_input K s in if c = 0 then input_wait K s1 else Some (c, s1))"

text \<open>The loop runs while \<^verbatim>\<open>n < len\<close>; the first argument is \<open>len - n\<close>.\<close>

fun input_drain :: "nat \<Rightarrow> 'k kernel \<Rightarrow> addr \<Rightarrow> slong \<Rightarrow> ('k, 'z) machine_scheme \<Rightarrow> slong \<times> ('k, 'z) machine_scheme" where
  "input_drain 0 K p n s = (n, s)"
| "input_drain (Suc k) K p n s =
     (let (c, s1) = b_input K s
      in if c = 0 then (n, s1) else input_drain k K p (n + 1) (s1\<lparr>mem := (mem s1)(p + n := c)\<rparr>))"

definition sys_read :: "'k kernel \<Rightarrow> ('m, ('k, 'm, 'z) posix_scheme) tcp_env \<Rightarrow> slong \<Rightarrow> slong \<Rightarrow> slong \<Rightarrow> ('k, 'm, 'z) posix_scheme \<Rightarrow> (slong \<times> ('k, 'm, 'z) posix_scheme) option" where
  "sys_read K E fd buf len s =
     (if bmfs_is_fd fd s then bmfs_read K fd buf len s
      else if net_shim_is_fd fd s then net_shim_recv K E fd buf len 0 s
      else if fd \<noteq> 0 then Some (- EBADF, s)
      else if sint len \<le> 0 then Some (0, s)
      else do {
        (c, s1) \<leftarrow> input_wait K s;
        Some (input_drain (nat (sint len) - 1) K buf 1 (s1\<lparr>mem := (mem s1)(buf := c)\<rparr>))})"

text \<open>
  The loop of \<^verbatim>\<open>writev\<close> and \<^verbatim>\<open>readv\<close> over the vector, \<open>k\<close> elements of which are left: it stops at an error
  or at a short transfer.  The length of the element is read again after the
  transfer; None is the overflow of the signed total, which C leaves undefined.
\<close>

definition iov_base :: "memory \<Rightarrow> addr \<Rightarrow> nat \<Rightarrow> u64" where
  "iov_base m iov i = of_le_bytes (mem_read m (iov + of_nat (16 * i)) 8)"

definition iov_len :: "memory \<Rightarrow> addr \<Rightarrow> nat \<Rightarrow> u64" where
  "iov_len m iov i = of_le_bytes (mem_read m (iov + of_nat (16 * i + 8)) 8)"

fun iov_loop :: "(slong \<Rightarrow> slong \<Rightarrow> ('k, 'z) machine_scheme \<Rightarrow> (slong \<times> ('k, 'z) machine_scheme) option) \<Rightarrow> addr \<Rightarrow> nat \<Rightarrow> nat \<Rightarrow> slong \<Rightarrow> ('k, 'z) machine_scheme \<Rightarrow> (slong \<times> ('k, 'z) machine_scheme) option" where
  "iov_loop xfer iov i 0 tot s = Some (tot, s)"
| "iov_loop xfer iov i (Suc k) tot s = do {
     (n, s1) \<leftarrow> xfer (iov_base (mem s) iov i) (iov_len (mem s) iov i) s;
     if sint n < 0 then Some (if tot \<noteq> 0 then tot else n, s1)
     else if sint (tot + n) < 0 then None
     else if n < iov_len (mem s1) iov i then Some (tot + n, s1)
     else iov_loop xfer iov (Suc i) k (tot + n) s1}"

definition sys_writev :: "'k kernel \<Rightarrow> ('m, ('k, 'm, 'z) posix_scheme) tcp_env \<Rightarrow> slong \<Rightarrow> slong \<Rightarrow> slong \<Rightarrow> ('k, 'm, 'z) posix_scheme \<Rightarrow> (slong \<times> ('k, 'm, 'z) posix_scheme) option" where
  "sys_writev K E fd iov iovcnt s = iov_loop (sys_write K E fd) iov 0 (nat (sint iovcnt)) 0 s"

definition sys_readv :: "'k kernel \<Rightarrow> ('m, ('k, 'm, 'z) posix_scheme) tcp_env \<Rightarrow> slong \<Rightarrow> slong \<Rightarrow> slong \<Rightarrow> ('k, 'm, 'z) posix_scheme \<Rightarrow> (slong \<times> ('k, 'm, 'z) posix_scheme) option" where
  "sys_readv K E fd iov iovcnt s = iov_loop (sys_read K E fd) iov 0 (nat (sint iovcnt)) 0 s"

section \<open>The other calls on descriptors\<close>

definition sys_close :: "'k kernel \<Rightarrow> ('m, ('k, 'm, 'z) posix_scheme) tcp_env \<Rightarrow> slong \<Rightarrow> ('k, 'm, 'z) posix_scheme \<Rightarrow> (slong \<times> ('k, 'm, 'z) posix_scheme) option" where
  "sys_close K E fd s =
     (if bmfs_is_fd fd s then bmfs_close K fd s
      else if net_shim_is_fd fd s then net_shim_close E fd s
      else if fd = 0 \<or> fd = 1 \<or> fd = 2 then Some (0, s)
      else Some (- EBADF, s))"

definition sys_fstat :: "slong \<Rightarrow> slong \<Rightarrow> ('k, 'm, 'z) posix_scheme \<Rightarrow> (slong \<times> ('k, 'm, 'z) posix_scheme) option" where
  "sys_fstat fd stbuf s =
     (if bmfs_is_fd fd s then bmfs_fstat_fd fd stbuf s
      else if net_shim_is_fd fd s
      then Some (0, s\<lparr>mem := mem_write (mem s) stbuf (encode_kstat (zero_kstat\<lparr>st_mode := S_IFSOCK OR 0x1B6\<rparr>))\<rparr>)
      else if fd \<noteq> 0 \<and> fd \<noteq> 1 \<and> fd \<noteq> 2 then Some (- EBADF, s)
      else Some (0, s\<lparr>mem := mem_write (mem s) stbuf (encode_kstat (zero_kstat\<lparr>st_mode := S_IFCHR OR 0x190\<rparr>))\<rparr>))"

definition sys_lseek :: "slong \<Rightarrow> slong \<Rightarrow> slong \<Rightarrow> ('k, 'm, 'z) posix_scheme \<Rightarrow> (slong \<times> ('k, 'm, 'z) posix_scheme) option" where
  "sys_lseek fd offset whence s =
     (if bmfs_is_fd fd s then bmfs_lseek fd offset (ucast whence) s else Some (- ESPIPE, s))"

definition sys_open :: "'k kernel \<Rightarrow> addr \<Rightarrow> slong \<Rightarrow> slong \<Rightarrow> ('k, 'm, 'z) posix_scheme \<Rightarrow> slong \<times> ('k, 'm, 'z) posix_scheme" where
  "sys_open K path flags mode s = bmfs_open K path (ucast flags) (ucast mode) s"

definition sys_unlink :: "'k kernel \<Rightarrow> addr \<Rightarrow> ('k, 'm, 'z) posix_scheme \<Rightarrow> slong \<times> ('k, 'm, 'z) posix_scheme" where
  "sys_unlink K path s = bmfs_unlink K path s"

definition sys_fstatat :: "'k kernel \<Rightarrow> slong \<Rightarrow> slong \<Rightarrow> slong \<Rightarrow> slong \<Rightarrow> ('k, 'm, 'z) posix_scheme \<Rightarrow> slong \<times> ('k, 'm, 'z) posix_scheme" where
  "sys_fstatat K dirfd path kstbuf flags s = bmfs_fstatat K path kstbuf s"

definition sys_ioctl :: "slong \<Rightarrow> slong \<Rightarrow> slong \<Rightarrow> slong" where
  "sys_ioctl fd req arg = (if (fd = 0 \<or> fd = 1 \<or> fd = 2) \<and> req = TIOCGWINSZ then 0 else - ENOTTY)"

section \<open>Sockets\<close>

definition sys_socket :: "'k kernel \<Rightarrow> ('m, ('k, 'm, 'z) posix_scheme) tcp_env \<Rightarrow> slong \<Rightarrow> slong \<Rightarrow> slong \<Rightarrow> ('k, 'm, 'z) posix_scheme \<Rightarrow> (slong \<times> ('k, 'm, 'z) posix_scheme) option" where
  "sys_socket K E domain type protocol s = net_shim_socket K E domain type protocol s"

definition sys_bind :: "('m, ('k, 'm, 'z) posix_scheme) tcp_env \<Rightarrow> slong \<Rightarrow> slong \<Rightarrow> slong \<Rightarrow> ('k, 'm, 'z) posix_scheme \<Rightarrow> (slong \<times> ('k, 'm, 'z) posix_scheme) option" where
  "sys_bind E fd a addrlen s = net_shim_bind E fd a addrlen s"

definition sys_listen :: "('m, ('k, 'm, 'z) posix_scheme) tcp_env \<Rightarrow> slong \<Rightarrow> slong \<Rightarrow> ('k, 'm, 'z) posix_scheme \<Rightarrow> (slong \<times> ('k, 'm, 'z) posix_scheme) option" where
  "sys_listen E fd backlog s = net_shim_listen E fd backlog s"

definition sys_accept4 :: "'k kernel \<Rightarrow> ('m, ('k, 'm, 'z) posix_scheme) tcp_env \<Rightarrow> slong \<Rightarrow> slong \<Rightarrow> slong \<Rightarrow> slong \<Rightarrow> ('k, 'm, 'z) posix_scheme \<Rightarrow> (slong \<times> ('k, 'm, 'z) posix_scheme) option" where
  "sys_accept4 K E fd a addrlenp flags s = net_shim_accept K E fd a addrlenp s"

definition sys_connect :: "'k kernel \<Rightarrow> ('m, ('k, 'm, 'z) posix_scheme) tcp_env \<Rightarrow> slong \<Rightarrow> slong \<Rightarrow> slong \<Rightarrow> ('k, 'm, 'z) posix_scheme \<Rightarrow> (slong \<times> ('k, 'm, 'z) posix_scheme) option" where
  "sys_connect K E fd a addrlen s = net_shim_connect K E fd a addrlen s"

definition sys_sendto :: "'k kernel \<Rightarrow> ('m, ('k, 'm, 'z) posix_scheme) tcp_env \<Rightarrow> slong \<Rightarrow> slong \<Rightarrow> slong \<Rightarrow> slong \<Rightarrow> slong \<Rightarrow> slong \<Rightarrow> ('k, 'm, 'z) posix_scheme \<Rightarrow> (slong \<times> ('k, 'm, 'z) posix_scheme) option" where
  "sys_sendto K E fd buf len flags a addrlen s = net_shim_send K E fd buf len flags s"

definition sys_recvfrom :: "'k kernel \<Rightarrow> ('m, ('k, 'm, 'z) posix_scheme) tcp_env \<Rightarrow> slong \<Rightarrow> slong \<Rightarrow> slong \<Rightarrow> slong \<Rightarrow> slong \<Rightarrow> slong \<Rightarrow> ('k, 'm, 'z) posix_scheme \<Rightarrow> (slong \<times> ('k, 'm, 'z) posix_scheme) option" where
  "sys_recvfrom K E fd buf len flags a addrlenp s = net_shim_recv K E fd buf len flags s"

section \<open>Process and time\<close>

definition sys_arch_prctl :: "slong \<Rightarrow> slong \<Rightarrow> ('k, 'm, 'z) posix_scheme \<Rightarrow> slong \<times> ('k, 'm, 'z) posix_scheme" where
  "sys_arch_prctl code a s =
     (if code = ARCH_SET_FS
      then let lo = (ucast a :: u32); hi = (ucast (drop_bit 32 a) :: u32)
           in (0, s\<lparr>fs_base := push_bit 32 (ucast hi) OR ucast lo\<rparr>)
      else if code = ARCH_GET_FS
      then let lo = (ucast (fs_base s) :: u32); hi = (ucast (drop_bit 32 (fs_base s)) :: u32)
           in (0, s\<lparr>mem := mem_write (mem s) a (le_bytes 8 (push_bit 32 (ucast hi :: u64) OR ucast lo))\<rparr>)
      else (- EINVAL, s))"

definition sys_set_tid_address :: "slong \<Rightarrow> slong" where
  "sys_set_tid_address a = 1"

text \<open>A call returns to the program, or (\<^verbatim>\<open>exit\<close>) never does.\<close>

datatype outcome = Returns slong | Halts

definition sys_exit :: "'k kernel \<Rightarrow> slong \<Rightarrow> ('k, 'm, 'z) posix_scheme \<Rightarrow> outcome \<times> ('k, 'm, 'z) posix_scheme" where
  "sys_exit K code s = (Halts, snd (b_system K SHUTDOWN 0 0 s))"

definition sys_clock_gettime :: "'k kernel \<Rightarrow> slong \<Rightarrow> addr \<Rightarrow> ('k, 'm, 'z) posix_scheme \<Rightarrow> slong \<times> ('k, 'm, 'z) posix_scheme" where
  "sys_clock_gettime K clk_id ts s =
     (if ts = 0 then (- EFAULT, s)
      else if clk_id = 0 \<or> clk_id = 5
      then let (t, s1) = b_system K WALLCLOCK 0 0 s
           in (0, s1\<lparr>mem := mem_write (mem s1) ts (le_bytes 8 t @ le_bytes 8 (0 :: u64))\<rparr>)
      else if clk_id = 1 \<or> clk_id = 4 \<or> clk_id = 6
      then let (ns, s1) = b_system K TIMECOUNTER 0 0 s
           in (0, s1\<lparr>mem := mem_write (mem s1) ts (le_bytes 8 (ns div 1000000000) @ le_bytes 8 (ns mod 1000000000))\<rparr>)
      else (- EINVAL, s))"

section \<open>The dispatcher\<close>

definition ret :: "(slong \<times> 's) option \<Rightarrow> (outcome \<times> 's) option" where
  "ret r = map_option (\<lambda>(v, s). (Returns v, s)) r"

definition bmos_syscall :: "'k kernel \<Rightarrow> ('m, ('k, 'm, 'z) posix_scheme) tcp_env \<Rightarrow> addr \<Rightarrow> slong \<Rightarrow> slong \<Rightarrow> slong \<Rightarrow> slong \<Rightarrow> slong \<Rightarrow> slong \<Rightarrow> slong \<Rightarrow> ('k, 'm, 'z) posix_scheme \<Rightarrow> (outcome \<times> ('k, 'm, 'z) posix_scheme) option" where
  "bmos_syscall K E bss_stop n a1 a2 a3 a4 a5 a6 s =
     (if n = 0 then ret (sys_read K E a1 a2 a3 s)
      else if n = 1 then ret (sys_write K E a1 a2 a3 s)
      else if n = 19 then ret (sys_readv K E a1 a2 a3 s)
      else if n = 20 then ret (sys_writev K E a1 a2 a3 s)
      else if n = 3 then ret (sys_close K E a1 s)
      else if n = 5 then ret (sys_fstat a1 a2 s)
      else if n = 8 then ret (sys_lseek a1 a2 a3 s)
      else if n = 16 then Some (Returns (sys_ioctl a1 a2 a3), s)
      else if n = 2 then ret (Some (sys_open K a1 a2 a3 s))
      else if n = 257 then ret (Some (sys_open K a2 a3 a4 s))
      else if n = 87 then ret (Some (sys_unlink K a1 s))
      else if n = 4 \<or> n = 6 then ret (Some (bmfs_fstatat K a1 a2 s))
      else if n = 262 then ret (Some (sys_fstatat K a1 a2 a3 a4 s))
      else if n = 12 then ret (Some (sys_brk K bss_stop a1 s))
      else if n = 9 then ret (Some (sys_mmap K bss_stop a1 a2 a3 a4 a5 a6 s))
      else if n = 11 then ret (Some (sys_munmap a1 a2 s))
      else if n = 158 then ret (Some (sys_arch_prctl a1 a2 s))
      else if n = 218 then Some (Returns (sys_set_tid_address a1), s)
      else if n = 60 \<or> n = 231 then Some (sys_exit K a1 s)
      else if n = 228 then ret (Some (sys_clock_gettime K a1 a2 s))
      else if n = 41 then ret (sys_socket K E a1 a2 a3 s)
      else if n = 49 then ret (sys_bind E a1 a2 a3 s)
      else if n = 50 then ret (sys_listen E a1 a2 s)
      else if n = 43 then ret (sys_accept4 K E a1 a2 a3 0 s)
      else if n = 288 then ret (sys_accept4 K E a1 a2 a3 a4 s)
      else if n = 42 then ret (sys_connect K E a1 a2 a3 s)
      else if n = 44 then ret (sys_sendto K E a1 a2 a3 a4 a5 a6 s)
      else if n = 45 then ret (sys_recvfrom K E a1 a2 a3 a4 a5 a6 s)
      else if n = 54 \<or> n = 55 \<or> n = 72 \<or> n = 13 \<or> n = 14 \<or> n = 131 \<or> n = 273 then Some (Returns 0, s)
      else Some (Returns (- ENOSYS), s))"

section \<open>Descriptors have one owner\<close>

text \<open>A table hands out descriptors of its own range.\<close>

locale fd_range =
  fixes is_fd :: "slong \<Rightarrow> 's \<Rightarrow> bool" and lo hi :: int
  assumes in_range: "is_fd fd s \<Longrightarrow> lo \<le> sint fd \<and> sint fd < hi"
begin

lemma not_below: "sint fd < lo \<Longrightarrow> \<not> is_fd fd s"
  using in_range by fastforce

lemma not_above: "hi \<le> sint fd \<Longrightarrow> \<not> is_fd fd s"
  using in_range by fastforce

end

locale fd_tables = low: fd_range is_low lo1 hi1 + high: fd_range is_high lo2 hi2
  for is_low :: "slong \<Rightarrow> 's \<Rightarrow> bool" and lo1 hi1 and is_high :: "slong \<Rightarrow> 's \<Rightarrow> bool" and lo2 hi2 +
  assumes order: "hi1 \<le> lo2" and std: "2 < lo1" and lows: "lo1 \<le> hi1"
begin

lemma disjoint: "is_low fd s \<Longrightarrow> \<not> is_high fd s"
  using low.in_range high.in_range order by fastforce

lemma console_free: "sint fd \<le> 2 \<Longrightarrow> \<not> is_low fd s \<and> \<not> is_high fd s"
  using low.not_below high.not_below order std lows by (meson order_le_less_trans order_less_le_trans)

end

lemma sock_fd_range: "net_shim_is_fd fd s \<Longrightarrow> 100 \<le> sint fd \<and> sint fd < 116"
proof -
  assume a: "net_shim_is_fd fd s"
  let ?i = "fd - SOCK_FD_BASE"
  have i: "0 \<le> sint ?i" "sint ?i < 16" using a by (auto simp: net_shim_is_fd_def Let_def SOCK_MAX_def)
  have "unat ?i < 16" using sint_nonneg_unat(1) [OF i(1)] i(2) by (simp del: of_nat_unat)
  then have u: "unat fd = 100 + unat ?i"
    using unat_plus_small [of "SOCK_FD_BASE" ?i] by (simp add: SOCK_FD_BASE_def)
  then have "sint fd = int (unat fd)" using \<open>unat ?i < 16\<close> by (intro sint_small) simp
  then show ?thesis using u \<open>unat ?i < 16\<close> by (simp del: of_nat_unat)
qed

interpretation fds: fd_tables bmfs_is_fd 3 11 net_shim_is_fd 100 116
  by unfold_locales (auto simp: bmfs_is_fd_def BMFS_FD_BASE_def BMFS_MAX_OPEN_def dest: sock_fd_range)

lemma console_fd: "\<not> bmfs_is_fd 1 s" "\<not> net_shim_is_fd 1 s" "\<not> bmfs_is_fd 0 s" "\<not> net_shim_is_fd 0 s"
  using fds.console_free [of 1 s] fds.console_free [of 0 s] by simp_all

lemma write_console: "sys_write K E 1 buf len s = Some (len, if 0 < sint len then b_output K buf len s else s)"
  by (simp add: sys_write_def console_fd)

section \<open>Vectors on the console\<close>

text \<open>The memory a vector describes, and what the kernel gets when it is printed.\<close>

definition iov_bytes :: "memory \<Rightarrow> addr \<Rightarrow> nat \<Rightarrow> u8 list" where
  "iov_bytes m iov i = mem_read m (iov_base m iov i) (unat (iov_len m iov i))"

definition print :: "'k kernel \<Rightarrow> u8 list \<Rightarrow> 'k \<Rightarrow> 'k" where
  "print K bs k = (if bs = [] then k else k_output K bs k)"

lemma write_console_print:
  assumes "unat len < 2 ^ 63"
  shows "sys_write K E 1 buf len s = Some (len, s\<lparr>kern := print K (mem_read (mem s) buf (unat len)) (kern s)\<rparr>)"
proof (cases "len = 0")
  case True
  then show ?thesis by (simp add: write_console print_def mem_read_def)
next
  case False
  then have "mem_read (mem s) buf (unat len) \<noteq> []" using length_mem_read [of "mem s" buf "unat len"] by (metis list.size(3) unat_eq_zero)
  then show ?thesis using assms False by (simp add: write_console print_def b_output_def sint_pos_iff)
qed

lemma iov_loop_console:
  assumes "unat tot + (\<Sum>j\<leftarrow>[i..<i + k]. unat (iov_len (mem s) iov j)) < 2 ^ 63"
  shows "iov_loop (sys_write K E 1) iov i k tot s =
    Some (tot + of_nat (\<Sum>j\<leftarrow>[i..<i + k]. unat (iov_len (mem s) iov j)),
      s\<lparr>kern := fold (print K) (map (iov_bytes (mem s) iov) [i..<i + k]) (kern s)\<rparr>)"
  using assms
proof (induction k arbitrary: i tot s)
  case (Suc k)
  let ?len = "iov_len (mem s) iov i" and ?s1 = "s\<lparr>kern := print K (iov_bytes (mem s) iov i) (kern s)\<rparr>"
  have up: "[i..<i + Suc k] = i # [Suc i..<Suc i + k]" by (simp add: upt_rec)
  have b: "unat tot + (unat ?len + (\<Sum>j\<leftarrow>[Suc i..<Suc i + k]. unat (iov_len (mem s) iov j))) < 2 ^ 63"
    using Suc.prems unfolding up by simp
  then have l: "unat ?len < 2 ^ 63" "unat (tot + ?len) = unat tot + unat ?len"
    using unat_plus_small [of tot ?len] by simp_all
  have w: "sys_write K E 1 (iov_base (mem s) iov i) ?len s = Some (?len, ?s1)"
    using write_console_print [OF l(1)] by (simp add: iov_bytes_def)
  have nn: "\<not> sint ?len < 0" "\<not> sint (tot + ?len) < 0"
    using sint_small [of ?len] sint_small [of "tot + ?len"] l b by (simp_all del: of_nat_unat)
  have "iov_loop (sys_write K E 1) iov i (Suc k) tot s = iov_loop (sys_write K E 1) iov (Suc i) k (tot + ?len) ?s1"
    using w nn by simp
  also have "\<dots> = Some (tot + ?len + of_nat (\<Sum>j\<leftarrow>[Suc i..<Suc i + k]. unat (iov_len (mem ?s1) iov j)),
      ?s1\<lparr>kern := fold (print K) (map (iov_bytes (mem ?s1) iov) [Suc i..<Suc i + k]) (kern ?s1)\<rparr>)"
    by (rule Suc.IH) (use b l(2) in simp)
  finally show ?case unfolding up by (simp add: add.assoc)
qed simp

text \<open>
  C17.  \<^verbatim>\<open>writev\<close> to the console prints every element of the vector, in order and completely, and returns
  the total length, whatever files and sockets are open.
\<close>

theorem writev_console:
  assumes "0 \<le> sint cnt" "(\<Sum>j\<leftarrow>[0..<unat cnt]. unat (iov_len (mem s) iov j)) < 2 ^ 63"
  shows "sys_writev K E 1 iov cnt s =
    Some (of_nat (\<Sum>j\<leftarrow>[0..<unat cnt]. unat (iov_len (mem s) iov j)),
      s\<lparr>kern := fold (print K) (map (iov_bytes (mem s) iov) [0..<unat cnt]) (kern s)\<rparr>)"
proof -
  have "nat (sint cnt) = unat cnt" using sint_nonneg_unat(1) [OF assms(1)] by simp
  then show ?thesis using iov_loop_console [where tot = 0 and i = 0 and k = "unat cnt"] assms(2) by (simp add: sys_writev_def)
qed

text \<open>A state with a vector of two elements, over the simulated kernel.\<close>

definition demo_posix :: "memory \<Rightarrow> (sim, u64) posix" where
  "demo_posix m = \<lparr>mem = m, kern = sim_blank, dir = [], dir_loaded = False, files = replicate 8 demo_closed, scratch = [], heap_cur = 0, heap_end = 0,
     alloc = 0x10000, pbufs = (\<lambda>_. None), next_timeout = [], current_timeout_due_time = 0, tcpip_tcp_timer_active = False,
     netif_store = (\<lambda>_. None), netif_list = [], netif_default = 0, netif_num = 0, rand_seed = 0, arp_table = [], etharp_cached_entry = 0,
     socks = replicate SOCK_MAX reset_sock, net_ready = True, fs_base = 0\<rparr>"

text \<open>The strings \<open>Hi\<close> at \<open>0x500\<close> and \<open>!\<close> at \<open>0x600\<close>, and the vector at \<open>0x700\<close>.\<close>

definition demo_iov :: memory where
  "demo_iov = mem_write (mem_write (mem_write (\<lambda>_. 0) 0x500 [0x48, 0x69]) 0x600 [0x21])
     0x700 (le_bytes 8 (0x500 :: u64) @ le_bytes 8 (2 :: u64) @ le_bytes 8 (0x600 :: u64) @ le_bytes 8 (1 :: u64))"

lemma demo_iov_eval:
  "iov_len demo_iov 0x700 0 = 2" "iov_len demo_iov 0x700 1 = 1" "iov_bytes demo_iov 0x700 0 = [0x48, 0x69]" "iov_bytes demo_iov 0x700 1 = [0x21]"
  by code_simp+

theorem writev_console_witness:
  "\<exists>s'. sys_writev sim_kernel demo_tcp 1 0x700 2 (demo_posix demo_iov) = Some (3, s') \<and> sim_out (kern s') = [0x48, 0x69, 0x21]"
proof -
  have up: "[0..<unat (2 :: slong)] = [0, 1]" by (simp add: upt_rec)
  have m: "mem (demo_posix demo_iov) = demo_iov" "kern (demo_posix demo_iov) = sim_blank" by (simp_all add: demo_posix_def)
  have "(\<Sum>j\<leftarrow>[0..<unat (2 :: slong)]. unat (iov_len (mem (demo_posix demo_iov)) 0x700 j)) = 3" unfolding up m by (simp add: demo_iov_eval [unfolded One_nat_def])
  moreover have "sim_out (fold (print sim_kernel) (map (iov_bytes demo_iov 0x700) [0, 1]) sim_blank) = [0x48, 0x69, 0x21]"
    by (simp add: demo_iov_eval [unfolded One_nat_def] print_def sim_kernel_def sim_blank_def)
  ultimately show ?thesis using writev_console [of 2 "demo_posix demo_iov" "0x700" sim_kernel demo_tcp] by (simp add: m up [simplified])
qed

section \<open>Bad descriptors\<close>



section \<open>Clocks\<close>

lemma timespec_at:
  assumes "ts = a" "m = mem_write m0 a (le_bytes 8 (x :: u64) @ le_bytes 8 (y :: u64))"
  shows "of_le_bytes (mem_read m ts 8) = x" "of_le_bytes (mem_read m (ts + 8) 8) = y"
proof -
  have "mem_read m a (8 + 8) = le_bytes 8 x @ le_bytes 8 y"
    using mem_read_write_same [of "le_bytes 8 x @ le_bytes 8 y" m0 a] by (simp add: assms(2))
  then have "mem_read m a 8 @ mem_read m (a + 8) 8 = le_bytes 8 x @ le_bytes 8 y" by (simp only: mem_read_add) simp
  then have "mem_read m a 8 = le_bytes 8 x" "mem_read m (a + 8) 8 = le_bytes 8 y" by simp_all
  then show "of_le_bytes (mem_read m ts 8) = x" "of_le_bytes (mem_read m (ts + 8) 8) = y" by (simp_all add: assms(1))
qed

text \<open>
  C38.  \<^verbatim>\<open>clock_gettime\<close> on a monotonic clock stores the kernel's nanosecond counter without loss: the
  seconds and the nanoseconds read back from the buffer give exactly the counter, and the nanoseconds
  are below one billion.
\<close>

theorem clock_monotonic_exact:
  assumes "clk \<in> {1, 4, 6}" "ts \<noteq> 0"
  shows "\<exists>s'. bmos_syscall K E bss_stop 228 clk ts a3 a4 a5 a6 s = Some (Returns 0, s') \<and>
    unat (of_le_bytes (mem_read (mem s') ts 8) :: u64) * 1000000000 + unat (of_le_bytes (mem_read (mem s') (ts + 8) 8) :: u64) =
      unat (fst (k_system K TIMECOUNTER 0 0 (kern s))) \<and>
    unat (of_le_bytes (mem_read (mem s') (ts + 8) 8) :: u64) < 1000000000"
proof -
  obtain ns k where k: "k_system K TIMECOUNTER 0 0 (kern s) = (ns, k)" by fastforce
  let ?s' = "s\<lparr>kern := k, mem := mem_write (mem s) ts (le_bytes 8 (ns div 1000000000) @ le_bytes 8 (ns mod 1000000000))\<rparr>"
  have "bmos_syscall K E bss_stop 228 clk ts a3 a4 a5 a6 s = Some (Returns 0, ?s')"
    using assms k by (auto simp: bmos_syscall_def ret_def sys_clock_gettime_def b_system_def)
  moreover note t = timespec_at [OF refl, of "mem ?s'" "mem s" ts "ns div 1000000000" "ns mod 1000000000"]
  ultimately show ?thesis
    using k by (intro exI [of _ ?s']) (simp add: t unat_div_distrib unat_mod_distrib)
qed

theorem clock_monotonic_exact_witness:
  "\<exists>s'. bmos_syscall sim_kernel demo_tcp 0 228 1 0x900 0 0 0 0 (demo_posix (\<lambda>_. 0)) = Some (Returns 0, s') \<and>
    unat (of_le_bytes (mem_read (mem s') (0x900 + 8) 8) :: u64) < 1000000000"
  using clock_monotonic_exact [of 1 "0x900" sim_kernel demo_tcp 0 0 0 0 0 "demo_posix (\<lambda>_. 0)"] by auto

end
