(* ===== verification/BM_Crt0.thy ===== *)
theory BM_Crt0
  imports BM_Kernel "HOL-Library.Monad_Syntax"
begin

text \<open>
  The start of the program, \<^verbatim>\<open>src/app/crt0.c\<close>: the cleared \<^verbatim>\<open>.bss\<close>, the random bytes and the fabricated
  initial stack, and how musl's \<^verbatim>\<open>__init_libc\<close> reads them (\<^verbatim>\<open>env/__libc_start_main.c\<close>,
  \<^verbatim>\<open>env/__stack_chk_fail.c\<close>).  The instructions of the processor that the code executes are parameters.
\<close>

section \<open>The processor\<close>

text \<open>
  \<^verbatim>\<open>cpuid\<close> (register ECX of leaf 1), \<^verbatim>\<open>rdrand\<close> followed by \<^verbatim>\<open>setc\<close>, and \<^verbatim>\<open>rdtsc\<close>.  The code stores the carry flag
  in the low byte of the register of a 32-bit variable; the other bits of the register are what they
  were, and so the result of the pair is the whole register.
\<close>

record 'c cpu =
  c_cpuid :: "'c \<Rightarrow> u32 \<times> 'c"
  c_rdrand :: "'c \<Rightarrow> u64 \<times> u32 \<times> 'c"
  c_rdtsc :: "'c \<Rightarrow> u32 \<times> u32 \<times> 'c"

abbreviation (input) AT_NULL :: u64 where "AT_NULL \<equiv> 0"
abbreviation (input) AT_PAGESZ :: u64 where "AT_PAGESZ \<equiv> 6"
abbreviation (input) AT_RANDOM :: u64 where "AT_RANDOM \<equiv> 25"

section \<open>The pieces\<close>

text \<open>The loop over the addresses from \<open>c\<close> up to \<open>stop\<close>.\<close>

function zero_loop :: "addr \<Rightarrow> addr \<Rightarrow> memory \<Rightarrow> memory" where
  "zero_loop c stop m = (if c < stop then zero_loop (c + 1) stop (m(c := 0)) else m)"
  by pat_completeness auto
termination
proof (relation "measure (\<lambda>(c, stop, m). unat stop - unat c)")
  fix c stop :: addr and m :: memory
  assume "c < stop"
  then have "unat (c + 1) = unat c + 1" "unat c < unat stop"
    using word_less_nat_alt [of c stop] unat_u64_less [of stop] unat_plus_small [of c 1] by auto
  then show "((c + 1, stop, m(c := 0)), (c, stop, m)) \<in> measure (\<lambda>(c, stop, m). unat stop - unat c)" by simp
qed simp

declare zero_loop.simps [simp del]

definition zero_bss :: "addr \<Rightarrow> addr \<Rightarrow> memory \<Rightarrow> memory" where
  "zero_bss bss_start bss_stop m = zero_loop bss_start bss_stop m"

definition has_rdrand :: "'c cpu \<Rightarrow> 'c \<Rightarrow> bool \<times> 'c" where
  "has_rdrand C c = (let (ecx, c1) = c_cpuid C c in (drop_bit 30 ecx AND 1 \<noteq> 0, c1))"

fun rdrand_loop :: "nat \<Rightarrow> 'c cpu \<Rightarrow> u64 \<Rightarrow> u32 \<Rightarrow> 'c \<Rightarrow> u64 \<times> u32 \<times> 'c" where
  "rdrand_loop 0 C v ok c = (v, ok, c)"
| "rdrand_loop (Suc k) C v ok c =
     (if ok \<noteq> 0 then (v, ok, c) else let (v1, ok1, c1) = c_rdrand C c in rdrand_loop k C v1 ok1 c1)"

definition random_word :: "'c cpu \<Rightarrow> bool \<Rightarrow> addr \<Rightarrow> nat \<Rightarrow> 'c \<Rightarrow> u64 \<times> 'c" where
  "random_word C rdrand_ok buf i c =
     (let (v, ok, c1) = (if rdrand_ok then rdrand_loop 10 C 0 0 c else (0, 0, c))
      in if ok = 0
         then let (lo, hi, c2) = c_rdtsc C c1
              in ((push_bit 32 (ucast hi) OR ucast lo) XOR buf XOR of_nat i, c2)
         else (v, c1))"

definition fill_random :: "'c cpu \<Rightarrow> addr \<Rightarrow> memory \<Rightarrow> 'c \<Rightarrow> memory \<times> 'c" where
  "fill_random C buf m c =
     (let (rdrand_ok, c0) = has_rdrand C c;
          (v0, c1) = random_word C rdrand_ok buf 0 c0;
          (v1, c2) = random_word C rdrand_ok buf 1 c1
      in (mem_write (mem_write m buf (le_bytes 8 v0)) (buf + 8) (le_bytes 8 v1), c2))"

text \<open>The initialised array \<^verbatim>\<open>init_stack\<close>, whose bytes the loader puts at its address.\<close>

definition init_stack :: "addr \<Rightarrow> u64 list" where
  "init_stack randbuf = [0, 0, AT_PAGESZ, 4096, AT_RANDOM, randbuf, AT_NULL, 0]"

definition words :: "u64 list \<Rightarrow> u8 list" where
  "words ws = concat (map (le_bytes 8) ws)"

text \<open>The memory and the arguments (\<^verbatim>\<open>argc\<close> and \<^verbatim>\<open>argv\<close>) with which \<^verbatim>\<open>_start_c\<close> enters the C library.\<close>

definition start_c :: "'c cpu \<Rightarrow> addr \<Rightarrow> addr \<Rightarrow> addr \<Rightarrow> addr \<Rightarrow> memory \<Rightarrow> 'c \<Rightarrow> (u32 \<times> addr) \<times> memory \<times> 'c" where
  "start_c C bss_start bss_stop randbuf stack m c =
     (let (m1, c1) = fill_random C randbuf (zero_bss bss_start bss_stop m) c
      in ((0, stack), m1, c1))"

section \<open>The C library reads them\<close>

abbreviation (input) AUX_CNT :: u64 where "AUX_CNT \<equiv> 38"

definition word_at :: "memory \<Rightarrow> addr \<Rightarrow> u64" where
  "word_at m a = of_le_bytes (mem_read m a 8)"

partial_function (option) env_end :: "memory \<Rightarrow> addr \<Rightarrow> u64 \<Rightarrow> u64 option" where
  "env_end m envp i = (if word_at m (envp + 8 * i) = 0 then Some i else env_end m envp (i + 1))"

partial_function (option) aux_loop :: "memory \<Rightarrow> addr \<Rightarrow> u64 \<Rightarrow> (u64 \<Rightarrow> u64) \<Rightarrow> (u64 \<Rightarrow> u64) option" where
  "aux_loop m auxv i aux =
     (let key = word_at m (auxv + 8 * i)
      in if key = 0 then Some aux
         else aux_loop m auxv (i + 2) (if key < AUX_CNT then aux(key := word_at m (auxv + 8 * (i + 1))) else aux))"

record libc =
  l_environ :: addr
  l_auxv :: addr
  l_hwcap :: u64
  l_page_size :: u64
  l_guard :: u64

text \<open>\<^verbatim>\<open>__init_ssp\<close>: \<open>guard_at\<close> is the address of the guard; its second byte is cleared.\<close>

definition init_ssp :: "memory \<Rightarrow> addr \<Rightarrow> addr \<Rightarrow> u64" where
  "init_ssp m guard_at entropy =
     (let g = (if entropy \<noteq> 0 then word_at m entropy else guard_at * 1103515245)
      in g AND NOT 0xFF00)"

text \<open>
  The part of \<^verbatim>\<open>__libc_start_main\<close> and \<^verbatim>\<open>__init_libc\<close> that reads the vector: the environment, the auxiliary
  vector, the page size and the guard.  A program whose identities differ would have to poll its
  descriptors, which the port answers with an error, and crashes (None).
\<close>

definition init_libc :: "addr \<Rightarrow> memory \<Rightarrow> u32 \<times> addr \<Rightarrow> (libc \<times> (u64 \<Rightarrow> u64)) option" where
  "init_libc guard_at m args = do {
     let (argc, argv) = args;
     let envp = argv + 8 * (scast argc + 1);
     i \<leftarrow> env_end m envp 0;
     let auxv = envp + 8 * (i + 1);
     aux \<leftarrow> aux_loop m auxv 0 (\<lambda>_. 0);
     if aux 11 = aux 12 \<and> aux 13 = aux 14 \<and> aux 23 = 0
     then Some (\<lparr>l_environ = envp, l_auxv = auxv, l_hwcap = aux 16, l_page_size = aux AT_PAGESZ,
       l_guard = init_ssp m guard_at (aux AT_RANDOM)\<rparr>, aux)
     else None}"

section \<open>What the program starts with\<close>

lemma zero_loop_at: "zero_loop c stop m x = (if c \<le> x \<and> x < stop then 0 else m x)"
proof (induction c stop m rule: zero_loop.induct)
  case (1 c stop m)
  show ?case
  proof (cases "c < stop")
    case True
    have "unat (c + 1) = Suc (unat c)"
      using True word_less_nat_alt [of c stop] unat_u64_less [of stop] unat_plus_small [of c 1] by auto
    then have s: "c + 1 \<le> x \<longleftrightarrow> c < x" for x by (simp add: word_le_nat_alt word_less_nat_alt Suc_le_eq)
    show ?thesis using 1 [OF True] True by (subst zero_loop.simps) (auto simp: s fun_upd_def)
  next
    case False
    then show ?thesis by (subst zero_loop.simps) auto
  qed
qed

text \<open>The layout of the image: the random buffer in \<^verbatim>\<open>.bss\<close>, the initial stack with its contents outside.\<close>

definition image_ok :: "addr \<Rightarrow> addr \<Rightarrow> addr \<Rightarrow> addr \<Rightarrow> memory \<Rightarrow> bool" where
  "image_ok bss_start bss_stop randbuf stack m \<longleftrightarrow>
     unat bss_start \<le> unat randbuf \<and> unat randbuf + 16 \<le> unat bss_stop \<and> randbuf \<noteq> 0 \<and> unat stack + 64 < 2 ^ 64 \<and>
     (unat stack + 64 \<le> unat bss_start \<or> unat bss_stop \<le> unat stack) \<and>
     mem_read m stack 64 = words (init_stack randbuf)"

lemma length_words [simp]: "length (words ws) = 8 * length ws"
  by (induction ws) (simp_all add: words_def)

lemma mem_read_words:
  assumes "mem_read m a (8 * length ws) = words ws" "j < length ws"
  shows "word_at m (a + 8 * of_nat j) = ws ! j"
  using assms
proof (induction ws arbitrary: a j)
  case (Cons w ws)
  have "mem_read m a 8 @ mem_read m (a + 8) (8 * length ws) = le_bytes 8 w @ words ws"
    using Cons.prems(1) by (simp add: words_def mem_read_add)
  then have r: "mem_read m a 8 = le_bytes 8 w" "mem_read m (a + 8) (8 * length ws) = words ws" by simp_all
  show ?case
  proof (cases j)
    case 0
    then show ?thesis by (simp add: word_at_def r(1))
  next
    case (Suc i)
    then show ?thesis using Cons.IH [OF r(2), of i] Cons.prems(2) by (simp add: algebra_simps)
  qed
qed simp

lemma sep_ranges:
  assumes "unat a + n \<le> unat b" "unat b + k \<le> 2 ^ 64"
  shows "sep a n b k"
proof (cases "n = 0")
  case False
  then have "b \<noteq> a" using assms(1) by auto
  then have "unat (b - a) = unat b - unat a" "unat (a - b) = 2 ^ 64 - (unat b - unat a)"
    using assms(1) unat_sub [of a b] unat_neg [of "b - a"] by (auto simp: word_le_nat_alt)
  then show ?thesis using assms unfolding sep_def by linarith
qed (simp add: sep_def)

lemma start_memory:
  assumes "image_ok bss_start bss_stop randbuf stack m" "start_c C bss_start bss_stop randbuf stack m c = (args, m1, c1)"
  shows "args = (0, stack)" "mem_read m1 stack 64 = words (init_stack randbuf)"
    "word_at m1 randbuf = fst (random_word C (fst (has_rdrand C c)) randbuf 0 (snd (has_rdrand C c)))"
proof -
  obtain ok c0 where h: "has_rdrand C c = (ok, c0)" by fastforce
  obtain v0 c2 where v0: "random_word C ok randbuf 0 c0 = (v0, c2)" by fastforce
  obtain v1 c3 where v1: "random_word C ok randbuf 1 c2 = (v1, c3)" by fastforce
  let ?z = "zero_bss bss_start bss_stop m"
  have m1: "m1 = mem_write (mem_write ?z randbuf (le_bytes 8 v0)) (randbuf + 8) (le_bytes 8 v1)" and "args = (0, stack)"
    using assms(2) h v0 v1 by (auto simp: start_c_def fill_random_def)
  then show "args = (0, stack)" by simp
  have m1': "m1 = mem_write ?z randbuf (le_bytes 8 v0 @ le_bytes 8 v1)" by (simp add: m1 mem_write_append)
  have st: "unat (stack + of_nat j) = unat stack + j" if "j < 64" for j
    using assms(1) that unat_plus_small [of stack "of_nat j"] by (simp add: image_ok_def unat_of_nat_small)
  have apart: "unat stack + 64 \<le> unat bss_start \<or> unat bss_stop \<le> unat stack" using assms(1) by (simp add: image_ok_def)
  have "sep stack 64 randbuf 16"
    using assms(1) sep_ranges [of stack 64 randbuf 16] sep_ranges [of randbuf 16 stack 64] sep_sym unat_u64_less [of bss_stop]
    by (fastforce simp: image_ok_def)
  then have "mem_read m1 stack 64 = mem_read ?z stack 64" by (simp add: m1' mem_read_write_sep)
  also have "\<dots> = mem_read m stack 64"
    using apart by (intro nth_equalityI) (auto simp: zero_bss_def zero_loop_at word_le_nat_alt word_less_nat_alt st)
  finally show "mem_read m1 stack 64 = words (init_stack randbuf)" using assms(1) by (simp add: image_ok_def)
  have "mem_read m1 randbuf (8 + 8) = le_bytes 8 v0 @ le_bytes 8 v1"
    using mem_read_write_same [of "le_bytes 8 v0 @ le_bytes 8 v1" ?z randbuf] by (simp add: m1')
  then have "mem_read m1 randbuf 8 = le_bytes 8 v0" by (simp only: mem_read_add) simp
  then show "word_at m1 randbuf = fst (random_word C (fst (has_rdrand C c)) randbuf 0 (snd (has_rdrand C c)))"
    by (simp add: word_at_def h v0)
qed

text \<open>
  C27.  The C library finds what the start code fabricates: from any memory in which the loader has put
  the initial stack, \<^verbatim>\<open>__init_libc\<close> returns, with an empty environment, the page size 4096, the address
  of the random buffer for \<open>AT_RANDOM\<close> and nothing for any other key, and with a stack guard made of the
  first random word with its second byte cleared.
\<close>

theorem libc_starts:
  assumes "image_ok bss_start bss_stop randbuf stack m" "start_c C bss_start bss_stop randbuf stack m c = (args, m1, c1)"
  shows "\<exists>l aux. init_libc guard_at m1 args = Some (l, aux) \<and> l_environ l = stack + 8 \<and> word_at m1 (l_environ l) = 0 \<and>
    l_page_size l = 4096 \<and> (\<forall>k. aux k = (if k = AT_PAGESZ then 4096 else if k = AT_RANDOM then randbuf else 0)) \<and>
    l_guard l = fst (random_word C (fst (has_rdrand C c)) randbuf 0 (snd (has_rdrand C c))) AND NOT 0xFF00"
proof -
  note st = start_memory [OF assms]
  have w: "word_at m1 (stack + 8 * of_nat j) = init_stack randbuf ! j" if "j < 8" for j
    using mem_read_words [of m1 stack "init_stack randbuf" j] st(2) that by (simp add: init_stack_def)
  have ws: "word_at m1 (stack + 8) = 0" "word_at m1 (stack + 16) = 6" "word_at m1 (stack + 24) = 4096"
      "word_at m1 (stack + 32) = 25" "word_at m1 (stack + 40) = randbuf" "word_at m1 (stack + 48) = 0"
    using w [of 1] w [of 2] w [of 3] w [of 4] w [of 5] w [of 6] by (simp_all add: init_stack_def)
  have e: "env_end m1 (stack + 8) 0 = Some 0" using ws(1) by (simp add: env_end.simps)
  have sh: "stack + 16 + 8 * 1 = stack + 24" "stack + 16 + 8 * 2 = stack + 32" "stack + 16 + 8 * 3 = stack + 40" "stack + 16 + 8 * 4 = stack + 48"
      "stack + 16 + 8 * 0 = stack + 16" "(2 :: u64) + 2 = 4" "(2 :: u64) + 1 = 3" "(0 :: u64) + 2 = 2" "(0 :: u64) + 1 = 1"
    by simp_all
  have lt: "(6 :: u64) < 38" "(25 :: u64) < 38" "(6 :: u64) \<noteq> 0" "(25 :: u64) \<noteq> 0" by simp_all
  have a4: "aux_loop m1 (stack + 16) 4 x = Some x" for x
    by (subst aux_loop.simps) (simp only: sh ws Let_def if_True simp_thms)
  have a2: "aux_loop m1 (stack + 16) 2 x = Some (x(25 := randbuf))" for x
    by (subst aux_loop.simps) (simp only: sh ws lt a4 Let_def if_True if_False)
  have a: "aux_loop m1 (stack + 16) 0 (\<lambda>_. 0) = Some ((\<lambda>_. 0)(6 := 4096, 25 := randbuf))"
    by (subst aux_loop.simps) (simp only: sh ws lt a2 Let_def if_True if_False)
  have nz: "randbuf \<noteq> 0" using assms(1) by (simp add: image_ok_def)
  have p: "stack + 8 + 8 * (0 + 1) = stack + 16" "stack + 8 * (scast (0 :: u32) + 1) = stack + 8" by simp_all
  define aux :: "u64 \<Rightarrow> u64" where "aux = (\<lambda>_. 0 :: u64)(6 := 4096, 25 := randbuf)"
  have "init_libc guard_at m1 args = Some (\<lparr>l_environ = stack + 8, l_auxv = stack + 16, l_hwcap = aux 16, l_page_size = aux 6,
      l_guard = init_ssp m1 guard_at (aux 25)\<rparr>, aux)"
    by (simp only: init_libc_def st(1) Let_def prod.case p e a bind.bind_lunit aux_def [symmetric]) (simp add: aux_def)
  then show ?thesis using nz st(3) ws(1) by (simp add: init_ssp_def aux_def)
qed

text \<open>A processor without \<^verbatim>\<open>rdrand\<close>, and an image with the stack below \<^verbatim>\<open>.bss\<close>.\<close>

definition demo_cpu :: "unit cpu" where
  "demo_cpu = \<lparr>c_cpuid = (\<lambda>c. (0, c)), c_rdrand = (\<lambda>c. (0, 0, c)), c_rdtsc = (\<lambda>c. (0x12345678, 7, c))\<rparr>"

definition demo_image :: memory where
  "demo_image = mem_write (\<lambda>_. 0xFF) 0x1000 (words (init_stack 0x2000))"

lemma demo_image_ok: "image_ok 0x2000 0x3000 0x2000 0x1000 demo_image"
  using mem_read_write_same [of "words (init_stack 0x2000)" "\<lambda>_. 0xFF" "0x1000"]
  by (simp add: image_ok_def demo_image_def init_stack_def)

theorem libc_starts_witness:
  "\<exists>args m1 c1 l aux. start_c demo_cpu 0x2000 0x3000 0x2000 0x1000 demo_image () = (args, m1, c1) \<and>
    init_libc 0x9000 m1 args = Some (l, aux) \<and> l_page_size l = 4096 \<and> aux 25 = 0x2000 \<and> l_guard l = 0x712340078"
proof -
  obtain args m1 c1 where s: "start_c demo_cpu 0x2000 0x3000 0x2000 0x1000 demo_image () = (args, m1, c1)"
    by (metis prod_cases3)
  have "fst (random_word demo_cpu (fst (has_rdrand demo_cpu ())) 0x2000 0 (snd (has_rdrand demo_cpu ()))) AND NOT 0xFF00 = 0x712340078"
    by code_simp
  then show ?thesis using libc_starts [OF demo_image_ok s, of "0x9000"] s by auto
qed

section \<open>A failure that is not noticed\<close>

text \<open>
  \<^verbatim>\<open>setc\<close> writes one byte of the variable, and the loop tests the whole of it: with anything in the other
  bytes of the register, a \<^verbatim>\<open>rdrand\<close> that fails (carry clear, value zero) counts as a success, and the
  word is zero instead of the mix with the time stamp.
\<close>

definition stale_cpu :: "unit cpu" where
  "stale_cpu = \<lparr>c_cpuid = (\<lambda>c. (0x40000000, c)), c_rdrand = (\<lambda>c. (0, 0x100, c)), c_rdtsc = (\<lambda>c. (0x12345678, 7, c))\<rparr>"

lemma rdrand_failure_masked:
  "(\<forall>c. ucast (fst (snd (c_rdrand stale_cpu c))) = (0 :: u8)) \<and>
    fst (random_word stale_cpu (fst (has_rdrand stale_cpu ())) buf i (snd (has_rdrand stale_cpu ()))) = 0"
proof -
  have "fst (has_rdrand stale_cpu ())" "snd (has_rdrand stale_cpu ()) = ()" by code_simp+
  moreover have "rdrand_loop 10 stale_cpu 0 0 () = (0, 0x100, ())" by code_simp
  ultimately show ?thesis by (simp add: random_word_def stale_cpu_def)
qed

end
