(* ===== verification/BM_Etharp_Inv.thy ===== *)
theory BM_Etharp_Inv
  imports BM_Etharp BM_Frame
begin

text \<open>
  The ARP table stays well formed: what a sweep over the table finds, which entry is recycled, and that
  every operation of \<^verbatim>\<open>etharp.c\<close> preserves the invariant.
\<close>

lemma bindE: "Option.bind x f = Some y \<Longrightarrow> (\<And>z. x = Some z \<Longrightarrow> f z = Some y \<Longrightarrow> thesis) \<Longrightarrow> thesis"
  by (auto simp: bind_eq_Some_conv)

section \<open>What the layers below leave alone\<close>

definition same_arp :: "('k, 'm, 'z) arp_scheme \<Rightarrow> ('k, 'm, 'z) arp_scheme \<Rightarrow> bool" where
  "same_arp s s' \<longleftrightarrow> arp_table s' = arp_table s \<and> etharp_cached_entry s' = etharp_cached_entry s"

interpretation arp_own: own_state same_arp
  by unfold_locales (simp_all add: same_arp_def)

definition arp_quiet :: "('m, ('k, 'm, 'z) arp_scheme) link_env \<Rightarrow> bool" where
  "arp_quiet E \<longleftrightarrow> env_quiet same_arp E"

lemma arp_quietD:
  assumes "arp_quiet E"
  shows "\<And>p s s'. e_custom_free (le_pbuf E) p s = Some s' \<Longrightarrow> same_arp s s'"
    "\<And>f i p s e s'. le_linkoutput E f i p s = Some (e, s') \<Longrightarrow> same_arp s s'"
  using assms unfolding arp_quiet_def env_quiet_def by blast+

lemma free_arp: "arp_quiet E \<Longrightarrow> pbuf_free (le_pbuf E) p s = Some (r, s') \<Longrightarrow> same_arp s s'"
  by (erule arp_own.free_same) (rule arp_quietD(1))

lemma ethernet_output_arp: "arp_quiet E \<Longrightarrow> ethernet_output K E i p src dst ty s = Some (e, s') \<Longrightarrow> same_arp s s'"
  by (erule arp_own.ethernet_output_same) (rule arp_quietD(2))

lemma etharp_raw_same:
  assumes "arp_quiet E" "etharp_raw K E i es ed hs sip hdst dip opc s = Some (e, s')"
  shows "same_arp s s'"
proof -
  obtain p s1 where 1: "pbuf_alloc (le_pbuf E) PBUF_LINK SIZEOF_ETHARP_HDR PBUF_RAM s = Some (p, s1)" "p = 0 \<longrightarrow> s' = s1"
    using assms(2) by (auto simp: etharp_raw_def bind_eq_Some_conv split: if_splits)
  have s1: "same_arp s s1" by (rule arp_own.alloc_ram_same [OF 1(1)])
  show ?thesis
  proof (cases "p = 0")
    case False
    then obtain m e1 s2 r where 2: "ethernet_output K E i p es ed ETHTYPE_ARP (s1\<lparr>mem := m\<rparr>) = Some (e1, s2)"
        "pbuf_free (le_pbuf E) p s2 = Some (r, s')"
      using assms(2) 1(1) by (auto simp: etharp_raw_def bind_eq_Some_conv split: if_splits)
    have "same_arp s1 s2" using ethernet_output_arp [OF assms(1) 2(1)] by (simp add: same_arp_def)
    then show ?thesis using s1 free_arp [OF assms(1) 2(2)] by (blast intro: arp_own.same_trans)
  qed (use 1(2) s1 in simp)
qed

lemma etharp_request_dst_same:
  "arp_quiet E \<Longrightarrow> etharp_request_dst K E i ip hw s = Some (e, s') \<Longrightarrow> same_arp s s'"
  by (auto simp: etharp_request_dst_def bind_eq_Some_conv dest: etharp_raw_same)

lemma etharp_request_same: "arp_quiet E \<Longrightarrow> etharp_request K E i ip s = Some (e, s') \<Longrightarrow> same_arp s s'"
  by (auto simp: etharp_request_def dest: etharp_request_dst_same)

section \<open>The sweep\<close>

text \<open>The oldest entry with a property, the last one of several of the same age.\<close>

definition oldest :: "etharp_entry list \<Rightarrow> (etharp_entry \<Rightarrow> bool) \<Rightarrow> nat \<Rightarrow> u16 \<Rightarrow> bool" where
  "oldest es P i age \<longleftrightarrow>
     (if \<exists>e \<in> set es. P e
      then i < length es \<and> P (es ! i) \<and> a_ctime (es ! i) = age \<and> (\<forall>e \<in> set es. P e \<longrightarrow> a_ctime e \<le> age)
      else i = ARP_TABLE_SIZE \<and> age = 0)"

definition used :: "etharp_entry \<Rightarrow> bool" where
  "used e \<longleftrightarrow> a_state e \<noteq> ETHARP_STATE_EMPTY"

definition is_stable :: "etharp_entry \<Rightarrow> bool" where
  "is_stable e \<longleftrightarrow> at_least_stable (a_state e)"

definition pending :: "bool \<Rightarrow> etharp_entry \<Rightarrow> bool" where
  "pending queued e \<longleftrightarrow> a_state e = ETHARP_STATE_PENDING \<and> (a_q e \<noteq> 0) = queued"

definition first_empty :: "etharp_entry list \<Rightarrow> nat" where
  "first_empty es = (case first_idx (\<lambda>e. \<not> used e) es of None \<Rightarrow> ARP_TABLE_SIZE | Some i \<Rightarrow> i)"

definition cands_ok :: "etharp_entry list \<Rightarrow> cands \<Rightarrow> bool" where
  "cands_ok es c \<longleftrightarrow> c_empty c = first_empty es \<and> oldest es is_stable (c_old_stable c) (c_age_stable c) \<and>
     oldest es (pending False) (c_old_pending c) (c_age_pending c) \<and> oldest es (pending True) (c_old_queue c) (c_age_queue c)"

lemmas state_preds = used_def is_stable_def pending_def at_least_stable_def

lemma oldest_append:
  "oldest es P i age \<Longrightarrow> oldest (es @ [e]) P (if P e \<and> age \<le> a_ctime e then length es else i)
    (if P e \<and> age \<le> a_ctime e then a_ctime e else age)"
  unfolding oldest_def by (auto simp: nth_append split: if_splits)

lemma first_idx_append:
  "first_idx P (xs @ ys) = (case first_idx P xs of Some i \<Rightarrow> Some i | None \<Rightarrow> map_option (\<lambda>i. length xs + i) (first_idx P ys))"
proof (induction xs)
  case Nil
  then show ?case by (cases "first_idx P ys") simp_all
qed (auto simp: option.map_comp comp_def split: option.splits intro!: option.map_cong)

lemma first_empty_append:
  "first_empty (es @ [e]) = (if \<not> used e \<and> first_empty es = ARP_TABLE_SIZE then length es else first_empty es)"
  if "length es < ARP_TABLE_SIZE"
  using that by (auto simp: first_empty_def first_idx_append split: option.splits dest: first_idx_SomeD(1))

lemma cands_empty: "cands_ok [] no_cands"
  by (simp add: cands_ok_def first_empty_def oldest_def no_cands_def)

lemma cands_ok_append:
  assumes "cands_ok es c"
  shows "oldest (es @ [e]) is_stable (if is_stable e \<and> c_age_stable c \<le> a_ctime e then length es else c_old_stable c)
      (if is_stable e \<and> c_age_stable c \<le> a_ctime e then a_ctime e else c_age_stable c)"
    "oldest (es @ [e]) (pending False) (if pending False e \<and> c_age_pending c \<le> a_ctime e then length es else c_old_pending c)
      (if pending False e \<and> c_age_pending c \<le> a_ctime e then a_ctime e else c_age_pending c)"
    "oldest (es @ [e]) (pending True) (if pending True e \<and> c_age_queue c \<le> a_ctime e then length es else c_old_queue c)
      (if pending True e \<and> c_age_queue c \<le> a_ctime e then a_ctime e else c_age_queue c)"
  using assms by (auto simp only: cands_ok_def intro: oldest_append)

lemma cands_ok_used:
  assumes "cands_ok es c" "used e" "length es < ARP_TABLE_SIZE"
  shows "cands_ok (es @ [e]) (note_cand (length es) e c)"
  using cands_ok_append [OF assms(1), of e] assms
  by (cases "a_state e"; cases "a_q e = 0") (auto simp: cands_ok_def note_cand_def first_empty_append state_preds)

lemma cands_ok_unused:
  assumes "cands_ok es c" "\<not> used e" "length es < ARP_TABLE_SIZE"
  shows "cands_ok (es @ [e]) (if c_empty c = ARP_TABLE_SIZE then c\<lparr>c_empty := length es\<rparr> else c)"
  using cands_ok_append [OF assms(1), of e] assms by (simp add: cands_ok_def first_empty_append state_preds)

lemma find_sweep_eq:
  assumes "cands_ok pre c" "length (pre @ es) \<le> ARP_TABLE_SIZE"
  shows "case find_sweep ip nif (length pre) es c of
      Inl i \<Rightarrow> length pre \<le> i \<and> i < length (pre @ es) \<and> used ((pre @ es) ! i) \<and> matches ip nif ((pre @ es) ! i)
    | Inr c' \<Rightarrow> cands_ok (pre @ es) c' \<and> (\<forall>e \<in> set es. used e \<longrightarrow> \<not> matches ip nif e)"
  using assms
proof (induction es arbitrary: pre c)
  case (Cons e es)
  have len: "length pre < ARP_TABLE_SIZE" "length ((pre @ [e]) @ es) \<le> ARP_TABLE_SIZE" using Cons.prems(2) by auto
  show ?case
  proof (cases "used e")
    case False
    then show ?thesis
      using Cons.IH [OF cands_ok_unused [OF Cons.prems(1) False len(1)] len(2)] by (auto simp: used_def split: sum.splits)
  next
    case True
    show ?thesis
    proof (cases "matches ip nif e")
      case False
      then show ?thesis
        using True Cons.IH [OF cands_ok_used [OF Cons.prems(1) True len(1)] len(2)] by (auto simp: used_def split: sum.splits)
    qed (use True in \<open>simp add: used_def nth_append\<close>)
  qed
qed simp

lemma sweep_hit:
  assumes "find_sweep ip nif 0 es no_cands = Inl i" "length es \<le> ARP_TABLE_SIZE"
  shows "i < length es" "used (es ! i)" "matches ip nif (es ! i)"
  using find_sweep_eq [OF cands_empty, of es ip nif] assms by simp_all

lemma sweep_miss:
  assumes "find_sweep ip nif 0 es no_cands = Inr c" "length es \<le> ARP_TABLE_SIZE"
  shows "cands_ok es c" "\<forall>e \<in> set es. used e \<longrightarrow> \<not> matches ip nif e"
  using find_sweep_eq [OF cands_empty, of es ip nif] assms by simp_all

section \<open>The invariant\<close>

definition key :: "etharp_entry \<Rightarrow> addr \<times> u32" where
  "key e = (a_netif e, a_ipaddr e)"

text \<open>
  Only pending entries have a packet queued, entries are younger than the age at which they expire,
  and entries that packets are sent to have a MAC address.
\<close>

definition entry_ok :: "etharp_entry \<Rightarrow> bool" where
  "entry_ok e \<longleftrightarrow> (a_state e \<noteq> ETHARP_STATE_PENDING \<longrightarrow> a_q e = 0) \<and>
     (used e \<longrightarrow> a_ctime e < ARP_MAXAGE) \<and> (a_state e = ETHARP_STATE_PENDING \<longrightarrow> a_ctime e < ARP_MAXPENDING) \<and>
     (is_stable e \<longrightarrow> length (a_ethaddr e) = 6)"

definition table_ok :: "etharp_entry list \<Rightarrow> bool" where
  "table_ok es \<longleftrightarrow> length es = ARP_TABLE_SIZE \<and> (\<forall>e \<in> set es. entry_ok e) \<and>
     (\<forall>i < length es. \<forall>j < length es. i \<noteq> j \<longrightarrow> used (es ! i) \<longrightarrow> used (es ! j) \<longrightarrow> key (es ! i) \<noteq> key (es ! j))"

definition arp_ok :: "('k, 'm, 'z) arp_scheme \<Rightarrow> bool" where
  "arp_ok s \<longleftrightarrow> table_ok (arp_table s) \<and> etharp_cached_entry s < ARP_TABLE_SIZE"

lemma table_okD:
  assumes "table_ok es" "i < ARP_TABLE_SIZE"
  shows "length es = ARP_TABLE_SIZE" "entry_ok (es ! i)"
    "j < ARP_TABLE_SIZE \<Longrightarrow> j \<noteq> i \<Longrightarrow> used (es ! i) \<Longrightarrow> used (es ! j) \<Longrightarrow> key (es ! j) \<noteq> key (es ! i)"
  using assms unfolding table_ok_def by auto

lemma table_ok_upd:
  assumes "table_ok es" "i < ARP_TABLE_SIZE" "entry_ok e"
    and "used e \<Longrightarrow> \<forall>j < ARP_TABLE_SIZE. j \<noteq> i \<longrightarrow> used (es ! j) \<longrightarrow> key (es ! j) \<noteq> key e"
  shows "table_ok (es[i := e])"
proof -
  have "\<forall>x \<in> set (es[i := e]). entry_ok x" using assms(1,3) set_update_subset_insert [of es i e] by (auto simp: table_ok_def)
  then show ?thesis using assms unfolding table_ok_def by (auto simp: nth_list_update)
qed

lemma table_ok_same_key:
  assumes "table_ok es" "i < ARP_TABLE_SIZE" "entry_ok e" "used e \<Longrightarrow> used (es ! i) \<and> key e = key (es ! i)"
  shows "table_ok (es[i := e])"
  using assms table_okD(3) [OF assms(1,2)] by (intro table_ok_upd) auto

lemma arp_ok_same: "arp_ok s \<Longrightarrow> same_arp s s' \<Longrightarrow> arp_ok s'"
  by (simp add: arp_ok_def same_arp_def)

lemma entry_upd:
  "i < length (arp_table s) \<Longrightarrow> entry (upd_entry i f s) i = f (entry s i)"
  "i \<noteq> j \<Longrightarrow> entry (upd_entry i f s) j = entry s j"
  "arp_table (upd_entry i f s) = (arp_table s)[i := f (entry s i)]"
  "etharp_cached_entry (upd_entry i f s) = etharp_cached_entry s"
  by (simp_all add: upd_entry_def)

lemma arp_ok_upd:
  assumes "arp_ok s" "i < ARP_TABLE_SIZE" "entry_ok (f (entry s i))"
    and "used (f (entry s i)) \<Longrightarrow> used (entry s i) \<and> key (f (entry s i)) = key (entry s i)"
  shows "arp_ok (upd_entry i f s)"
  using assms table_ok_same_key by (auto simp: arp_ok_def entry_upd)

lemma arp_okD: "arp_ok s \<Longrightarrow> i < ARP_TABLE_SIZE \<Longrightarrow> i < length (arp_table s) \<and> entry_ok (entry s i)"
  using table_okD by (auto simp: arp_ok_def)

lemma u16_Suc_le: "(a :: u16) < b \<Longrightarrow> \<not> b \<le> a + 1 \<Longrightarrow> a + 1 < b"
  by simp

section \<open>Every operation preserves it\<close>

lemma q_zero: "a_q e = 0 \<Longrightarrow> e\<lparr>a_q := 0\<rparr> = e"
  by (cases e) simp

lemma free_entry_table:
  assumes "arp_quiet E" "etharp_free_entry E i s = Some s'" "i < length (arp_table s)"
  shows "arp_table s' = (arp_table s)[i := (entry s i)\<lparr>a_q := 0, a_state := ETHARP_STATE_EMPTY\<rparr>]"
    "etharp_cached_entry s' = etharp_cached_entry s"
  using assms
  by (auto simp: etharp_free_entry_def bind_eq_Some_conv entry_upd same_arp_def q_zero split: if_splits dest!: free_arp [OF assms(1)])

lemma entry_ok_empty: "entry_ok (e\<lparr>a_q := 0, a_state := ETHARP_STATE_EMPTY\<rparr>)"
  by (simp add: entry_ok_def state_preds)

lemma free_entry_ok:
  assumes "arp_quiet E" "etharp_free_entry E i s = Some s'" "i < ARP_TABLE_SIZE" "arp_ok s"
  shows "arp_ok s'"
proof -
  have "i < length (arp_table s)" using arp_okD [OF assms(4,3)] by simp
  note t = free_entry_table [OF assms(1,2) this]
  have "table_ok (arp_table s')"
    unfolding t(1) using assms(3,4) by (intro table_ok_same_key) (auto simp: arp_ok_def entry_ok_empty state_preds)
  then show ?thesis using t(2) assms(4) by (simp add: arp_ok_def)
qed

lemma tmr_entry_ok:
  assumes "arp_quiet E" "etharp_tmr_entry K E i s = Some s'" "i < ARP_TABLE_SIZE" "arp_ok s"
  shows "arp_ok s'"
proof (cases "a_state (entry s i) = ETHARP_STATE_EMPTY")
  case True
  then show ?thesis using assms by (simp add: etharp_tmr_entry_def)
next
  case False
  define s1 where "s1 = upd_entry i (\<lambda>e. e\<lparr>a_ctime := a_ctime e + 1\<rparr>) s"
  define e where "e = entry s i"
  have i: "i < length (arp_table s)" and e: "entry_ok e" using arp_okD [OF assms(4,3)] by (auto simp: e_def)
  have e1: "entry s1 i = e\<lparr>a_ctime := a_ctime e + 1\<rparr>" by (simp add: s1_def e_def entry_upd(1) [OF i])
  have i1: "i < length (arp_table s1)" using i by (simp add: s1_def entry_upd)
  have run: "(if a_ctime e + 1 \<ge> ARP_MAXAGE \<or> a_state e = ETHARP_STATE_PENDING \<and> a_ctime e + 1 \<ge> ARP_MAXPENDING then etharp_free_entry E i s1
         else if a_state e = ETHARP_STATE_STABLE_REREQUESTING_1
           then Some (upd_entry i (a_state_update (\<lambda>_. ETHARP_STATE_STABLE_REREQUESTING_2)) s1)
         else if a_state e = ETHARP_STATE_STABLE_REREQUESTING_2
           then Some (upd_entry i (a_state_update (\<lambda>_. ETHARP_STATE_STABLE)) s1)
         else if a_state e = ETHARP_STATE_PENDING
           then do {(_, s2) \<leftarrow> etharp_request K E (a_netif e) (a_ipaddr e) s1; Some s2}
         else Some s1) = Some s'"
    using assms(2) False unfolding etharp_tmr_entry_def Let_def s1_def [symmetric] e1 by (simp split del: if_split cong: if_cong)
  show ?thesis
  proof (cases "a_ctime e + 1 \<ge> ARP_MAXAGE \<or> a_state e = ETHARP_STATE_PENDING \<and> a_ctime e + 1 \<ge> ARP_MAXPENDING")
    case True
    then have "etharp_free_entry E i s1 = Some s'" using run by simp
    note t = free_entry_table [OF assms(1) this i1]
    have "arp_table s' = (arp_table s)[i := e\<lparr>a_ctime := a_ctime e + 1, a_q := 0, a_state := ETHARP_STATE_EMPTY\<rparr>]"
      unfolding t(1) e1 by (simp add: s1_def entry_upd)
    then show ?thesis
      using t(2) assms(3,4) by (auto simp: arp_ok_def s1_def entry_upd entry_ok_def state_preds intro!: table_ok_same_key)
  next
    case young: False
    have ok1: "arp_ok s1"
      unfolding s1_def using young e assms(3,4) by (intro arp_ok_upd) (auto simp: e_def entry_ok_def state_preds key_def)
    moreover have "arp_ok (upd_entry i (a_state_update (\<lambda>_. st)) s1)" if "at_least_stable st" "at_least_stable (a_state e)" for st
      using ok1 that e e1 young assms(3) by (intro arp_ok_upd) (auto simp: entry_ok_def state_preds key_def)
    ultimately show ?thesis
      using run young by (auto simp: at_least_stable_def bind_eq_Some_conv split: if_splits
          dest!: etharp_request_same [OF assms(1)] intro: arp_ok_same)
  qed
qed

lemma tmr_loop_ok:
  "arp_quiet E \<Longrightarrow> etharp_tmr_loop K E is s = Some s' \<Longrightarrow> \<forall>i \<in> set is. i < ARP_TABLE_SIZE \<Longrightarrow> arp_ok s \<Longrightarrow> arp_ok s'"
  by (induction "is" arbitrary: s) (auto simp: bind_eq_Some_conv dest: tmr_entry_ok)

lemma etharp_tmr_ok: "arp_quiet E \<Longrightarrow> etharp_tmr K E s = Some s' \<Longrightarrow> arp_ok s \<Longrightarrow> arp_ok s'"
  using tmr_loop_ok [of E K "[0..<ARP_TABLE_SIZE]"] by (auto simp: etharp_tmr_def)

lemma cleanup_loop_ok:
  "arp_quiet E \<Longrightarrow> etharp_cleanup_loop E nif is s = Some s' \<Longrightarrow> \<forall>i \<in> set is. i < ARP_TABLE_SIZE \<Longrightarrow> arp_ok s \<Longrightarrow> arp_ok s'"
  by (induction "is" arbitrary: s) (auto simp: bind_eq_Some_conv split: if_splits dest: free_entry_ok)

lemma etharp_cleanup_ok: "arp_quiet E \<Longrightarrow> etharp_cleanup_netif E nif s = Some s' \<Longrightarrow> arp_ok s \<Longrightarrow> arp_ok s'"
  using cleanup_loop_ok [of E nif "[0..<ARP_TABLE_SIZE]"] by (auto simp: etharp_cleanup_netif_def)

section \<open>Finding an entry\<close>

text \<open>What \<^verbatim>\<open>etharp_find_entry\<close> returns for an address: the only entry for it, in use or fresh.\<close>

definition found :: "addr \<Rightarrow> u32 \<Rightarrow> nat \<Rightarrow> ('k, 'm, 'z) arp_scheme \<Rightarrow> ('k, 'm, 'z) arp_scheme \<Rightarrow> bool" where
  "found nif ip i s s' \<longleftrightarrow> i < ARP_TABLE_SIZE \<and> arp_ok s' \<and> key (entry s' i) = (nif, ip) \<and>
     (\<forall>j < ARP_TABLE_SIZE. j \<noteq> i \<longrightarrow> used (entry s' j) \<longrightarrow> key (entry s' j) \<noteq> (nif, ip)) \<and>
     (\<forall>j. j \<noteq> i \<longrightarrow> entry s' j = entry s j) \<and> (if used (entry s' i) then s' = s else a_q (entry s' i) = 0 \<and> a_ctime (entry s' i) = 0)"

lemma matches_key: "nif \<noteq> 0 \<Longrightarrow> matches (Some ip) nif e \<longleftrightarrow> key e = (nif, ip)"
  by (auto simp: matches_def key_def)

lemma init_entry_found:
  assumes "arp_ok s1" "i < ARP_TABLE_SIZE" "\<not> used (entry s1 i)" "\<forall>j. j \<noteq> i \<longrightarrow> entry s1 j = entry s j"
    and "\<forall>j < ARP_TABLE_SIZE. used (entry s j) \<longrightarrow> key (entry s j) \<noteq> (nif, ip)"
  shows "found nif ip i s (init_entry (Some ip) nif i s1)"
proof -
  have i: "i < length (arp_table s1)" and e: "entry_ok (entry s1 i)" using arp_okD [OF assms(1,2)] by auto
  let ?s' = "init_entry (Some ip) nif i s1"
  have "arp_ok ?s'"
    unfolding init_entry_def using assms(1-3) e by (intro arp_ok_upd) (auto simp: entry_ok_def state_preds)
  then show ?thesis
    using assms e i by (auto simp: found_def init_entry_def entry_upd key_def state_preds entry_ok_def)
qed

lemma recycle_index: "recycle es c = Some (Some i) \<Longrightarrow> i < ARP_TABLE_SIZE"
  by (auto simp: recycle_def split: if_splits)

lemma find_entry_found:
  assumes "arp_quiet E" "etharp_find_entry E (Some ip) fl nif s = Some (r, s')" "arp_ok s" "nif \<noteq> 0"
  shows "r = ERR_MEM \<and> s' = s \<or> (\<exists>i. r = int i \<and> found nif ip i s s')"
proof (cases "find_sweep (Some ip) nif 0 (arp_table s) no_cands")
  case (Inl i)
  have t: "table_ok (arp_table s)" using assms(3) by (simp add: arp_ok_def)
  then have len: "length (arp_table s) = ARP_TABLE_SIZE" by (simp add: table_ok_def)
  note h = sweep_hit [OF Inl len [THEN eq_refl]]
  have "found nif ip i s s"
    using h table_okD(3) [OF t, of i] len assms(3,4) by (auto simp: found_def matches_key)
  then show ?thesis using Inl assms(2) by (auto simp: etharp_find_entry_def)
next
  case (Inr c)
  have len: "length (arp_table s) = ARP_TABLE_SIZE" using assms(3) by (simp add: arp_ok_def table_ok_def)
  note m = sweep_miss [OF Inr len [THEN eq_refl]]
  have miss: "\<forall>j < ARP_TABLE_SIZE. used (entry s j) \<longrightarrow> key (entry s j) \<noteq> (nif, ip)"
    using m(2) len assms(4) by (auto simp: matches_key)
  consider "r = ERR_MEM" "s' = s" | "c_empty c < ARP_TABLE_SIZE" "r = int (c_empty c)" "s' = init_entry (Some ip) nif (c_empty c) s"
    | i s1 where "recycle (arp_table s) c = Some (Some i)" "etharp_free_entry E i s = Some s1" "r = int i" "s' = init_entry (Some ip) nif i s1"
    using assms(2) Inr by (auto simp: etharp_find_entry_def bind_eq_Some_conv split: if_splits option.splits)
  then show ?thesis
  proof cases
    case 2
    have "\<not> used (entry s (c_empty c))"
      using m(1) 2(1) by (auto simp: cands_ok_def first_empty_def split: option.splits dest: first_idx_SomeD(2))
    then show ?thesis using init_entry_found [OF assms(3) 2(1) _ _ miss] 2(2,3) by auto
  next
    case 3
    have i: "i < ARP_TABLE_SIZE" by (rule recycle_index [OF 3(1)])
    have t: "arp_table s1 = (arp_table s)[i := (entry s i)\<lparr>a_q := 0, a_state := ETHARP_STATE_EMPTY\<rparr>]"
      using free_entry_table(1) [OF assms(1) 3(2)] i len by simp
    have "\<not> used (entry s1 i)" "\<forall>j. j \<noteq> i \<longrightarrow> entry s1 j = entry s j"
      unfolding t using i len by (simp_all add: state_preds)
    then show ?thesis using init_entry_found [OF free_entry_ok [OF assms(1) 3(2) i assms(3)] i _ _ miss] 3(3,4) by auto
  qed simp
qed

section \<open>Learning and sending\<close>

lemma found_upd_ok:
  assumes "found nif ip i s s1" "entry_ok (f (entry s1 i))" "key (f (entry s1 i)) = (nif, ip)"
  shows "arp_ok (upd_entry i f s1)"
proof -
  have ok: "table_ok (arp_table s1)" "etharp_cached_entry s1 < ARP_TABLE_SIZE" and i: "i < ARP_TABLE_SIZE"
    using assms(1) by (auto simp: found_def arp_ok_def)
  have "table_ok ((arp_table s1)[i := f (entry s1 i)])"
    using ok(1) i assms by (intro table_ok_upd) (auto simp: found_def)
  then show ?thesis using ok(2) by (simp add: arp_ok_def entry_upd)
qed

text \<open>The table after a pair of addresses has been learnt in entry \<open>i\<close>.\<close>

definition learnt :: "addr \<Rightarrow> u32 \<Rightarrow> u8 list \<Rightarrow> nat \<Rightarrow> ('k, 'm, 'z) arp_scheme \<Rightarrow> ('k, 'm, 'z) arp_scheme \<Rightarrow> bool" where
  "learnt nif ip mac i s s' \<longleftrightarrow> i < ARP_TABLE_SIZE \<and> a_state (entry s' i) = ETHARP_STATE_STABLE \<and>
     key (entry s' i) = (nif, ip) \<and> a_ethaddr (entry s' i) = mac \<and> a_ctime (entry s' i) = 0 \<and> (\<forall>j. j \<noteq> i \<longrightarrow> entry s' j = entry s j)"

lemma learnt_same: "learnt nif ip mac i s s1 \<Longrightarrow> same_arp s1 s2 \<Longrightarrow> learnt nif ip mac i s s2"
  by (simp add: learnt_def same_arp_def)

lemma update_entry_cases:
  assumes "arp_quiet E" "etharp_update_arp_entry K E nif ip mac fl s = Some (e, s')" "arp_ok s" "nif \<noteq> 0" "length mac = 6"
  shows "arp_ok s' \<and> (e < 0 \<and> s' = s \<or> e = ERR_OK \<and> (\<exists>i. learnt nif ip mac i s s'))"
proof -
  have err: "ERR_ARG < 0" "ERR_MEM < 0" "ERR_OK \<noteq> ERR_ARG" by (simp_all add: ERR_ARG_def ERR_MEM_def ERR_OK_def)
  have "e = ERR_ARG \<and> s' = s \<or> (\<exists>r s1. etharp_find_entry E (Some ip) fl nif s = Some (r, s1) \<and> (if r < 0 then e = r \<and> s' = s1 else e = ERR_OK))"
    using assms(2) by (auto simp: etharp_update_arp_entry_def bind_eq_Some_conv Let_def split: if_splits)
  then consider "e = ERR_ARG" "s' = s" | r s1 where "etharp_find_entry E (Some ip) fl nif s = Some (r, s1)" "r < 0" "e = r" "s' = s1"
    | i s1 where "etharp_find_entry E (Some ip) fl nif s = Some (int i, s1)" "e = ERR_OK"
    by (metis nat_0_le not_less)
  then show ?thesis
  proof cases
    case 2
    then show ?thesis using find_entry_found [OF assms(1) 2(1) assms(3,4)] assms(3) by auto
  next
    case 3
    have f: "found nif ip i s s1" using find_entry_found [OF assms(1) 3(1) assms(3,4)] by (auto simp: ERR_MEM_def)
    define g :: "etharp_entry \<Rightarrow> etharp_entry" where "g = (\<lambda>e. e\<lparr>a_state := ETHARP_STATE_STABLE, a_netif := nif, a_ethaddr := mac, a_ctime := 0\<rparr>)"
    define s2 where "s2 = upd_entry i g s1"
    define s3 where "s3 = upd_entry i (a_q_update (\<lambda>_. 0)) s2"
    have i: "i < ARP_TABLE_SIZE" "i < length (arp_table s1)" using f arp_okD by (auto simp: found_def)
    have t3: "arp_table s3 = (arp_table s1)[i := (g (entry s1 i))\<lparr>a_q := 0\<rparr>]" "etharp_cached_entry s3 = etharp_cached_entry s1"
      using i by (simp_all add: s3_def s2_def entry_upd)
    have k: "key ((g (entry s1 i))\<lparr>a_q := 0\<rparr>) = (nif, ip)" "entry_ok ((g (entry s1 i))\<lparr>a_q := 0\<rparr>)"
      using f assms(5) by (auto simp: found_def key_def g_def entry_ok_def state_preds ARP_MAXAGE_def)
    have ok3: "arp_ok s3"
      using found_upd_ok [OF f, of "\<lambda>e. (g e)\<lparr>a_q := 0\<rparr>"] k t3 by (simp add: arp_ok_def entry_upd)
    have l3: "learnt nif ip mac i s s3"
      using i t3 k(1) f by (simp add: learnt_def g_def found_def key_def)
    have "s' = s2 \<and> a_q (entry s2 i) = 0 \<or> same_arp s3 s'"
      using assms(2) 3 err unfolding etharp_update_arp_entry_def Let_def
      by (auto simp: bind_eq_Some_conv s2_def [symmetric] s3_def [symmetric] g_def [symmetric] split: if_splits
          dest!: ethernet_output_arp [OF assms(1)] free_arp [OF assms(1)] intro: arp_own.same_trans)
    moreover have "same_arp s3 s2" if "a_q (entry s2 i) = 0"
      using that i t3 by (simp add: same_arp_def s2_def entry_upd q_zero)
    ultimately have "same_arp s3 s'" by auto
    then show ?thesis using ok3 l3 3(2) by (blast intro: arp_ok_same learnt_same)
  qed (use assms(3) err in auto)
qed

lemma cached_ok: "arp_ok s \<Longrightarrow> i < ARP_TABLE_SIZE \<Longrightarrow> arp_ok (s\<lparr>etharp_cached_entry := i\<rparr>)"
  by (simp add: arp_ok_def)

lemma to_index_ok:
  assumes "arp_quiet E" "etharp_output_to_arp_index K E nif q i s = Some (e, s')" "arp_ok s" "i < ARP_TABLE_SIZE"
  shows "arp_ok s'"
proof -
  have re: "arp_ok (upd_entry i (a_state_update (\<lambda>_. ETHARP_STATE_STABLE_REREQUESTING_1)) s1)"
    if "same_arp s s1" "a_state (entry s i) = ETHARP_STATE_STABLE" for s1
    using that assms(4) arp_ok_same [OF assms(3) that(1)] arp_okD [OF assms(3,4)]
    by (intro arp_ok_upd) (auto simp: same_arp_def entry_ok_def state_preds key_def)
  obtain s1 hw ea where 1: "same_arp s s1 \<or> (\<exists>s2. same_arp s s2 \<and> a_state (entry s i) = ETHARP_STATE_STABLE \<and>
        s1 = upd_entry i (a_state_update (\<lambda>_. ETHARP_STATE_STABLE_REREQUESTING_1)) s2)"
      "ethernet_output K E nif q hw ea ETHTYPE_IP s1 = Some (e, s')"
    using assms(2) by (auto simp: etharp_output_to_arp_index_def bind_eq_Some_conv split: if_splits
        dest!: etharp_request_same [OF assms(1)] etharp_request_dst_same [OF assms(1)] intro: arp_own.same_refl)
  have "arp_ok s1" using 1(1) re arp_ok_same [OF assms(3)] by blast
  then show ?thesis using ethernet_output_arp [OF assms(1) 1(2)] arp_ok_same by blast
qed

lemma enqueue_ok:
  assumes "arp_quiet E" "etharp_enqueue E q i s = Some (e, s')" "arp_ok s" "i < ARP_TABLE_SIZE" "a_state (entry s i) = ETHARP_STATE_PENDING"
  shows "arp_ok s'"
proof -
  obtain c p s1 where c: "(if c then pbuf_clone (le_pbuf E) PBUF_LINK PBUF_RAM q s else do {s1 \<leftarrow> pbuf_ref q s; Some (q, s1)}) = Some (p, s1)"
      "(if p \<noteq> 0 then do {
         s2 \<leftarrow> (if a_q (entry s1 i) \<noteq> 0 then do {(_, s2) \<leftarrow> pbuf_free (le_pbuf E) (a_q (entry s1 i)) s1; Some s2} else Some s1);
         Some (ERR_OK, upd_entry i (a_q_update (\<lambda>_. p)) s2)}
       else Some (ERR_MEM, s1)) = Some (e, s')"
    using assms(2) unfolding etharp_enqueue_def by (elim bindE) (simp only: split_paired_all prod.case)
  have "same_arp s s1"
    using c(1) arp_own.clone_same [OF _ arp_quietD(1) [OF assms(1)]] arp_own.ref_same
    by (simp add: bind_eq_Some_conv split: if_splits) blast
  moreover have "s' = s1 \<or> (\<exists>p s2. same_arp s1 s2 \<and> s' = upd_entry i (a_q_update (\<lambda>_. p)) s2)"
    using c(2) free_arp [OF assms(1)] arp_own.same_refl by (simp add: bind_eq_Some_conv split: if_splits) blast+
  ultimately have 1: "same_arp s s1" "s' = s1 \<or> (\<exists>p s2. same_arp s1 s2 \<and> s' = upd_entry i (a_q_update (\<lambda>_. p)) s2)" by auto
  have "arp_ok (upd_entry i (a_q_update (\<lambda>_. p)) s2)" if "same_arp s s2" for p s2
    using arp_ok_same [OF assms(3) that] arp_okD [OF assms(3,4)] assms(4,5) that
    by (intro arp_ok_upd) (auto simp: same_arp_def entry_ok_def state_preds key_def)
  then show ?thesis using 1 arp_ok_same [OF assms(3)] by (blast intro: arp_own.same_trans)
qed

text \<open>The entry of a query: in use already, or pending from now on.\<close>

lemma new_pending_ok:
  assumes "found nif ip i s s1" "\<not> used (entry s1 i)"
  shows "arp_ok (upd_entry i (\<lambda>e. e\<lparr>a_state := ETHARP_STATE_PENDING, a_netif := nif\<rparr>) s1)"
  using assms by (intro found_upd_ok [OF assms(1)]) (auto simp: found_def entry_ok_def state_preds key_def ARP_MAXAGE_def ARP_MAXPENDING_def)

lemma query_request_ok:
  assumes "arp_quiet E" "query_request K E nif ip q i new s = Some (e, s')" "arp_ok s" "i < ARP_TABLE_SIZE"
  shows "arp_ok s'"
proof -
  have r: "arp_ok (upd_entry i (a_ctime_update (\<lambda>_. 0)) t)" if "arp_ok t" for t
    using arp_okD [OF that assms(4)] that assms(4)
    by (intro arp_ok_upd) (auto simp: entry_ok_def state_preds key_def ARP_MAXAGE_def ARP_MAXPENDING_def)
  show ?thesis
    using assms(2,3) by (auto simp: query_request_def bind_eq_Some_conv split: if_splits
        dest!: etharp_request_same [OF assms(1)] intro!: r intro: arp_ok_same)
qed

lemma query_deliver_ok:
  assumes "arp_quiet E" "query_deliver K E nif q i r s = Some (e, s')" "arp_ok s" "i < ARP_TABLE_SIZE"
  shows "arp_ok s'"
  using assms(2,3) enqueue_ok [OF assms(1) _ assms(3,4)] arp_ok_same [OF cached_ok [OF assms(3,4)]]
  by (auto simp: query_deliver_def bind_eq_Some_conv split: if_splits dest!: ethernet_output_arp [OF assms(1)])

lemma etharp_query_ok:
  assumes "arp_quiet E" "etharp_query K E nif ip q s = Some (e, s')" "arp_ok s" "nif \<noteq> 0"
  shows "arp_ok s'"
proof -
  have "s' = s \<or> (\<exists>r s1. etharp_find_entry E (Some ip) ETHARP_FLAG_TRY_HARD nif s = Some (r, s1) \<and> (r < 0 \<longrightarrow> s' = s1))"
    using assms(2) by (auto simp: etharp_query_def bind_eq_Some_conv split: if_splits)
  then consider "s' = s" | i s1 where "etharp_find_entry E (Some ip) ETHARP_FLAG_TRY_HARD nif s = Some (int i, s1)" "found nif ip i s s1"
    using find_entry_found [OF assms(1) _ assms(3,4)] by (metis ERR_MEM_def neg_less_0_iff_less zero_less_one)
  then show ?thesis
  proof cases
    case 2
    note f = 2(2)
    have i: "i < ARP_TABLE_SIZE" using f by (simp add: found_def)
    define new where "new \<longleftrightarrow> a_state (entry s1 i) = ETHARP_STATE_EMPTY"
    define s2 where "s2 = (if new then upd_entry i (\<lambda>e. e\<lparr>a_state := ETHARP_STATE_PENDING, a_netif := nif\<rparr>) s1 else s1)"
    have ok2: "arp_ok s2" using f new_pending_ok [OF f] by (auto simp: s2_def new_def used_def found_def)
    have "s' = s \<or> (\<exists>r s3. query_request K E nif ip q i new s2 = Some (r, s3) \<and> query_deliver K E nif q i r s3 = Some (e, s'))"
      using assms(2) 2(1) unfolding etharp_query_def Let_def
      by (auto simp: bind_eq_Some_conv new_def s2_def split: if_splits)
    then show ?thesis
      using assms(3) query_request_ok [OF assms(1) _ ok2 i] query_deliver_ok [OF assms(1) _ _ i] by blast
  qed (use assms(3) in simp)
qed

lemma output_unicast_ok:
  assumes "arp_quiet E" "output_unicast K E nif q ip s = Some (e, s')" "arp_ok s" "nif \<noteq> 0"
  shows "arp_ok s'"
proof -
  have c: "etharp_cached_entry s < ARP_TABLE_SIZE" "length (arp_table s) = ARP_TABLE_SIZE"
    using assms(3) by (simp_all add: arp_ok_def table_ok_def)
  have "arp_ok s'" if "first_idx (hits nif ip) (arp_table s) = Some i"
      "etharp_output_to_arp_index K E nif q i (s\<lparr>etharp_cached_entry := i\<rparr>) = Some (e, s')" for i
    using that first_idx_SomeD(1) [OF that(1)] c(2) to_index_ok [OF assms(1) that(2) cached_ok [OF assms(3)]] by simp
  then show ?thesis
    using assms(2) to_index_ok [OF assms(1) _ assms(3) c(1)] etharp_query_ok [OF assms(1) _ assms(3,4)]
    by (auto simp: output_unicast_def split: if_splits option.splits)
qed

lemma etharp_output_ok:
  assumes "arp_quiet E" "etharp_output K E nif q ip s = Some (e, s')" "arp_ok s" "nif \<noteq> 0"
  shows "arp_ok s'"
  using assms(2,3) output_unicast_ok [OF assms(1) _ assms(3,4)]
  by (auto simp: etharp_output_def bind_eq_Some_conv split: if_splits
      dest!: ethernet_output_arp [OF assms(1)] intro: arp_ok_same)

lemma etharp_respond_same: "arp_quiet E \<Longrightarrow> etharp_respond K E nif hdr fu fr ip s = Some s' \<Longrightarrow> same_arp s s'"
  by (auto simp: etharp_respond_def Let_def bind_eq_Some_conv split: if_splits dest: etharp_raw_same intro: arp_own.same_refl)

lemma etharp_input_cases:
  assumes "etharp_input K E p nif s = Some s'" "nif \<noteq> 0"
  obtains (invalid) r where "pbuf_free (le_pbuf E) p s = Some (r, s')"
  | (valid) n hdr sip fu fr e s1 s2 r where "netif_store s nif = Some n"
      "etharp_update_arp_entry K E nif sip (mem_read (mem s) (hdr + 8) 6) (if fu then ETHARP_FLAG_TRY_HARD else ETHARP_FLAG_FIND_ONLY) s = Some (e, s1)"
      "etharp_respond K E nif hdr fu fr sip s1 = Some s2" "pbuf_free (le_pbuf E) p s2 = Some (r, s')"
proof -
  obtain b where b: "pbufs s p = Some b" using assms by (auto simp: etharp_input_def bind_eq_Some_conv)
  show ?thesis
  proof (cases "arp_hdr_valid (mem s) (p_payload b)")
    case False
    then show ?thesis using assms b invalid by (auto simp: etharp_input_def bind_eq_Some_conv)
  next
    case True
    then show ?thesis using assms b valid unfolding etharp_input_def Let_def by (fastforce simp: bind_eq_Some_conv)
  qed
qed

lemma etharp_input_ok:
  assumes "arp_quiet E" "etharp_input K E p nif s = Some s'" "arp_ok s"
  shows "arp_ok s'"
proof (cases "nif = 0")
  case False
  from assms(2) False show ?thesis
  proof (cases rule: etharp_input_cases)
    case invalid
    then show ?thesis using free_arp [OF assms(1)] arp_ok_same [OF assms(3)] by blast
  next
    case (valid n hdr sip fu fr e s1 s2 r)
    have "arp_ok s1" using update_entry_cases [OF assms(1) valid(2) assms(3) False] by simp
    then show ?thesis using etharp_respond_same [OF assms(1) valid(3)] free_arp [OF assms(1) valid(4)] arp_ok_same by blast
  qed
qed (use assms in \<open>simp add: etharp_input_def\<close>)

end
