(* ===== verification/BM_Etharp_Send.thy ===== *)
theory BM_Etharp_Send
  imports BM_Etharp_Inv
begin

text \<open>
  ARP messages on the wire: the bytes that \<^verbatim>\<open>etharp_raw\<close> writes, that it hands the kernel one frame with them,
  and what it leaves behind.
\<close>

section \<open>The message\<close>

definition arp_msg :: "u16 \<Rightarrow> u8 list \<Rightarrow> u32 \<Rightarrow> u8 list \<Rightarrow> u32 \<Rightarrow> u8 list" where
  "arp_msg opcode hwsrc ipsrc hwdst ipdst =
     [0, 1] @ [8, 0] @ [6] @ [4] @ rev (le_bytes 2 opcode) @ hwsrc @ le_bytes 4 ipsrc @ hwdst @ le_bytes 4 ipdst"

lemma length_arp_msg [simp]: "length hs = 6 \<Longrightarrow> length ht = 6 \<Longrightarrow> length (arp_msg opc hs sip ht dip) = 28"
  by (simp add: arp_msg_def)

lemma mem_read_write_eq: "length bs = n \<Longrightarrow> n \<le> 2 ^ 64 \<Longrightarrow> mem_read (mem_write m a bs) a n = bs"
  using mem_read_write_same by blast

lemma le_bytes_2_numerals: "rev (le_bytes 2 (1 :: u16)) = [0, 1]" "rev (le_bytes 2 (0x0800 :: u16)) = [8, 0]"
  "rev (le_bytes 2 (0x0806 :: u16)) = [8, 6]"
  by (simp_all add: le_bytes_2)

lemma write_arp_hdr_fields:
  assumes "length hs = 6" "length ht = 6"
    and M: "M = write_arp_hdr a opc hs ht sip dip m"
  shows "mem_read M a 2 = [0, 1]" "mem_read M (a + 2) 2 = [8, 0]" "mem_read M (a + 4) 1 = [6]" "mem_read M (a + 5) 1 = [4]"
    "mem_read M (a + 6) 2 = rev (le_bytes 2 opc)" "mem_read M (a + 8) 6 = hs" "mem_read M (a + 14) 4 = le_bytes 4 sip"
    "mem_read M (a + 18) 6 = ht" "mem_read M (a + 24) 4 = le_bytes 4 dip"
  using assms(1,2)
  by (simp_all add: M write_arp_hdr_def Let_def mem_read_write_sep mem_read_write_eq sep_def le_bytes_htons
      le_bytes_2_numerals ETHTYPE_IP_def unsigned_minus_1_eq_mask mask_eq_exp_minus_1 del: mem_write.simps)

lemma mem_read_28:
  "mem_read m a 28 = mem_read m a 2 @ mem_read m (a + 2) 2 @ mem_read m (a + 4) 1 @ mem_read m (a + 5) 1 @
     mem_read m (a + 6) 2 @ mem_read m (a + 8) 6 @ mem_read m (a + 14) 4 @ mem_read m (a + 18) 6 @ mem_read m (a + 24) 4"
  for a :: addr
  using mem_read_add [of m a 2 26] mem_read_add [of m "a + 2" 2 24] mem_read_add [of m "a + 4" 1 23] mem_read_add [of m "a + 5" 1 22]
    mem_read_add [of m "a + 6" 2 20] mem_read_add [of m "a + 8" 6 14] mem_read_add [of m "a + 14" 4 10] mem_read_add [of m "a + 18" 6 4]
  by (simp add: add.assoc)

lemma write_arp_hdr_msg:
  "length hs = 6 \<Longrightarrow> length ht = 6 \<Longrightarrow> mem_read (write_arp_hdr a opc hs ht sip dip m) a 28 = arp_msg opc hs sip ht dip"
  unfolding mem_read_28 by (simp only: write_arp_hdr_fields [OF _ _ refl] arp_msg_def)

lemma write_arp_hdr_off:
  assumes "sep x k a 28" "length hs = 6" "length ht = 6"
  shows "mem_read (write_arp_hdr a opc hs ht sip dip m) x k = mem_read m x k"
proof -
  have "sep x k (a + of_nat i) j" if "i + j \<le> 28" for i j using sep_sub [OF assms(1) that] by simp
  from this [of 6 2] this [of 8 6] this [of 18 6] this [of 14 4] this [of 24 4] this [of 0 2] this [of 2 2] this [of 4 1] this [of 5 1]
  show ?thesis using assms(2,3) by (simp add: write_arp_hdr_def Let_def mem_read_write_sep del: mem_write.simps)
qed

section \<open>Blocks of memory for packets\<close>

text \<open>The C library's next block, for a packet of one buffer.\<close>

definition ram_block :: "('m, 's) pbuf_env \<Rightarrow> pbuf_layer \<Rightarrow> u16 \<Rightarrow> 'm \<Rightarrow> addr \<Rightarrow> 'm \<Rightarrow> bool" where
  "ram_block E l len a p a' \<longleftrightarrow> e_malloc E (of_nat (ram_size (layer_offset l) len)) a = (p, a') \<and> p \<noteq> 0 \<and>
     LWIP_MEM_ALIGN p = p \<and> unat p + ram_size (layer_offset l) len + 3 < 2 ^ 64"

text \<open>The buffer in it: its payload starts at some offset behind the struct and the room for headers.\<close>

definition ram_pbuf :: "addr \<Rightarrow> pbuf_layer \<Rightarrow> u16 \<Rightarrow> nat \<Rightarrow> pbuf \<Rightarrow> bool" where
  "ram_pbuf p l len d b \<longleftrightarrow> p_payload b = p + of_nat d \<and> 24 + unat (layer_offset l) \<le> d \<and> d + unat len \<le> ram_size (layer_offset l) len \<and>
     p_next b = 0 \<and> p_len b = len \<and> p_tot_len b = len \<and> p_ref b = 1 \<and> p_flags b = 0 \<and> p_if_idx b = 0 \<and> p_type_internal b = ucast PBUF_RAM"

lemma alloc_ram_struct:
  "pbuf_alloc E l n PBUF_RAM s = Some (p, s') \<Longrightarrow> p \<noteq> 0 \<Longrightarrow> pbufs s' p = Some b \<Longrightarrow>
    s' = s\<lparr>alloc := alloc s', pbufs := (pbufs s)(p \<mapsto> b)\<rparr> \<and> p_next b = 0 \<and> p_len b = n \<and> p_tot_len b = n \<and> p_ref b = 1 \<and>
      p_flags b = 0 \<and> p_if_idx b = 0 \<and> p_type_internal b = ucast PBUF_RAM"
  by (auto simp: pbuf_alloc_def pbuf_consts pbuf_alloc_ram_def Let_def bind_eq_Some_conv mem_malloc_def pbuf_init_alloced_pbuf_def put_pbuf_def
      split: if_splits prod.splits)

lemma alloc_ram_block:
  assumes "ram_block E l len (alloc s) p a"
  shows "\<exists>b d. pbuf_alloc E l len PBUF_RAM s = Some (p, s\<lparr>alloc := a, pbufs := (pbufs s)(p \<mapsto> b)\<rparr>) \<and> ram_pbuf p l len d b"
proof -
  obtain s' b where a: "pbuf_alloc E l len PBUF_RAM s = Some (p, s')" "alloc s' = a" "pbufs s' = (pbufs s)(p \<mapsto> b)"
      "unat p + 24 + unat (layer_offset l) \<le> unat (p_payload b)" "unat (p_payload b) + unat len \<le> unat p + ram_size (layer_offset l) len"
    using pbuf_alloc_ram_eq [of E l len s p a] assms by (auto simp: ram_block_def)
  have p: "p \<noteq> 0" using assms by (simp add: ram_block_def)
  have b: "pbufs s' p = Some b" using a(3) by simp
  define d where "d = unat (p_payload b) - unat p"
  have "unat (p_payload b) = unat p + d" using a(4) by (simp add: d_def)
  then have "of_nat (unat (p_payload b)) = (of_nat (unat p) + of_nat d :: addr)" by (simp only: of_nat_add)
  then have "p_payload b = p + of_nat d" by simp
  moreover have "24 + unat (layer_offset l) \<le> d" "d + unat len \<le> ram_size (layer_offset l) len" using a(4,5) by (simp_all add: d_def)
  ultimately show ?thesis using alloc_ram_struct [OF a(1) p b] a(1,2) by (auto simp: ram_pbuf_def)
qed

lemma ram_packet: "ram_pbuf p l len d b \<Longrightarrow> p \<noteq> 0 \<Longrightarrow> P p = Some b \<Longrightarrow> packet P p [p] (unat len)"
  by (simp add: packet_Cons packet_Nil ram_pbuf_def)

lemma ram_sep:
  assumes "ram_pbuf p l len d b" "sep x k p (ram_size (layer_offset l) len)" "j \<le> d" "i \<le> j + unat len"
  shows "sep x k (p_payload b - of_nat j) i"
proof -
  have "p_payload b - of_nat j = p + of_nat (d - j)" using assms(1,3) by (simp add: ram_pbuf_def of_nat_diff)
  moreover have "d - j + i \<le> ram_size (layer_offset l) len" using assms by (auto simp: ram_pbuf_def)
  moreover have "ram_size (layer_offset l) len < 2 ^ 64"
    using unat_align_size [of "ucast (layer_offset l)"] unat_align_size [of "ucast len"] unat_u16_less [of len] layer_offset_le [of l]
    by (simp add: ram_size_def unsigned_ucast_eq take_bit_nat_eq_self)
  ultimately show ?thesis using sep_sub [OF assms(2), of "d - j" i] by simp
qed

lemma ram_free:
  assumes "p \<noteq> 0" "LWIP_MEM_ALIGN p = p" "pbufs s p = Some b" "p_next b = 0" "p_ref b = 1" "p_flags b AND PBUF_FLAG_IS_CUSTOM = 0"
    and "p_type_internal b = ucast PBUF_RAM"
  shows "pbuf_free E p s = Some (1, s\<lparr>alloc := e_free E p (alloc s), pbufs := (pbufs s)(p := None)\<rparr>)"
proof -
  have "freeable (pbufs s) p" "sole_ref (pbufs s) p" using assms by (simp_all add: freeable_def sole_ref_def pbuf_consts)
  moreover have "release (pbufs s) [p] = (pbufs s)(p := None)"
    using \<open>sole_ref (pbufs s) p\<close> by (auto simp: release_def released_def)
  ultimately show ?thesis using pbuf_free_eq [of s p "[p]" E] assms by (simp add: released_def)
qed

text \<open>Room for an Ethernet header in front of the payload.\<close>

lemma ram_room:
  assumes "ram_pbuf p l len d b" "14 \<le> unat (layer_offset l)" "unat p + ram_size (layer_offset l) len + 3 < 2 ^ 64"
  shows "p_type_internal b AND PBUF_TYPE_FLAG_STRUCT_DATA_CONTIGUOUS \<noteq> 0" "p + SIZEOF_STRUCT_PBUF \<le> p_payload b - 14"
proof -
  have d: "p_payload b = p + of_nat d" "24 + 14 \<le> d" "unat p + d + 3 < 2 ^ 64" using assms by (simp_all add: ram_pbuf_def)
  have "unat (p_payload b - 14) = unat p + (d - 14)"
    using d(2,3) unfolding d(1) by (simp add: unat_plus_small unat_minus_small word_le_nat_alt)
  then show "p + SIZEOF_STRUCT_PBUF \<le> p_payload b - 14" using d(2,3) by (simp add: word_le_nat_alt unat_plus_small)
  show "p_type_internal b AND PBUF_TYPE_FLAG_STRUCT_DATA_CONTIGUOUS \<noteq> 0" using assms(1) by (simp add: ram_pbuf_def pbuf_consts)
qed

section \<open>Sending\<close>

definition good_netif :: "netif \<Rightarrow> bool" where
  "good_netif n \<longleftrightarrow> n_hwaddr_len n = 6 \<and> n_linkoutput n = Low_level_output \<and> length (n_hwaddr n) = 6"

lemma ram_size_arp: "ram_size (layer_offset PBUF_LINK) 28 = 68" "ram_size 14 28 = 68"
  by (simp_all add: ram_size_def LWIP_MEM_ALIGN_SIZE_def)

lemma etharp_raw_eq:
  assumes "ram_block (le_pbuf E) PBUF_LINK 28 (alloc s) p a" "netif_store s i = Some n" "good_netif n"
    and "le_txbuf E \<noteq> 0" "sep (le_txbuf E) 42 p 68" "length es = 6" "length ed = 6" "length hs = 6" "length ht = 6"
  shows "\<exists>m. etharp_raw K E i es ed hs sip ht dip opc s = Some (ERR_OK, s\<lparr>alloc := e_free (le_pbuf E) p a, pbufs := (pbufs s)(p := None),
      mem := m, kern := k_net_tx K (ed @ es @ [8, 6] @ arp_msg opc hs sip ht dip) 0 (kern s)\<rparr>) \<and>
    (\<forall>x k. sep x k p 68 \<longrightarrow> sep x k (le_txbuf E) 42 \<longrightarrow> mem_read m x k = mem_read (mem s) x k)"
proof -
  have p: "p \<noteq> 0" "LWIP_MEM_ALIGN p = p" "unat p + 71 < 2 ^ 64" using assms(1) by (simp_all add: ram_block_def ram_size_arp)
  obtain b d where b: "pbuf_alloc (le_pbuf E) PBUF_LINK 28 PBUF_RAM s = Some (p, s\<lparr>alloc := a, pbufs := (pbufs s)(p \<mapsto> b)\<rparr>)"
      "ram_pbuf p PBUF_LINK 28 d b"
    using alloc_ram_block [OF assms(1)] by blast
  have d: "38 \<le> d" and len: "p_len b = 28"
    using b(2) by (simp_all add: ram_pbuf_def ram_size_arp)
  note sp = ram_sep [OF b(2), unfolded ram_size_arp]
  define m0 where "m0 = write_arp_hdr (p_payload b) opc hs ht sip dip (mem s)"
  define s1 where "s1 = s\<lparr>alloc := a, pbufs := (pbufs s)(p \<mapsto> b), mem := m0\<rparr>"
  define frame where "frame = ed @ es @ [8, 6] @ arp_msg opc hs sip ht dip"
  have P: "pbufs s1 p = Some b" and pk: "packet (pbufs s1) p [p] 28"
    using ram_packet [OF b(2) p(1)] by (simp_all add: s1_def)
  have dat: "data s1 [p] = arp_msg opc hs sip ht dip"
    using write_arp_hdr_msg [OF assms(8,9)] len by (simp add: s1_def pbuf_bytes_def m0_def)
  note c = ram_room [OF b(2), unfolded ram_size_arp]
  let ?P = "(pbufs s1)(p \<mapsto> with_header b)"
  have "sep (le_txbuf E) 42 (p_payload b - 14) 42" using sp [OF assms(5), of 14 42] d by simp
  then have off: "off_block ?P [p] (le_txbuf E) (28 + 14)" by (simp add: with_header_def len sep_sym [of _ 42 "le_txbuf E"])
  have out: "ethernet_output K E i p es ed 0x0806 s1 = Some (ERR_OK, s1\<lparr>pbufs := ?P,
      mem := mem_write (eth_written m0 (p_payload b - 14) es ed 0x0806) (le_txbuf E) frame, kern := k_net_tx K frame 0 (kern s)\<rparr>)"
    using ethernet_output_eq [OF pk P _ c _ off assms(4), of i n es ed K "0x0806"] assms(2,3,6,7) dat p(3)
    by (simp add: good_netif_def s1_def frame_def le_bytes_2_numerals)
  define m where "m = mem_write (eth_written m0 (p_payload b - 14) es ed 0x0806) (le_txbuf E) frame"
  have "pbuf_free (le_pbuf E) p (s1\<lparr>pbufs := ?P, mem := m, kern := k_net_tx K frame 0 (kern s)\<rparr>) =
      Some (1, s\<lparr>alloc := e_free (le_pbuf E) p a, pbufs := (pbufs s)(p := None), mem := m, kern := k_net_tx K frame 0 (kern s)\<rparr>)"
    using ram_free [OF p(1,2), of "s1\<lparr>pbufs := ?P, mem := m, kern := k_net_tx K frame 0 (kern s)\<rparr>" "with_header b" "le_pbuf E"] b(2) by (simp add: s1_def ram_pbuf_def with_header_def)
  moreover have "mem_read m x k = mem_read (mem s) x k" if "sep x k p 68" "sep x k (le_txbuf E) 42" for x k
  proof -
    have "sep x k (p_payload b) 28" "sep x k (p_payload b - 14) 14" using sp [OF that(1), of 0 28] sp [OF that(1), of 14 14] d by simp_all
    then show ?thesis
      using that(2) assms(6-9) by (simp add: m_def m0_def mem_read_write_sep eth_written_off write_arp_hdr_off frame_def)
  qed
  ultimately show ?thesis
    using b(1) out len assms(2,3) p(1)
    by (intro exI [of _ m]) (simp add: etharp_raw_def SIZEOF_ETHARP_HDR_def ETHTYPE_ARP_def good_netif_def s1_def m0_def m_def frame_def)
qed

end
