(* ===== verification/BM_Etharp_Age.thy ===== *)
theory BM_Etharp_Age
  imports BM_Etharp_Send
begin

text \<open>
  The timer of ARP: with an allocator that never hands out a block in use, a tick always returns, has
  the effect of one pure function on every entry, and releases the packets of the entries it drops; the
  ages then bound how long an entry stays.
\<close>

section \<open>What one tick does to an entry\<close>

definition expires :: "etharp_entry \<Rightarrow> bool" where
  "expires e \<longleftrightarrow> a_ctime e + 1 \<ge> ARP_MAXAGE \<or> a_state e = ETHARP_STATE_PENDING \<and> a_ctime e + 1 \<ge> ARP_MAXPENDING"

fun tick_state :: "etharp_state \<Rightarrow> etharp_state" where
  "tick_state ETHARP_STATE_STABLE_REREQUESTING_1 = ETHARP_STATE_STABLE_REREQUESTING_2"
| "tick_state ETHARP_STATE_STABLE_REREQUESTING_2 = ETHARP_STATE_STABLE"
| "tick_state st = st"

definition aged :: "etharp_entry \<Rightarrow> etharp_entry" where
  "aged e =
     (if \<not> used e then e
      else if expires e then e\<lparr>a_ctime := a_ctime e + 1, a_q := 0, a_state := ETHARP_STATE_EMPTY\<rparr>
      else e\<lparr>a_ctime := a_ctime e + 1, a_state := tick_state (a_state e)\<rparr>)"

section \<open>The allocator\<close>

text \<open>
  \<open>B\<close> is the set of blocks that are handed out.  A block that \<^verbatim>\<open>malloc\<close> returns is aligned, in the address
  space and not among them; \<^verbatim>\<open>free\<close> takes a block back.
\<close>

definition heap_law :: "('m, 's) pbuf_env \<Rightarrow> ('m \<Rightarrow> addr set) \<Rightarrow> bool" where
  "heap_law E B \<longleftrightarrow>
     (\<forall>n a p a'. e_malloc E n a = (p, a') \<longrightarrow>
        (if p = 0 then B a' = B a
         else LWIP_MEM_ALIGN p = p \<and> unat p + unat n + 3 < 2 ^ 64 \<and> p \<notin> B a \<and> B a' = insert p (B a))) \<and>
     (\<forall>p a. B (e_free E p a) = B a - {p})"

definition owned :: "('m \<Rightarrow> addr set) \<Rightarrow> ('k, 'm, 'z) lwip_scheme \<Rightarrow> bool" where
  "owned B s \<longleftrightarrow> dom (pbufs s) \<subseteq> B (alloc s)"

text \<open>What a call leaves as it was, apart from the kernel and the memory.\<close>

definition restored :: "('m \<Rightarrow> addr set) \<Rightarrow> ('k, 'm, 'z) arp_scheme \<Rightarrow> ('k, 'm, 'z) arp_scheme \<Rightarrow> bool" where
  "restored B s s' \<longleftrightarrow> pbufs s' = pbufs s \<and> B (alloc s') = B (alloc s) \<and> netif_store s' = netif_store s \<and> same_arp s s'"

lemma copy_single:
  assumes "p \<noteq> 0" "pbufs s p = Some b" "p_next b = 0"
  shows "\<exists>c m. pbuf_copy_partial p d len 0 s = Some (c, s\<lparr>mem := m\<rparr>)"
proof -
  have "copy_partial_loop 0 d l left 0 c t = Some (c, t)" for l left c and t :: "('a, 'b, 'c) lwip_scheme"
    by (simp add: copy_partial_loop.simps)
  then have "copy_partial_loop p d len 0 0 0 s = Some (0, s) \<or> (\<exists>c m. copy_partial_loop p d len 0 0 0 s = Some (c, s\<lparr>mem := m\<rparr>))"
    using assms by (auto simp: copy_partial_loop.simps [of p] Let_def mem_copy_def)
  moreover have "s = s\<lparr>mem := mem s\<rparr>" by simp
  ultimately show ?thesis unfolding pbuf_copy_partial_def by (metis (full_types))
qed

lemma low_level_output_single:
  assumes "p \<noteq> 0" "pbufs s p = Some b" "p_next b = 0" "p_tot_len b \<le> 1522"
  shows "\<exists>m k. low_level_output K E p s = Some (ERR_OK, s\<lparr>mem := m, kern := k\<rparr>)"
proof -
  obtain c m where "pbuf_copy_partial p (le_txbuf E) (p_tot_len b) 0 s = Some (c, s\<lparr>mem := m\<rparr>)"
    using copy_single [OF assms(1-3)] by blast
  then show ?thesis using assms(2,4) by (auto simp: low_level_output_def b_net_tx_def)
qed

lemma ethernet_output_single:
  assumes "ram_pbuf p l len d b" "14 \<le> unat (layer_offset l)" "unat p + ram_size (layer_offset l) len + 3 < 2 ^ 64"
    and "p \<noteq> 0" "pbufs s p = Some b" "unat len + 14 \<le> 1522" "netif_store s i = Some n" "good_netif n"
  shows "\<exists>m k. ethernet_output K E i p src dst ty s = Some (ERR_OK, s\<lparr>pbufs := (pbufs s)(p \<mapsto> with_header b), mem := m, kern := k\<rparr>)"
proof -
  define h where "h = p_payload (with_header b)"
  define m0 where "m0 = mem_write (mem_write (mem_write (mem s) (h + 12) (le_bytes 2 (lwip_htons ty))) h dst) (h + 6) src"
  define s1 where "s1 = s\<lparr>pbufs := (pbufs s)(p \<mapsto> with_header b), mem := m0\<rparr>"
  have "pbuf_add_header p 14 s = Some (0, put_pbuf p (with_header b) s)"
    using add_eth_header(1) [OF ram_packet [where P = "pbufs s", OF assms(1,4,5)] assms(5) _ ram_room [OF assms(1-3)]] assms(6) by simp
  then have "ethernet_output K E i p src dst ty s = low_level_output K E p s1"
    using assms(7,8) by (simp add: ethernet_output_def SIZEOF_ETH_HDR_def linkoutput_def good_netif_def s1_def put_pbuf_def Let_def h_def m0_def)
  moreover have "p_next (with_header b) = 0" "p_tot_len (with_header b) \<le> 1522"
    using assms(1,6) by (simp_all add: ram_pbuf_def with_header_def word_le_nat_alt unat_plus_small)
  then obtain m k where "low_level_output K E p s1 = Some (ERR_OK, s1\<lparr>mem := m, kern := k\<rparr>)"
    using low_level_output_single [OF assms(4), of s1 "with_header b" K E] by (auto simp: s1_def)
  ultimately show ?thesis by (auto simp: s1_def)
qed

lemma etharp_raw_returns:
  assumes "heap_law (le_pbuf E) B" "owned B s" "netif_store s i = Some n" "good_netif n"
  shows "\<exists>e s'. etharp_raw K E i es ed hs sip ht dip opc s = Some (e, s') \<and> restored B s s'"
proof -
  obtain p a where m: "e_malloc (le_pbuf E) 68 (alloc s) = (p, a)" by fastforce
  note law = assms(1) [unfolded heap_law_def]
  show ?thesis
  proof (cases "p = 0")
    case True
    have "pbuf_alloc (le_pbuf E) PBUF_LINK 28 PBUF_RAM s = Some (0, s\<lparr>alloc := a\<rparr>)"
      using m True by (simp add: pbuf_alloc_def pbuf_consts pbuf_alloc_ram_def LWIP_MEM_ALIGN_SIZE_def mem_malloc_def)
    then have "etharp_raw K E i es ed hs sip ht dip opc s = Some (ERR_MEM, s\<lparr>alloc := a\<rparr>)"
      by (simp add: etharp_raw_def SIZEOF_ETHARP_HDR_def)
    then show ?thesis using law m True by (auto simp: restored_def same_arp_def)
  next
    case False
    have p: "LWIP_MEM_ALIGN p = p" "unat p + 71 < 2 ^ 64" "p \<notin> B (alloc s)" "B a = insert p (B (alloc s))"
      using law [THEN conjunct1, rule_format, OF m] False by simp_all
    have "ram_block (le_pbuf E) PBUF_LINK 28 (alloc s) p a" using m p False by (simp add: ram_block_def ram_size_arp)
    then obtain b d where b: "pbuf_alloc (le_pbuf E) PBUF_LINK 28 PBUF_RAM s = Some (p, s\<lparr>alloc := a, pbufs := (pbufs s)(p \<mapsto> b)\<rparr>)"
        "ram_pbuf p PBUF_LINK 28 d b"
      using alloc_ram_block [of "le_pbuf E" PBUF_LINK 28 s p a] by blast
    define s1 where "s1 = s\<lparr>alloc := a, pbufs := (pbufs s)(p \<mapsto> b), mem := write_arp_hdr (p_payload b) opc hs ht sip dip (mem s)\<rparr>"
    obtain m' k where out: "ethernet_output K E i p es ed ETHTYPE_ARP s1 =
        Some (ERR_OK, s1\<lparr>pbufs := (pbufs s1)(p \<mapsto> with_header b), mem := m', kern := k\<rparr>)"
      using ethernet_output_single [OF b(2) _ _ False, of s1 i n K E es ed ETHTYPE_ARP] p(2) assms(3,4) by (auto simp: s1_def ram_size_arp)
    define s2 where "s2 = s1\<lparr>pbufs := (pbufs s1)(p \<mapsto> with_header b), mem := m', kern := k\<rparr>"
    have "pbuf_free (le_pbuf E) p s2 = Some (1, s2\<lparr>alloc := e_free (le_pbuf E) p (alloc s2), pbufs := (pbufs s2)(p := None)\<rparr>)"
      using ram_free [OF False p(1), of s2 "with_header b" "le_pbuf E"] b(2) by (simp add: s2_def ram_pbuf_def with_header_def)
    moreover have "pbufs s p = None" "p_len b = 28" using assms(2) p(3) b(2) by (auto simp: owned_def ram_pbuf_def)
    ultimately show ?thesis
      using b(1) out assms(3,4) False law p(3,4)
      by (auto simp: etharp_raw_def SIZEOF_ETHARP_HDR_def good_netif_def s1_def s2_def restored_def same_arp_def fun_upd_idem)
  qed
qed

lemma etharp_request_returns:
  assumes "heap_law (le_pbuf E) B" "owned B s" "netif_store s i = Some n" "good_netif n"
  shows "\<exists>e s'. etharp_request K E i ip s = Some (e, s') \<and> restored B s s'"
  using etharp_raw_returns [OF assms] assms(3) by (simp add: etharp_request_def etharp_request_dst_def)

section \<open>The queued packets\<close>

text \<open>
  \<open>Q i\<close> is the chain of the packet that is queued on entry \<open>i\<close>; the chains have no buffer in common, and the
  entries in use are of interfaces that can send.
\<close>

definition chain_of :: "(addr \<Rightarrow> pbuf option) \<Rightarrow> addr \<Rightarrow> addr list \<Rightarrow> bool" where
  "chain_of P q as \<longleftrightarrow> chain P q as \<and> distinct as \<and> (\<forall>a \<in> set as. freeable P a)"

definition queues_ok :: "(nat \<Rightarrow> addr list) \<Rightarrow> ('k, 'm, 'z) arp_scheme \<Rightarrow> bool" where
  "queues_ok Q s \<longleftrightarrow> (\<forall>i < ARP_TABLE_SIZE. chain_of (pbufs s) (a_q (entry s i)) (Q i)) \<and>
     (\<forall>i < ARP_TABLE_SIZE. \<forall>j < ARP_TABLE_SIZE. i \<noteq> j \<longrightarrow> set (Q i) \<inter> set (Q j) = {})"

definition tick_ok :: "('m \<Rightarrow> addr set) \<Rightarrow> (nat \<Rightarrow> addr list) \<Rightarrow> ('k, 'm, 'z) arp_scheme \<Rightarrow> bool" where
  "tick_ok B Q s \<longleftrightarrow> owned B s \<and> queues_ok Q s \<and> length (arp_table s) = ARP_TABLE_SIZE \<and>
     (\<forall>e \<in> set (arp_table s). used e \<longrightarrow> (\<exists>n. netif_store s (a_netif e) = Some n \<and> good_netif n))"

lemma chain_of_cong: "(\<And>a. a \<in> set as \<Longrightarrow> P a = P' a) \<Longrightarrow> chain_of P q as \<longleftrightarrow> chain_of P' q as"
  unfolding chain_of_def using chain_cong [of as P P' q] freeable_cong by (metis (no_types, lifting))

lemma chain_of_Nil [simp]: "chain_of P 0 as \<longleftrightarrow> as = []"
  by (cases as) (auto simp: chain_of_def)

lemma free_queue:
  assumes "heap_law (le_pbuf E) B" "owned B s" "chain_of (pbufs s) q as" "q \<noteq> 0"
  shows "\<exists>r s'. pbuf_free (le_pbuf E) q s = Some (r, s') \<and> owned B s' \<and> netif_store s' = netif_store s \<and> same_arp s s' \<and>
    (\<forall>x. x \<notin> set as \<longrightarrow> pbufs s' x = pbufs s x)"
proof -
  have as: "as \<noteq> []" using assms(3,4) by (auto simp: chain_of_def)
  define s' where "s' = s\<lparr>alloc := fold (e_free (le_pbuf E)) (released (pbufs s) as) (alloc s), pbufs := release (pbufs s) as\<rparr>"
  have run: "pbuf_free (le_pbuf E) q s = Some (of_nat (length (released (pbufs s) as)), s')"
    using pbuf_free_eq [of s q as "le_pbuf E"] as assms(3) by (simp add: chain_of_def s'_def)
  have "B (fold (e_free (le_pbuf E)) xs a) = B a - set xs" for xs a
    using assms(1) by (induction xs arbitrary: a) (auto simp: heap_law_def)
  moreover have "dom (release (pbufs s) as) \<subseteq> dom (pbufs s) - set (released (pbufs s) as)"
    by (auto simp: release_def split: if_splits)
  ultimately have "owned B s'" using assms(2) unfolding owned_def s'_def by simp blast
  then show ?thesis using run by (auto simp: s'_def same_arp_def release_other)
qed

lemma queues_drop:
  assumes "queues_ok Q s" "i < ARP_TABLE_SIZE" "\<forall>j. j \<noteq> i \<longrightarrow> a_q (entry s' j) = a_q (entry s j)" "a_q (entry s' i) = 0"
    and "\<forall>x. x \<notin> set (Q i) \<longrightarrow> pbufs s' x = pbufs s x"
  shows "queues_ok (Q(i := [])) s'"
proof -
  have "chain_of (pbufs s') (a_q (entry s' j)) (Q j)" if "j < ARP_TABLE_SIZE" "j \<noteq> i" for j
  proof -
    have "set (Q j) \<inter> set (Q i) = {}" using assms(1,2) that by (simp add: queues_ok_def)
    then have "chain_of (pbufs s') (a_q (entry s j)) (Q j) = chain_of (pbufs s) (a_q (entry s j)) (Q j)"
      using assms(5) by (intro chain_of_cong) auto
    then show ?thesis using assms(1,3) that by (simp add: queues_ok_def)
  qed
  then show ?thesis using assms(1,4) by (auto simp: queues_ok_def)
qed

lemma free_entry_returns:
  assumes "heap_law (le_pbuf E) B" "tick_ok B Q s" "i < ARP_TABLE_SIZE"
  shows "\<exists>s'. etharp_free_entry E i s = Some s' \<and> tick_ok B (Q(i := [])) s' \<and> etharp_cached_entry s' = etharp_cached_entry s \<and>
    arp_table s' = (arp_table s)[i := (entry s i)\<lparr>a_q := 0, a_state := ETHARP_STATE_EMPTY\<rparr>]"
proof -
  have ok: "owned B s" "queues_ok Q s" "length (arp_table s) = ARP_TABLE_SIZE" using assms(2) by (simp_all add: tick_ok_def)
  have ch: "chain_of (pbufs s) (a_q (entry s i)) (Q i)" using ok(2) assms(3) by (simp add: queues_ok_def)
  obtain s1 where s1: "(if a_q (entry s i) \<noteq> 0 then do {(_, s1) \<leftarrow> pbuf_free (le_pbuf E) (a_q (entry s i)) s; Some (upd_entry i (a_q_update (\<lambda>_. 0)) s1)}
        else Some s) = Some s1" "owned B s1" "netif_store s1 = netif_store s" "etharp_cached_entry s1 = etharp_cached_entry s"
      "arp_table s1 = (arp_table s)[i := (entry s i)\<lparr>a_q := 0\<rparr>]" "\<forall>x. x \<notin> set (Q i) \<longrightarrow> pbufs s1 x = pbufs s x"
  proof (cases "a_q (entry s i) = 0")
    case True
    then show ?thesis using ok by (intro that [of s]) (simp_all add: q_zero)
  next
    case False
    obtain r t where t: "pbuf_free (le_pbuf E) (a_q (entry s i)) s = Some (r, t)" "owned B t" "netif_store t = netif_store s" "same_arp s t"
        "\<forall>x. x \<notin> set (Q i) \<longrightarrow> pbufs t x = pbufs s x"
      using free_queue [OF assms(1) ok(1) ch False] by blast
    then show ?thesis
      using False by (intro that [of "upd_entry i (a_q_update (\<lambda>_. 0)) t"]) (simp_all add: upd_entry_def owned_def same_arp_def)
  qed
  define s' where "s' = upd_entry i (a_state_update (\<lambda>_. ETHARP_STATE_EMPTY)) s1"
  have t: "arp_table s' = (arp_table s)[i := (entry s i)\<lparr>a_q := 0, a_state := ETHARP_STATE_EMPTY\<rparr>]"
    using s1(5) ok(3) assms(3) by (simp add: s'_def upd_entry_def)
  have "queues_ok (Q(i := [])) s'"
    using t s1(6) ok(3) assms(3) by (intro queues_drop [OF ok(2) assms(3)]) (simp_all add: s'_def upd_entry_def)
  moreover have "\<forall>e \<in> set (arp_table s'). used e \<longrightarrow> e \<in> set (arp_table s)"
    using set_update_subset_insert [of "arp_table s" i "(entry s i)\<lparr>a_q := 0, a_state := ETHARP_STATE_EMPTY\<rparr>"]
    unfolding t used_def by auto
  ultimately have "tick_ok B (Q(i := [])) s'"
    using assms(2) s1(2,3) t by (auto simp: tick_ok_def s'_def upd_entry_def owned_def)
  then show ?thesis using s1(1,4) t by (simp add: etharp_free_entry_def s'_def upd_entry_def)
qed

section \<open>A tick\<close>

lemma tick_ok_upd:
  assumes "tick_ok B Q s" "i < ARP_TABLE_SIZE" "a_q (f (entry s i)) = a_q (entry s i)" "a_netif (f (entry s i)) = a_netif (entry s i)"
    and "used (f (entry s i)) \<Longrightarrow> used (entry s i)"
  shows "tick_ok B Q (upd_entry i f s)"
proof -
  have len: "length (arp_table s) = ARP_TABLE_SIZE" using assms(1) by (simp add: tick_ok_def)
  have q: "a_q (entry (upd_entry i f s) j) = a_q (entry s j)" for j
    using assms(2,3) len by (cases "j = i") (simp_all add: upd_entry_def)
  have "\<exists>n. netif_store s (a_netif e) = Some n \<and> good_netif n" if "e \<in> set ((arp_table s)[i := f (entry s i)])" "used e" for e
    using that set_update_subset_insert [of "arp_table s" i "f (entry s i)"] assms len
    by (auto simp: tick_ok_def subset_eq)
  then show ?thesis
    using assms(1) q by (auto simp: tick_ok_def queues_ok_def owned_def upd_entry_def)
qed

lemma tick_ok_restored: "tick_ok B Q s \<Longrightarrow> restored B s s' \<Longrightarrow> tick_ok B Q s'"
  by (simp add: tick_ok_def queues_ok_def owned_def restored_def same_arp_def)

lemma tmr_entry_returns:
  assumes "heap_law (le_pbuf E) B" "tick_ok B Q s" "i < ARP_TABLE_SIZE"
  shows "\<exists>s' Q'. etharp_tmr_entry K E i s = Some s' \<and> tick_ok B Q' s' \<and> etharp_cached_entry s' = etharp_cached_entry s \<and>
    arp_table s' = (arp_table s)[i := aged (entry s i)]"
proof (cases "used (entry s i)")
  case False
  then show ?thesis using assms(2) by (auto simp: etharp_tmr_entry_def used_def aged_def)
next
  case True
  define e where "e = entry s i"
  define s1 where "s1 = upd_entry i (\<lambda>e. e\<lparr>a_ctime := a_ctime e + 1\<rparr>) s"
  have len: "i < length (arp_table s)" using assms(2,3) by (simp add: tick_ok_def)
  have t1: "entry s1 i = e\<lparr>a_ctime := a_ctime e + 1\<rparr>" "arp_table s1 = (arp_table s)[i := e\<lparr>a_ctime := a_ctime e + 1\<rparr>]"
    "etharp_cached_entry s1 = etharp_cached_entry s" using len by (simp_all add: s1_def e_def upd_entry_def)
  have ok1: "tick_ok B Q s1" unfolding s1_def using True by (intro tick_ok_upd [OF assms(2,3)]) (simp_all add: used_def)
  have u: "a_state e \<noteq> ETHARP_STATE_EMPTY" using True by (simp add: used_def e_def)
  have run: "etharp_tmr_entry K E i s =
      (if expires e then etharp_free_entry E i s1
       else if a_state e = ETHARP_STATE_STABLE_REREQUESTING_1 then Some (upd_entry i (a_state_update (\<lambda>_. ETHARP_STATE_STABLE_REREQUESTING_2)) s1)
       else if a_state e = ETHARP_STATE_STABLE_REREQUESTING_2 then Some (upd_entry i (a_state_update (\<lambda>_. ETHARP_STATE_STABLE)) s1)
       else if a_state e = ETHARP_STATE_PENDING then do {(_, s2) \<leftarrow> etharp_request K E (a_netif e) (a_ipaddr e) s1; Some s2}
       else Some s1)"
    using u unfolding etharp_tmr_entry_def Let_def s1_def [symmetric] t1(1) e_def [symmetric] expires_def
    by (simp split del: if_split cong: if_cong)
  show ?thesis
  proof (cases "expires e")
    case True
    have "aged e = e\<lparr>a_ctime := a_ctime e + 1, a_q := 0, a_state := ETHARP_STATE_EMPTY\<rparr>" using u True by (simp add: aged_def used_def)
    then show ?thesis using free_entry_returns [OF assms(1) ok1 assms(3)] run True t1 by (auto simp: e_def)
  next
    case young: False
    have ag: "aged e = e\<lparr>a_ctime := a_ctime e + 1, a_state := tick_state (a_state e)\<rparr>" using u young by (simp add: aged_def used_def)
    have same: "tick_state (a_state e) = a_state e \<Longrightarrow> aged e = e\<lparr>a_ctime := a_ctime e + 1\<rparr>" unfolding ag by (cases e) simp
    obtain n where n: "netif_store s1 (a_netif e) = Some n" "good_netif n"
      using assms(2) len u by (auto simp: tick_ok_def s1_def upd_entry_def used_def e_def)
    have st: "tick_ok B Q (upd_entry i (a_state_update (\<lambda>_. st)) s1)" for st
      using ok1 t1(1) u by (intro tick_ok_upd [OF ok1 assms(3)]) (simp_all add: used_def)
    show ?thesis
    proof (cases "a_state e = ETHARP_STATE_PENDING")
      case True
      obtain r s2 where s2: "etharp_request K E (a_netif e) (a_ipaddr e) s1 = Some (r, s2)" "restored B s1 s2"
        using etharp_request_returns [OF assms(1) _ n, of K "a_ipaddr e"] ok1 by (auto simp: tick_ok_def)
      then show ?thesis
        using run young True same t1 tick_ok_restored [OF ok1 s2(2)] by (auto simp: e_def restored_def same_arp_def)
    next
      case np: False
      show ?thesis
      proof (cases "a_state e = ETHARP_STATE_STABLE")
        case True
        then show ?thesis using run young same t1 ok1 by (auto simp: e_def)
      next
        case False
        then show ?thesis using run young ag t1 st u len np by (cases "a_state e") (auto simp: e_def upd_entry_def)
      qed
    qed
  qed
qed

lemma tmr_loop_returns:
  assumes "heap_law (le_pbuf E) B" "tick_ok B Q s" "\<forall>i \<in> set is. i < ARP_TABLE_SIZE" "distinct is"
  shows "\<exists>s' Q'. etharp_tmr_loop K E is s = Some s' \<and> tick_ok B Q' s' \<and> etharp_cached_entry s' = etharp_cached_entry s \<and>
    (\<forall>j < ARP_TABLE_SIZE. entry s' j = (if j \<in> set is then aged (entry s j) else entry s j))"
  using assms(2-4)
proof (induction "is" arbitrary: s Q)
  case (Cons i js)
  obtain s1 Q1 where 1: "etharp_tmr_entry K E i s = Some s1" "tick_ok B Q1 s1" "etharp_cached_entry s1 = etharp_cached_entry s"
      "arp_table s1 = (arp_table s)[i := aged (entry s i)]"
    using tmr_entry_returns [OF assms(1) Cons.prems(1), of i K] Cons.prems(2) by auto
  have len: "length (arp_table s) = ARP_TABLE_SIZE" using Cons.prems(1) by (simp add: tick_ok_def)
  have ih: "\<forall>i \<in> set js. i < ARP_TABLE_SIZE" "distinct js" using Cons.prems by simp_all
  obtain s2 Q2 where 2: "etharp_tmr_loop K E js s1 = Some s2" "tick_ok B Q2 s2" "etharp_cached_entry s2 = etharp_cached_entry s1"
      "\<forall>j < ARP_TABLE_SIZE. entry s2 j = (if j \<in> set js then aged (entry s1 j) else entry s1 j)"
    using Cons.IH [OF 1(2) ih] by blast
  have "\<forall>j < ARP_TABLE_SIZE. entry s2 j = (if j \<in> set (i # js) then aged (entry s j) else entry s j)"
  proof (intro allI impI)
    fix j assume "j < ARP_TABLE_SIZE"
    then show "entry s2 j = (if j \<in> set (i # js) then aged (entry s j) else entry s j)"
      using 2(4) 1(4) len Cons.prems(3) by (cases "j = i") auto
  qed
  then show ?case using 1 2 by auto
qed auto

lemma etharp_tmr_returns:
  assumes "heap_law (le_pbuf E) B" "tick_ok B Q s"
  shows "\<exists>s' Q'. etharp_tmr K E s = Some s' \<and> tick_ok B Q' s' \<and> etharp_cached_entry s' = etharp_cached_entry s \<and>
    arp_table s' = map aged (arp_table s)"
proof -
  obtain s' Q' where s': "etharp_tmr_loop K E [0..<ARP_TABLE_SIZE] s = Some s'" "tick_ok B Q' s'" "etharp_cached_entry s' = etharp_cached_entry s"
      "\<forall>j < ARP_TABLE_SIZE. entry s' j = (if j \<in> set [0..<ARP_TABLE_SIZE] then aged (entry s j) else entry s j)"
    using tmr_loop_returns [OF assms, of "[0..<ARP_TABLE_SIZE]" K] by auto
  have "arp_table s' = map aged (arp_table s)"
    using s'(2,4) assms(2) by (intro nth_equalityI) (auto simp: tick_ok_def)
  then show ?thesis using s' by (auto simp: etharp_tmr_def)
qed

section \<open>Ages\<close>

lemma aged_ok:
  assumes "entry_ok e"
  shows "entry_ok (aged e)" "used (aged e) \<Longrightarrow> used e \<and> \<not> expires e \<and> unat (a_ctime (aged e)) = unat (a_ctime e) + 1 \<and>
    key (aged e) = key e \<and> a_ethaddr (aged e) = a_ethaddr e \<and> (is_stable (aged e) \<longleftrightarrow> is_stable e)"
proof -
  have "unat (a_ctime e + 1) = unat (a_ctime e) + 1" if "used e"
    using assms that by (simp add: entry_ok_def word_less_nat_alt unat_plus_small ARP_MAXAGE_def)
  then show "used (aged e) \<Longrightarrow> used e \<and> \<not> expires e \<and> unat (a_ctime (aged e)) = unat (a_ctime e) + 1 \<and>
      key (aged e) = key e \<and> a_ethaddr (aged e) = a_ethaddr e \<and> (is_stable (aged e) \<longleftrightarrow> is_stable e)"
    by (cases "a_state e") (auto simp: aged_def state_preds key_def split: if_splits)
  show "entry_ok (aged e)"
    using assms by (cases "a_state e") (auto simp: aged_def expires_def entry_ok_def state_preds)
qed

lemma not_expires: "entry_ok e \<Longrightarrow> is_stable e \<Longrightarrow> unat (a_ctime e) + 1 < 300 \<Longrightarrow> used (aged e)"
  by (cases "a_state e") (auto simp: aged_def expires_def state_preds ARP_MAXAGE_def word_le_nat_alt unat_plus_small)

lemma aged_iter:
  assumes "entry_ok e"
  shows "entry_ok ((aged ^^ n) e)" "used ((aged ^^ n) e) \<Longrightarrow> used e \<and> unat (a_ctime ((aged ^^ n) e)) = unat (a_ctime e) + n \<and>
      key ((aged ^^ n) e) = key e \<and> a_ethaddr ((aged ^^ n) e) = a_ethaddr e \<and> (is_stable ((aged ^^ n) e) \<longleftrightarrow> is_stable e)"
    "is_stable e \<Longrightarrow> unat (a_ctime e) + n < 300 \<Longrightarrow> used ((aged ^^ n) e)"
proof (induction n)
  case (Suc n)
  { case 1 then show ?case using Suc.IH(1) aged_ok(1) by simp }
  { case 2 then show ?case using Suc.IH(2) aged_ok(2) [OF Suc.IH(1)] by simp }
  { case 3
    then have u: "used ((aged ^^ n) e)" using Suc.IH(3) by simp
    then show ?case using not_expires [OF Suc.IH(1)] Suc.IH(2) [OF u] 3 by simp }
qed (use assms in \<open>auto simp: state_preds\<close>)

lemma aged_gone:
  assumes "entry_ok e" "300 \<le> n \<or> a_state e = ETHARP_STATE_PENDING \<and> 5 \<le> n"
  shows "\<not> used ((aged ^^ n) e)"
proof
  assume u: "used ((aged ^^ n) e)"
  note it = aged_iter(2) [OF assms(1) u]
  have "entry_ok ((aged ^^ n) e)" by (rule aged_iter(1) [OF assms(1)])
  moreover have "a_state ((aged ^^ n) e) = ETHARP_STATE_PENDING" if "a_state e = ETHARP_STATE_PENDING"
    using that u it by (auto simp: state_preds)
  ultimately have "unat (a_ctime ((aged ^^ n) e)) < (if a_state e = ETHARP_STATE_PENDING then 5 else 300)"
    using u by (auto simp: entry_ok_def word_less_nat_alt ARP_MAXAGE_def ARP_MAXPENDING_def)
  then show False using it assms(2) by (auto split: if_splits)
qed

fun arp_ticks :: "'k kernel \<Rightarrow> ('m, ('k, 'm, 'z) arp_scheme) link_env \<Rightarrow> nat \<Rightarrow> ('k, 'm, 'z) arp_scheme \<Rightarrow> ('k, 'm, 'z) arp_scheme option" where
  "arp_ticks K E 0 s = Some s"
| "arp_ticks K E (Suc n) s = do {s1 \<leftarrow> etharp_tmr K E s; arp_ticks K E n s1}"

lemma arp_ticks_returns:
  assumes "heap_law (le_pbuf E) B" "tick_ok B Q s"
  shows "\<exists>s'. arp_ticks K E n s = Some s' \<and> arp_table s' = map (aged ^^ n) (arp_table s)"
  using assms(2)
proof (induction n arbitrary: s Q)
  case (Suc n)
  obtain s1 Q1 where 1: "etharp_tmr K E s = Some s1" "tick_ok B Q1 s1" "arp_table s1 = map aged (arp_table s)"
    using etharp_tmr_returns [OF assms(1) Suc.prems] by blast
  then show ?case using Suc.IH [OF 1(2)] by (auto simp: funpow_swap1)
qed simp


text \<open>
  An allocator with one block of a page; an interface with an address; and a table with a request that a
  packet of two buffers waits for, an address that is known, and eight empty entries.
\<close>

definition demo_malloc :: "(addr set, 's) pbuf_env" where
  "demo_malloc = \<lparr>e_malloc = (\<lambda>n a. if n \<le> 4096 \<and> 0x10000 \<notin> a then (0x10000, insert 0x10000 a) else (0, a)),
     e_free = (\<lambda>p a. a - {p}), e_custom_free = (\<lambda>_ s. Some s)\<rparr>"

definition demo_arp_env :: "(addr set, 's) link_env" where
  "demo_arp_env = \<lparr>le_netif = \<lparr>ne_timer = \<lparr>te_pbuf = demo_malloc,
         te_tmr = (\<lambda>_ s. Some s), te_call = (\<lambda>_ _ s. Some s), te_tcp_pcbs = (\<lambda>_. False)\<rparr>,
       ne_ip_addr_changed = (\<lambda>_ _ s. Some s), ne_etharp_gratuitous = (\<lambda>_ s. Some s),
       ne_etharp_cleanup = (\<lambda>_ s. Some s), ne_dhcp_link_up = (\<lambda>_ s. Some s)\<rparr>,
     le_txbuf = 0x8000, le_rxbuf = 0xA000, le_bmos_netif = 0x3000,
     le_ip4_input = (\<lambda>_ _ s. Some s), le_etharp_input = (\<lambda>_ _ s. Some s),
     le_linkoutput = (\<lambda>_ _ _ s. Some (0, s)), le_input = (\<lambda>_ _ _ s. Some (0, s)),
     le_udp_init = (\<lambda>s. Some s), le_tcp_init = (\<lambda>s. Some s), le_dhcp_start = (\<lambda>_ s. Some s), le_dhcp_state = (\<lambda>_ _. 10)\<rparr>"

definition demo_arp_netif :: netif where
  "demo_arp_netif = demo_netif\<lparr>n_hwaddr_len := 6, n_hwaddr := [2, 0, 0, 0, 0, 1], n_linkoutput := Low_level_output,
     n_input := Ethernet_input, n_ip_addr := 0x0200000A, n_netmask := 0x00FFFFFF, n_gw := 0x0100000A,
     n_flags := NETIF_FLAG_UP OR NETIF_FLAG_BROADCAST OR NETIF_FLAG_ETHARP OR NETIF_FLAG_LINK_UP\<rparr>"

definition blank_entry :: etharp_entry where
  "blank_entry = \<lparr>a_q = 0, a_ipaddr = 0, a_netif = 0, a_ethaddr = [0, 0, 0, 0, 0, 0], a_ctime = 0, a_state = ETHARP_STATE_EMPTY\<rparr>"

definition demo_table :: "etharp_entry list" where
  "demo_table = [blank_entry\<lparr>a_q := 0x1000, a_ipaddr := 0x0300000A, a_netif := 0x3000, a_ctime := 2, a_state := ETHARP_STATE_PENDING\<rparr>,
     blank_entry\<lparr>a_ipaddr := 0x0100000A, a_netif := 0x3000, a_ethaddr := [2, 0, 0, 0, 0, 9], a_ctime := 10, a_state := ETHARP_STATE_STABLE\<rparr>]
     @ replicate 8 blank_entry"

definition demo_arp :: "etharp_entry list \<Rightarrow> (sim, addr set) arp" where
  "demo_arp es = \<lparr>mem = (\<lambda>_. 0), kern = sim_blank,
     dir = [], dir_loaded = False, files = [], scratch = [], heap_cur = 0, heap_end = 0, alloc = {0x1000, 0x2000},
     pbufs = [0x1000 \<mapsto> demo_eth_pbuf, 0x2000 \<mapsto> demo_pbuf2], next_timeout = [],
     current_timeout_due_time = 0, tcpip_tcp_timer_active = False,
     netif_store = [0x3000 \<mapsto> demo_arp_netif], netif_list = [0x3000], netif_default = 0x3000, netif_num = 1, rand_seed = 0,
     arp_table = es, etharp_cached_entry = 0\<rparr>"

lemma demo_malloc_law: "heap_law demo_malloc id"
  by (auto simp: heap_law_def demo_malloc_def LWIP_MEM_ALIGN_def word_le_nat_alt split: if_splits)

lemma demo_good_netif: "good_netif demo_arp_netif"
  by (simp add: good_netif_def demo_arp_netif_def)

lemma demo_entries:
  "length demo_table = 10" "demo_table ! 0 = blank_entry\<lparr>a_q := 0x1000, a_ipaddr := 0x0300000A, a_netif := 0x3000, a_ctime := 2, a_state := ETHARP_STATE_PENDING\<rparr>"
  "demo_table ! 1 = blank_entry\<lparr>a_ipaddr := 0x0100000A, a_netif := 0x3000, a_ethaddr := [2, 0, 0, 0, 0, 9], a_ctime := 10, a_state := ETHARP_STATE_STABLE\<rparr>"
  "i < 10 \<Longrightarrow> 2 \<le> i \<Longrightarrow> demo_table ! i = blank_entry"
  by (simp_all add: demo_table_def nth_Cons')

lemma demo_table_ok: "table_ok demo_table"
proof -
  have e: "entry_ok (demo_table ! i)" "used (demo_table ! i) \<longleftrightarrow> i \<in> {0, 1}" if "i < 10" for i
    using that demo_entries by (cases "i = 0 \<or> i = 1"; auto simp: entry_ok_def state_preds blank_entry_def ARP_MAXAGE_def ARP_MAXPENDING_def)+
  have "\<forall>i < 10. \<forall>j < 10. i \<noteq> j \<longrightarrow> used (demo_table ! i) \<longrightarrow> used (demo_table ! j) \<longrightarrow> key (demo_table ! i) \<noteq> key (demo_table ! j)"
    using e(2) demo_entries(2,3) by (auto simp: key_def)
  then show ?thesis using e(1) demo_entries(1) by (auto simp: table_ok_def ARP_TABLE_SIZE_def in_set_conv_nth)
qed

lemma demo_arp_ok: "arp_ok (demo_arp demo_table)"
  using demo_table_ok by (simp add: arp_ok_def demo_arp_def ARP_TABLE_SIZE_def)

lemma demo_chain_of: "chain_of (pbufs (demo_arp es)) 0x1000 [0x1000, 0x2000]"
  by (simp add: chain_of_def demo_arp_def demo_eth_pbuf_def demo_pbuf2_def freeable_def LWIP_MEM_ALIGN_def pbuf_consts)

lemma demo_tick_ok: "tick_ok id (\<lambda>i. if i = 0 then [0x1000, 0x2000] else []) (demo_arp demo_table)"
proof -
  have t: "arp_table (demo_arp demo_table) = demo_table" by (simp add: demo_arp_def)
  have q: "a_q (demo_table ! i) = (if i = 0 then 0x1000 else 0)" "used (demo_table ! i) \<Longrightarrow> a_netif (demo_table ! i) = 0x3000" if "i < 10" for i
    using that demo_entries(2,3) demo_entries(4) [OF that] by (cases "i = 0 \<or> i = 1"; auto simp: blank_entry_def state_preds)+
  have "queues_ok (\<lambda>i. if i = 0 then [0x1000, 0x2000] else []) (demo_arp demo_table)"
    using q(1) demo_chain_of [of demo_table] by (auto simp: queues_ok_def t ARP_TABLE_SIZE_def)
  moreover have "\<forall>e \<in> set demo_table. used e \<longrightarrow> a_netif e = 0x3000"
    using q(2) demo_entries(1) by (auto simp: in_set_conv_nth)
  ultimately show ?thesis
    using demo_good_netif demo_entries(1) by (auto simp: tick_ok_def t owned_def ARP_TABLE_SIZE_def demo_arp_def)
qed


end
