(* ===== verification/BM_Arp_Env.thy ===== *)
theory BM_Arp_Env
  imports BM_Etharp BM_Poll
begin

text \<open>
  The environment of the Ethernet layer with ARP in place, and what is asked of the other functions in it.
\<close>

section \<open>The composed environment\<close>

text \<open>An environment whose ARP is the code of \<^verbatim>\<open>etharp.c\<close>: its input, its timer and what the interfaces call.\<close>

definition arp_env :: "'k kernel \<Rightarrow> ('m, ('k, 'm, 'z) arp_scheme) link_env \<Rightarrow> ('m, ('k, 'm, 'z) arp_scheme) link_env" where
  "arp_env K E = E\<lparr>le_netif := (le_netif E)\<lparr>
       ne_timer := (ne_timer (le_netif E))\<lparr>te_tmr := (\<lambda>t s. if t = protocol_tmr.etharp_tmr then BM_Etharp.etharp_tmr K E s else te_tmr (ne_timer (le_netif E)) t s)\<rparr>,
       ne_etharp_gratuitous := (\<lambda>i s. map_option snd (etharp_gratuitous K E i s)),
       ne_etharp_cleanup := etharp_cleanup_netif E\<rparr>,
     le_etharp_input := etharp_input K E\<rparr>"

lemma arp_env_simps [simp]:
  "le_pbuf (arp_env K E) = le_pbuf E" "le_txbuf (arp_env K E) = le_txbuf E" "le_rxbuf (arp_env K E) = le_rxbuf E"
  "le_bmos_netif (arp_env K E) = le_bmos_netif E" "le_etharp_input (arp_env K E) = etharp_input K E"
  by (simp_all add: arp_env_def)

section \<open>The layers above ARP\<close>

text \<open>What the functions of the environment other than those of ARP do to a state.\<close>

definition upper_steps :: "('s \<Rightarrow> 's \<Rightarrow> bool) \<Rightarrow> ('m, 's) link_env \<Rightarrow> bool" where
  "upper_steps R L \<longleftrightarrow> (let N = le_netif L; T = ne_timer N in
     env_quiet R L \<and> (\<forall>a b s s'. ne_ip_addr_changed N a b s = Some s' \<longrightarrow> R s s') \<and>
     (\<forall>s s'. le_udp_init L s = Some s' \<longrightarrow> R s s') \<and> (\<forall>s s'. le_tcp_init L s = Some s' \<longrightarrow> R s s') \<and>
     (\<forall>i s s'. le_dhcp_start L i s = Some s' \<longrightarrow> R s s') \<and> (\<forall>p i s s'. le_ip4_input L p i s = Some s' \<longrightarrow> R s s') \<and>
     (\<forall>f p i s e s'. le_input L f p i s = Some (e, s') \<longrightarrow> R s s') \<and>
     (\<forall>t s s'. t \<noteq> protocol_tmr.etharp_tmr \<longrightarrow> te_tmr T t s = Some s' \<longrightarrow> R s s') \<and>
     (\<forall>f a s s'. te_call T f a s = Some s' \<longrightarrow> R s s'))"

lemma arp_env_steps:
  assumes "upper_steps R L" "\<And>p i s s'. etharp_input K L p i s = Some s' \<Longrightarrow> R s s'"
    and "\<And>s s'. BM_Etharp.etharp_tmr K L s = Some s' \<Longrightarrow> R s s'" "\<And>i s e s'. etharp_gratuitous K L i s = Some (e, s') \<Longrightarrow> R s s'"
  shows "env_steps R (arp_env K L)"
  using assms unfolding env_steps_def upper_steps_def env_quiet_def Let_def arp_env_def
  by (auto simp: map_option_eq_Some)

end
