(* ===== verification/BM_Etharp_Props.thy ===== *)
theory BM_Etharp_Props
  imports BM_Etharp_Age BM_Arp_Env
begin

text \<open>
  Properties of the ARP table: it is well formed whatever happens, a new address never costs a queued
  packet as long as another entry can go, and what has been learnt is used.
\<close>

section \<open>Reachable tables\<close>

inductive arp_call :: "'k kernel \<Rightarrow> ('m, ('k, 'm, 'z) arp_scheme) link_env \<Rightarrow> ('k, 'm, 'z) arp_scheme \<Rightarrow> ('k, 'm, 'z) arp_scheme \<Rightarrow> bool"
  for K E where
  other: "same_arp s s' \<Longrightarrow> arp_call K E s s'"
| tmr: "etharp_tmr K E s = Some s' \<Longrightarrow> arp_call K E s s'"
| cleanup: "etharp_cleanup_netif E nif s = Some s' \<Longrightarrow> arp_call K E s s'"
| recv: "etharp_input K E p nif s = Some s' \<Longrightarrow> arp_call K E s s'"
| send: "nif \<noteq> 0 \<Longrightarrow> etharp_output K E nif q ip s = Some (e, s') \<Longrightarrow> arp_call K E s s'"
| query: "nif \<noteq> 0 \<Longrightarrow> etharp_query K E nif ip q s = Some (e, s') \<Longrightarrow> arp_call K E s s'"
| request: "etharp_request K E nif ip s = Some (e, s') \<Longrightarrow> arp_call K E s s'"

abbreviation arp_run :: "'k kernel \<Rightarrow> ('m, ('k, 'm, 'z) arp_scheme) link_env \<Rightarrow> ('k, 'm, 'z) arp_scheme \<Rightarrow> ('k, 'm, 'z) arp_scheme \<Rightarrow> bool" where
  "arp_run K E \<equiv> (arp_call K E)\<^sup>*\<^sup>*"

lemma arp_call_ok: "arp_call K E s s' \<Longrightarrow> arp_quiet E \<Longrightarrow> arp_ok s \<Longrightarrow> arp_ok s'"
  by (induction rule: arp_call.induct)
    (auto dest: etharp_tmr_ok etharp_cleanup_ok etharp_input_ok etharp_output_ok etharp_query_ok etharp_request_same intro: arp_ok_same)

lemma arp_run_ok: "arp_run K E s s' \<Longrightarrow> arp_quiet E \<Longrightarrow> arp_ok s \<Longrightarrow> arp_ok s'"
  by (induction rule: rtranclp_induct) (auto dest: arp_call_ok)

text \<open>The poll and the start of the network, with ARP in place, consist of such calls if the layers above ARP do.\<close>

lemma run_other: "same_arp s s' \<Longrightarrow> arp_run K E s s'"
  by (rule r_into_rtranclp) (rule other)

interpretation arp_net: own_net "arp_run K E" for K E
  by unfold_locales (auto intro!: run_other simp: same_arp_def)

lemma arp_run_env: "upper_steps (arp_run K E) E \<Longrightarrow> env_steps (arp_run K E) (arp_env K E)"
  by (rule arp_env_steps) (auto simp: etharp_gratuitous_def bind_eq_Some_conv intro: r_into_rtranclp recv tmr request)

inductive arp_life :: "'k kernel \<Rightarrow> ('m, ('k, 'm, 'z) arp_scheme) link_env \<Rightarrow> ('k, 'm, 'z) arp_scheme \<Rightarrow> ('k, 'm, 'z) arp_scheme \<Rightarrow> bool"
  for K E where
  start: "net_init K (arp_env K E) s = Some s' \<Longrightarrow> arp_life K E s s'"
| poll: "net_poll K (arp_env K E) s = Some s' \<Longrightarrow> arp_life K E s s'"
| call: "arp_call K E s s' \<Longrightarrow> arp_life K E s s'"

lemma arp_life_run: "arp_life K E s s' \<Longrightarrow> upper_steps (arp_run K E) E \<Longrightarrow> arp_run K E s s'"
  by (induction rule: arp_life.induct) (blast intro: arp_net.net_init_same arp_net.net_poll_same arp_run_env)+

lemma arp_lives_run: "(arp_life K E)\<^sup>*\<^sup>* s s' \<Longrightarrow> upper_steps (arp_run K E) E \<Longrightarrow> arp_run K E s s'"
  by (induction rule: rtranclp_induct) (auto dest: arp_life_run)

lemma blank_ok:
  "arp_table s = replicate ARP_TABLE_SIZE blank_entry \<Longrightarrow> etharp_cached_entry s = 0 \<Longrightarrow> arp_ok s"
  by (simp add: arp_ok_def table_ok_def ARP_TABLE_SIZE_def blank_entry_def entry_ok_def state_preds)

text \<open>
  C10.  The ARP table is well formed after any sequence of starts, polls and ARP calls from the start of the
  program, whatever frames the polls find: ten entries, of which only those with an unanswered
  request have a packet queued, none older than its limit, each usable one with a MAC address of six
  octets, and no two for the same address on the same interface; the entry used last is one of them.
  (The layers above ARP reach the table through the calls of ARP only.)
\<close>

theorem arp_table_reachable:
  assumes "(arp_life K E)\<^sup>*\<^sup>* s s'" "upper_steps (arp_run K E) E" "arp_quiet E"
    and "arp_table s = replicate ARP_TABLE_SIZE blank_entry" "etharp_cached_entry s = 0"
  shows "length (arp_table s') = ARP_TABLE_SIZE \<and> etharp_cached_entry s' < ARP_TABLE_SIZE \<and> (\<forall>e \<in> set (arp_table s'). entry_ok e) \<and>
    (\<forall>i < ARP_TABLE_SIZE. \<forall>j < ARP_TABLE_SIZE. i \<noteq> j \<and> used (entry s' i) \<and> used (entry s' j) \<longrightarrow>
      (a_netif (entry s' i), a_ipaddr (entry s' i)) \<noteq> (a_netif (entry s' j), a_ipaddr (entry s' j)))"
  using arp_run_ok [OF arp_lives_run [OF assms(1,2)] assms(3) blank_ok [OF assms(4,5)]]
  by (simp add: arp_ok_def table_ok_def key_def)

lemma demo_quiet: "arp_quiet (demo_arp_env :: (addr set, (sim, addr set, 'z) arp_scheme) link_env)"
  by (simp add: arp_quiet_def env_quiet_def demo_arp_env_def demo_malloc_def same_arp_def)

lemma sweep_blank:
  "i < ARP_TABLE_SIZE \<Longrightarrow> find_sweep ip nif i (replicate n blank_entry) c = Inr (if n = 0 \<or> c_empty c \<noteq> ARP_TABLE_SIZE then c else c\<lparr>c_empty := i\<rparr>)"
  if "i + n \<le> ARP_TABLE_SIZE"
  using that
proof (induction n arbitrary: i c)
  case (Suc n)
  then show ?case by (cases n) (auto simp: blank_entry_def)
qed simp

lemma find_blank:
  assumes "arp_table s = replicate ARP_TABLE_SIZE blank_entry"
  shows "etharp_find_entry E (Some ip) ETHARP_FLAG_TRY_HARD nif s = Some (0, init_entry (Some ip) nif 0 s)"
proof -
  have "find_sweep (Some ip) nif 0 (arp_table s) no_cands = Inr (no_cands\<lparr>c_empty := 0\<rparr>)"
    using sweep_blank [of 0 ARP_TABLE_SIZE] assms by (simp add: no_cands_def ARP_TABLE_SIZE_def)
  then show ?thesis by (simp add: etharp_find_entry_def arp_flags ARP_TABLE_SIZE_def)
qed

lemma demo_unicast:
  "\<not> ip4_addr_isbroadcast_u32 0x0300000A demo_arp_netif" "\<not> ip4_addr_ismulticast 0x0300000A" "0x0300000A \<noteq> IPADDR_ANY"
  "ip4_addr_net_eq 0x0300000A (n_ip_addr demo_arp_netif) (n_netmask demo_arp_netif)" "n_hwaddr_len demo_arp_netif = 6"
  by (simp_all add: demo_arp_netif_def ip4_addr_isbroadcast_u32_def ip4_addr_ismulticast_def lwip_htonl_def IPADDR_ANY_def
      IPADDR_BROADCAST_def ip4_addr_net_eq_def netif_flags)

text \<open>An address is asked for, on an empty table.\<close>

theorem arp_table_reachable_witness:
  "\<exists>e s'. etharp_query sim_kernel demo_arp_env 0x3000 0x0300000A 0 (demo_arp (replicate 10 blank_entry)) = Some (e, s') \<and>
     length (arp_table s') = 10 \<and> etharp_cached_entry s' < 10"
proof -
  define s where "s = demo_arp (replicate 10 blank_entry)"
  have t: "arp_table s = replicate ARP_TABLE_SIZE blank_entry" "etharp_cached_entry s = 0" "netif_store s 0x3000 = Some demo_arp_netif"
    by (simp_all add: s_def demo_arp_def ARP_TABLE_SIZE_def)
  have f: "etharp_find_entry demo_arp_env (Some 0x0300000A) ETHARP_FLAG_TRY_HARD 0x3000 s = Some (0, init_entry (Some 0x0300000A) 0x3000 0 s)"
    by (rule find_blank [OF t(1)])
  define s1 where "s1 = upd_entry 0 (\<lambda>e. e\<lparr>a_state := ETHARP_STATE_PENDING, a_netif := 0x3000\<rparr>) (init_entry (Some 0x0300000A) 0x3000 0 s)"
  have "owned id s1" "netif_store s1 0x3000 = Some demo_arp_netif"
    by (auto simp: s1_def s_def init_entry_def upd_entry_def owned_def demo_arp_def)
  then obtain e s' where r: "etharp_request sim_kernel demo_arp_env 0x3000 0x0300000A s1 = Some (e, s')"
    using etharp_request_returns [of demo_arp_env id s1 "0x3000" demo_arp_netif sim_kernel "0x0300000A"] demo_malloc_law demo_good_netif
    by (auto simp: demo_arp_env_def)
  have "a_state (entry (init_entry (Some 0x0300000A) 0x3000 0 s) 0) = ETHARP_STATE_EMPTY"
    by (simp add: init_entry_def upd_entry_def t ARP_TABLE_SIZE_def blank_entry_def)
  then have q: "etharp_query sim_kernel demo_arp_env 0x3000 0x0300000A 0 s = Some (e, s')"
    using f r t(3) by (simp add: etharp_query_def query_request_def query_deliver_def s1_def demo_unicast)
  have "(arp_life sim_kernel demo_arp_env)\<^sup>*\<^sup>* s s'" using call [OF query [OF _ q]] by auto
  moreover have "upper_steps (arp_run sim_kernel demo_arp_env) (demo_arp_env :: (addr set, (sim, addr set) arp) link_env)"
    by (simp add: upper_steps_def env_quiet_def demo_arp_env_def demo_malloc_def)
  ultimately show ?thesis
    using arp_table_reachable [OF _ _ demo_quiet t(1,2)] q unfolding s_def ARP_TABLE_SIZE_def by blast
qed

section \<open>A new address\<close>

lemma first_empty_spec:
  "first_empty es < ARP_TABLE_SIZE \<Longrightarrow> length es = ARP_TABLE_SIZE \<Longrightarrow> \<not> used (es ! first_empty es)"
  "first_empty es = ARP_TABLE_SIZE \<Longrightarrow> length es = ARP_TABLE_SIZE \<Longrightarrow> e \<in> set es \<Longrightarrow> used e"
  by (auto simp: first_empty_def split: option.splits dest: first_idx_SomeD simp: first_idx_None_iff)

lemma first_empty_le: "length es = ARP_TABLE_SIZE \<Longrightarrow> first_empty es \<le> ARP_TABLE_SIZE"
  by (auto simp: first_empty_def split: option.splits dest: first_idx_SomeD)

text \<open>
  C14.  As long as an entry is empty or known, a new address finds a place without costing a packet: the
  search returns an entry that was empty or, only when none is, the known entry that is oldest; it
  changes no other entry and no buffer.
\<close>

theorem new_address_keeps_packets:
  assumes "arp_ok s" "nif \<noteq> 0" "\<forall>i < ARP_TABLE_SIZE. a_state (entry s i) \<noteq> ETHARP_STATE_EMPTY \<longrightarrow> key (entry s i) \<noteq> (nif, ip)"
    and "i0 < ARP_TABLE_SIZE" "a_state (entry s i0) \<noteq> ETHARP_STATE_PENDING"
  shows "\<exists>i s'. etharp_find_entry E (Some ip) ETHARP_FLAG_TRY_HARD nif s = Some (int i, s') \<and> i < ARP_TABLE_SIZE \<and>
    key (entry s' i) = (nif, ip) \<and> pbufs s' = pbufs s \<and> (\<forall>j. j \<noteq> i \<longrightarrow> entry s' j = entry s j) \<and>
    (a_state (entry s i) = ETHARP_STATE_EMPTY \<or> at_least_stable (a_state (entry s i)) \<and>
      (\<forall>j < ARP_TABLE_SIZE. a_state (entry s j) \<noteq> ETHARP_STATE_EMPTY \<and>
        (at_least_stable (a_state (entry s j)) \<longrightarrow> a_ctime (entry s j) \<le> a_ctime (entry s i))))"
proof -
  have len: "length (arp_table s) = ARP_TABLE_SIZE" using assms(1) by (simp add: arp_ok_def table_ok_def)
  obtain c where c: "find_sweep (Some ip) nif 0 (arp_table s) no_cands = Inr c"
    using sweep_hit [of "Some ip" nif "arp_table s"] len assms(2,3)
    by (cases "find_sweep (Some ip) nif 0 (arp_table s) no_cands") (auto simp: matches_key used_def)
  note ok = sweep_miss(1) [OF c len [THEN eq_refl]]
  have init: "key (entry (init_entry (Some ip) nif i t) i) = (nif, ip)" if "i < length (arp_table t)" for i t
    using that by (simp add: init_entry_def entry_upd key_def)
  show ?thesis
  proof (cases "c_empty c = ARP_TABLE_SIZE")
    case False
    then have e: "c_empty c < ARP_TABLE_SIZE" "a_state (entry s (c_empty c)) = ETHARP_STATE_EMPTY"
      using ok first_empty_le [OF len] first_empty_spec(1) [OF _ len] by (auto simp: cands_ok_def used_def)
    then show ?thesis
      using c init [of "c_empty c" s] len
      by (intro exI [of _ "c_empty c"] exI [of _ "init_entry (Some ip) nif (c_empty c) s"])
        (simp add: etharp_find_entry_def arp_flags init_entry_def entry_upd, simp add: upd_entry_def)
  next
    case True
    have full: "a_state (entry s j) \<noteq> ETHARP_STATE_EMPTY" if "j < ARP_TABLE_SIZE" for j
      using True ok first_empty_spec(2) [OF _ len] that len by (auto simp: cands_ok_def used_def)
    then have "\<exists>e \<in> set (arp_table s). is_stable e" using assms(4,5) len by (auto simp: state_preds intro!: bexI [of _ "entry s i0"])
    then have old: "c_old_stable c < ARP_TABLE_SIZE" "is_stable (entry s (c_old_stable c))"
        "\<forall>j < ARP_TABLE_SIZE. is_stable (entry s j) \<longrightarrow> a_ctime (entry s j) \<le> a_ctime (entry s (c_old_stable c))"
      using ok len by (auto simp: cands_ok_def oldest_def)
    define i where "i = c_old_stable c"
    have q: "a_q (entry s i) = 0" using arp_okD [OF assms(1) old(1)] old(2) by (auto simp: entry_ok_def state_preds i_def)
    define s1 where "s1 = upd_entry i (a_state_update (\<lambda>_. ETHARP_STATE_EMPTY)) s"
    have "etharp_find_entry E (Some ip) ETHARP_FLAG_TRY_HARD nif s = Some (int i, init_entry (Some ip) nif i s1)"
      using c True old(1) q by (simp add: etharp_find_entry_def arp_flags recycle_def etharp_free_entry_def i_def s1_def)
    moreover have "key (entry (init_entry (Some ip) nif i s1) i) = (nif, ip)"
      using init [of i s1] old(1) len by (simp add: s1_def entry_upd i_def)
    ultimately show ?thesis
      using old full
      by (intro exI [of _ i] exI [of _ "init_entry (Some ip) nif i s1"]) (auto simp: i_def is_stable_def s1_def init_entry_def upd_entry_def)
  qed
qed

theorem new_address_keeps_packets_witness:
  "\<exists>i s'. etharp_find_entry demo_arp_env (Some 0x0400000A) ETHARP_FLAG_TRY_HARD 0x3000 (demo_arp demo_table) = Some (int i, s') \<and>
     key (entry s' i) = (0x3000, 0x0400000A) \<and> pbufs s' = pbufs (demo_arp demo_table)"
proof -
  have t: "arp_table (demo_arp demo_table) = demo_table" by (simp add: demo_arp_def)
  have "\<forall>i < ARP_TABLE_SIZE. a_state (demo_table ! i) \<noteq> ETHARP_STATE_EMPTY \<longrightarrow> key (demo_table ! i) \<noteq> (0x3000, 0x0400000A)"
  proof (intro allI impI)
    fix i assume "i < ARP_TABLE_SIZE" "a_state (demo_table ! i) \<noteq> ETHARP_STATE_EMPTY"
    then have "i = 0 \<or> i = 1" using demo_entries(4) [of i] by (force simp: ARP_TABLE_SIZE_def blank_entry_def)
    then show "key (demo_table ! i) \<noteq> (0x3000, 0x0400000A)" using demo_entries(2,3) by (auto simp: key_def)
  qed
  moreover have "a_state (demo_table ! 1) \<noteq> ETHARP_STATE_PENDING" using demo_entries(3) by simp
  ultimately show ?thesis
    using new_address_keeps_packets [OF demo_arp_ok, of "0x3000" "0x0400000A" 1 demo_arp_env] unfolding t ARP_TABLE_SIZE_def by auto
qed

section \<open>What has been learnt is used\<close>

text \<open>The table has a stable entry for the address, so young that its use causes no request.\<close>

definition known :: "addr \<Rightarrow> u32 \<Rightarrow> u8 list \<Rightarrow> nat \<Rightarrow> ('k, 'm, 'z) arp_scheme \<Rightarrow> bool" where
  "known nif ip mac i s \<longleftrightarrow> i < ARP_TABLE_SIZE \<and> a_state (entry s i) = ETHARP_STATE_STABLE \<and> key (entry s i) = (nif, ip) \<and>
     a_ethaddr (entry s i) = mac \<and> a_ctime (entry s i) < ARP_AGE_REREQUEST_USED_UNICAST"

lemma learnt_known: "learnt nif ip mac i s0 s \<Longrightarrow> known nif ip mac i s"
  by (simp add: learnt_def known_def ARP_AGE_REREQUEST_USED_UNICAST_def ARP_MAXAGE_def)

lemma known_hits:
  assumes "arp_ok s" "known nif ip mac i s" "j < ARP_TABLE_SIZE"
  shows "hits nif ip (entry s j) \<longleftrightarrow> j = i"
proof -
  have i: "i < ARP_TABLE_SIZE" "used (entry s i)" "key (entry s i) = (nif, ip)" "hits nif ip (entry s i)"
    using assms(2) by (auto simp: known_def state_preds hits_def key_def)
  have "key (entry s j) \<noteq> key (entry s i)" if "j \<noteq> i" "used (entry s j)"
    using table_okD(3) [of "arp_table s" i j] assms(1,3) i that by (simp add: arp_ok_def)
  then show ?thesis using i by (cases "j = i") (auto simp: hits_def key_def state_preds)
qed

lemma output_unicast_known:
  assumes "arp_ok s" "known nif ip mac i s"
  shows "\<exists>k. output_unicast K E nif q ip s = etharp_output_to_arp_index K E nif q i (s\<lparr>etharp_cached_entry := k\<rparr>)"
proof -
  have len: "length (arp_table s) = ARP_TABLE_SIZE" and c: "etharp_cached_entry s < ARP_TABLE_SIZE"
    using assms(1) by (simp_all add: arp_ok_def table_ok_def)
  have i: "i < ARP_TABLE_SIZE" using assms(2) by (simp add: known_def)
  note h = known_hits [OF assms]
  show ?thesis
  proof (cases "etharp_cached_entry s = i")
    case True
    then have eq: "s\<lparr>etharp_cached_entry := i\<rparr> = s" by auto
    have "output_unicast K E nif q ip s = etharp_output_to_arp_index K E nif q i (s\<lparr>etharp_cached_entry := i\<rparr>)"
      unfolding eq using True h [OF c] by (simp add: output_unicast_def)
    then show ?thesis ..
  next
    case False
    have "first_idx (hits nif ip) (arp_table s) = Some i"
      using h len i unfolding first_idx_Some_iff by auto
    then show ?thesis using False h [OF c] by (intro exI [of _ i]) (simp add: output_unicast_def)
  qed
qed

text \<open>A packet for a host of the local network that is known goes to the Ethernet layer at once.\<close>

lemma etharp_output_known:
  assumes "arp_ok s" "known nif ip mac i s" "netif_store s nif = Some n"
    and "\<not> ip4_addr_isbroadcast_u32 ip n" "\<not> ip4_addr_ismulticast ip" "ip4_addr_net_eq ip (n_ip_addr n) (n_netmask n)"
  shows "\<exists>k. etharp_output K E nif q ip s = ethernet_output K E nif q (n_hwaddr n) mac ETHTYPE_IP (s\<lparr>etharp_cached_entry := k\<rparr>)"
proof -
  obtain k where k: "output_unicast K E nif q ip s = etharp_output_to_arp_index K E nif q i (s\<lparr>etharp_cached_entry := k\<rparr>)"
    using output_unicast_known [OF assms(1,2)] by blast
  have "\<not> ARP_AGE_REREQUEST_USED_BROADCAST \<le> a_ctime (entry s i)" "\<not> ARP_AGE_REREQUEST_USED_UNICAST \<le> a_ctime (entry s i)"
    using assms(2) by (auto simp: known_def ARP_AGE_REREQUEST_USED_BROADCAST_def ARP_AGE_REREQUEST_USED_UNICAST_def ARP_MAXAGE_def word_le_nat_alt word_less_nat_alt)
  then have "etharp_output_to_arp_index K E nif q i (s\<lparr>etharp_cached_entry := k\<rparr>) =
      ethernet_output K E nif q (n_hwaddr n) mac ETHTYPE_IP (s\<lparr>etharp_cached_entry := k\<rparr>)"
    using assms(2,3) by (simp add: etharp_output_to_arp_index_def known_def at_least_stable_def)
  moreover have "etharp_output K E nif q ip s = output_unicast K E nif q ip s"
    using assms(3-6) by (simp add: etharp_output_def)
  ultimately show ?thesis using k by auto
qed

text \<open>
  C11.  What ARP has learnt is used: after a pair of addresses has been taken into the table, the next packet
  for the IP address leaves at once, as one frame to the MAC address, with the address of the interface as
  its source, without a request.  (The IP address is a unicast address of the local network, and the
  packet has room for the Ethernet header and is off the driver's buffer.)
\<close>

theorem learnt_then_sent:
  assumes "arp_quiet E" "arp_ok s0" "nif \<noteq> 0" "length mac = 6" "etharp_update_arp_entry K E nif ip mac fl s0 = Some (ERR_OK, s)"
    and "netif_store s nif = Some n" "good_netif n" "\<not> ip4_addr_isbroadcast_u32 ip n" "\<not> ip4_addr_ismulticast ip"
    and "ip4_addr_net_eq ip (n_ip_addr n) (n_netmask n)"
    and "packet (pbufs s) q (q # as) len" "pbufs s q = Some b" "len + 14 \<le> 1522"
    and "p_type_internal b AND PBUF_TYPE_FLAG_STRUCT_DATA_CONTIGUOUS \<noteq> 0" "q + SIZEOF_STRUCT_PBUF \<le> p_payload b - 14"
    and "spread ((pbufs s)(q \<mapsto> with_header b)) (q # as)"
    and "off_block ((pbufs s)(q \<mapsto> with_header b)) (q # as) (le_txbuf E) (len + 14)" "le_txbuf E \<noteq> 0"
  shows "\<exists>s'. etharp_output K E nif q ip s = Some (ERR_OK, s') \<and>
    kern s' = k_net_tx K (mac @ n_hwaddr n @ [8, 0] @ data s (q # as)) 0 (kern s)"
proof -
  obtain i where i: "arp_ok s" "learnt nif ip mac i s0 s"
    using update_entry_cases [OF assms(1,5,2-4)] by (auto simp: ERR_OK_def)
  obtain k where "etharp_output K E nif q ip s = ethernet_output K E nif q (n_hwaddr n) mac ETHTYPE_IP (s\<lparr>etharp_cached_entry := k\<rparr>)"
    using etharp_output_known [OF i(1) learnt_known [OF i(2)] assms(6,8-10)] by blast
  then show ?thesis
    using ethernet_output_eq [of "s\<lparr>etharp_cached_entry := k\<rparr>" q as len b E nif n "n_hwaddr n" mac K ETHTYPE_IP] assms(4,6,7,11-18)
    by (simp add: good_netif_def ETHTYPE_IP_def le_bytes_2_numerals)
qed

theorem learnt_then_sent_witness:
  "\<exists>s s'. etharp_update_arp_entry sim_kernel demo_arp_env 0x3000 0x0300000A [2, 0, 0, 0, 0, 7] ETHARP_FLAG_TRY_HARD
       (demo_arp (replicate 10 blank_entry)) = Some (ERR_OK, s) \<and>
     etharp_output sim_kernel demo_arp_env 0x3000 0x1000 0x0300000A s = Some (ERR_OK, s') \<and>
     sim_tx (kern s') = [[2, 0, 0, 0, 0, 7, 2, 0, 0, 0, 0, 1, 8, 0, 0, 0, 0, 0, 0]]"
proof -
  define s0 where "s0 = demo_arp (replicate 10 blank_entry)"
  have t: "arp_table s0 = replicate ARP_TABLE_SIZE blank_entry" "etharp_cached_entry s0 = 0" "netif_store s0 0x3000 = Some demo_arp_netif"
    by (simp_all add: s0_def demo_arp_def ARP_TABLE_SIZE_def)
  define s where "s = upd_entry 0 (\<lambda>e. e\<lparr>a_state := ETHARP_STATE_STABLE, a_netif := 0x3000, a_ethaddr := [2, 0, 0, 0, 0, 7], a_ctime := 0\<rparr>)
      (init_entry (Some 0x0300000A) 0x3000 0 s0)"
  have "a_q (entry s 0) = 0" by (simp add: s_def upd_entry_def init_entry_def t ARP_TABLE_SIZE_def blank_entry_def)
  then have u: "etharp_update_arp_entry sim_kernel demo_arp_env 0x3000 0x0300000A [2, 0, 0, 0, 0, 7] ETHARP_FLAG_TRY_HARD s0 = Some (ERR_OK, s)"
    using find_blank [OF t(1), of demo_arp_env "0x0300000A" "0x3000"] t(3)
    by (simp add: etharp_update_arp_entry_def demo_unicast s_def [symmetric] Let_def)
  have m: "pbufs s = [0x1000 \<mapsto> demo_eth_pbuf, 0x2000 \<mapsto> demo_pbuf2]" "mem s = (\<lambda>_. 0)" "netif_store s 0x3000 = Some demo_arp_netif"
    "kern s = sim_blank" by (simp_all add: s_def s0_def upd_entry_def init_entry_def demo_arp_def)
  let ?P = "(pbufs s)(0x1000 \<mapsto> with_header demo_eth_pbuf)"
  have pk: "packet (pbufs s) 0x1000 [0x1000, 0x2000] 5" "data s [0x1000, 0x2000] = [0, 0, 0, 0, 0]"
    by (simp_all add: m demo_eth_pbuf_def demo_pbuf2_def packet_def pbuf_bytes_def mem_read_def upt_rec)
  have h: "spread ?P [0x1000, 0x2000]" "off_block ?P [0x1000, 0x2000] (le_txbuf demo_arp_env) 19" "le_txbuf demo_arp_env \<noteq> 0"
    "p_type_internal demo_eth_pbuf AND PBUF_TYPE_FLAG_STRUCT_DATA_CONTIGUOUS \<noteq> 0" "0x1000 + SIZEOF_STRUCT_PBUF \<le> p_payload demo_eth_pbuf - 14"
    by (simp_all add: m demo_eth_pbuf_def demo_pbuf2_def with_header_def sep_def demo_arp_env_def pbuf_consts)
  have "\<exists>s'. etharp_output sim_kernel demo_arp_env 0x3000 0x1000 0x0300000A s = Some (ERR_OK, s') \<and>
      kern s' = k_net_tx sim_kernel ([2, 0, 0, 0, 0, 7] @ n_hwaddr demo_arp_netif @ [8, 0] @ data s [0x1000, 0x2000]) 0 (kern s)"
    using learnt_then_sent [OF demo_quiet blank_ok [OF t(1,2)] _ _ u m(3) demo_good_netif demo_unicast(1,2,4) pk(1)] m(1) h by simp
  then show ?thesis
    using u pk(2) m(4) by (auto simp: s0_def demo_arp_netif_def sim_kernel_def sim_blank_def)
qed

end
