(* ===== verification/BM_Etharp_Reply.thy ===== *)
theory BM_Etharp_Reply
  imports BM_Etharp_Props
begin

text \<open>
  The Ethernet layer and ARP together: a frame with a request for the address of the interface, taken
  from the kernel's buffer, is answered with the frame of the reply, and the sender is in the table.
\<close>

section \<open>Taking the frame in\<close>

lemma take_single:
  assumes "p \<noteq> 0" "d \<noteq> 0" "pbufs s p = Some b" "p_len b = len" "p_tot_len b = len"
  shows "pbuf_take p d len s = Some (ERR_OK, mem_copy (p_payload b) d (unat len) s)"
proof -
  have "pbuf_take_loop x d 0 c t = Some t" for x c and t :: "('a, 'b, 'c) lwip_scheme" by (simp add: pbuf_take_loop.simps)
  moreover have u: "unat (ucast len :: u64) = unat len"
    using unat_u16_less [of len] by (simp add: unsigned_ucast_eq take_bit_nat_eq_self)
  moreover have "unat len = 0" if "(ucast len :: u64) = 0" using that u by simp
  ultimately show ?thesis
    using assms by (auto simp: pbuf_take_def pbuf_take_loop.simps [of p] mem_copy_def mem_read_def [of _ _ 0] simp del: unat_eq_0)
qed

lemma dest_flags_custom: "dest_flags ds AND PBUF_FLAG_IS_CUSTOM = 0"
  by (simp add: dest_flags_def ethernet_consts pbuf_consts)

lemma of_htons: "of_le_bytes (rev (le_bytes 2 w)) = lwip_htons w" for w :: u16
  unfolding le_bytes_htons [symmetric] by simp

text \<open>The protocols above the Ethernet layer, by the second octet of the type of the frame.\<close>

definition upper_input :: "('m, 's) link_env \<Rightarrow> u8 \<Rightarrow> (addr \<Rightarrow> addr \<Rightarrow> 's \<Rightarrow> 's option) \<Rightarrow> bool" where
  "upper_input E t up \<longleftrightarrow> t = 0 \<and> up = le_ip4_input E \<or> t = 6 \<and> up = le_etharp_input E"

lemma ethernet_input_up:
  assumes "p \<noteq> 0" "pbufs s p = Some b" "14 < p_len b" "netif_store s i = Some n" "n_flags n AND NETIF_FLAG_ETHARP \<noteq> 0"
    and "mem_read (mem s) (p_payload b + 12) 2 = [8, t]" "upper_input E t up" "p_flags b = 0"
  shows "\<exists>b'. ethernet_input E p i s = do {s1 \<leftarrow> up p i (s\<lparr>pbufs := (pbufs s)(p \<mapsto> b')\<rparr>); Some (ERR_OK, s1)} \<and>
    p_payload b' = p_payload b + 14 \<and> p_len b' = p_len b - 14 \<and> p_tot_len b' = p_tot_len b - 14 \<and> p_next b' = p_next b \<and> p_ref b' = p_ref b \<and>
    p_type_internal b' = p_type_internal b \<and> p_flags b' AND PBUF_FLAG_IS_CUSTOM = 0"
proof -
  have "of_le_bytes [8, 0] = lwip_htons (0x0800 :: u16)" "of_le_bytes [8, 6] = lwip_htons (0x0806 :: u16)"
    using of_htons [of "0x0800"] of_htons [of "0x0806"] by (simp_all add: le_bytes_2_numerals)
  moreover have "lwip_htons 0x0806 \<noteq> (lwip_htons 0x0800 :: u16)" by (simp add: lwip_htons_def)
  moreover have "\<not> p_len b < 14" "\<not> p_len b \<le> 14" using assms(3) by auto
  ultimately show ?thesis
    using assms dest_flags_custom
    by (auto simp: upper_input_def ethernet_input_def pass_up_def pbuf_remove_header_def put_pbuf_def SIZEOF_ETH_HDR_def Let_def)
qed

text \<open>
  A frame in the kernel's buffer is copied into a buffer of its own and handed up without its header:
  its bytes start 14 behind the place of the frame, which is behind the struct of the buffer.
\<close>

lemma receive_frame_up:
  assumes "ram_block (le_pbuf E) PBUF_RAW (ucast len) (alloc s) p a" "unat len < 65536" "le_rxbuf E \<noteq> 0"
    and "mem_read (mem s) (le_rxbuf E) (unat len) = hdr @ [8, t] @ body" "length hdr = 12" "body \<noteq> []"
    and "netif_store s (le_bmos_netif E) = Some n" "n_input n = Ethernet_input" "n_flags n AND NETIF_FLAG_ETHARP \<noteq> 0" "upper_input E t up"
  shows "\<exists>b m d. receive_frame E len s = up p (le_bmos_netif E) (s\<lparr>alloc := a, mem := m, pbufs := (pbufs s)(p \<mapsto> b)\<rparr>) \<and>
    mem_read m (p_payload b) (length body) = body \<and> unat len = 14 + length body \<and> p_payload b = p + of_nat d \<and> 38 \<le> d \<and>
    d + length body \<le> ram_size 0 (ucast len) \<and> unat (p_len b) = length body \<and> p_tot_len b = p_len b \<and>
    p_next b = 0 \<and> p_ref b = 1 \<and> p_type_internal b = ucast PBUF_RAM \<and> p_flags b AND PBUF_FLAG_IS_CUSTOM = 0"
proof -
  define w where "w = (ucast len :: u16)"
  have l: "unat w = unat len" using assms(2) by (simp add: w_def unsigned_ucast_eq take_bit_nat_eq_self)
  have "length (mem_read (mem s) (le_rxbuf E) (unat len)) = 14 + length body" unfolding assms(4) using assms(5) by simp
  then have len: "unat w = 14 + length body" using l by simp
  have p: "p \<noteq> 0" using assms(1) by (simp add: ram_block_def)
  obtain b d where b: "pbuf_alloc (le_pbuf E) PBUF_RAW w PBUF_RAM s = Some (p, s\<lparr>alloc := a, pbufs := (pbufs s)(p \<mapsto> b)\<rparr>)"
      "ram_pbuf p PBUF_RAW w d b"
    using alloc_ram_block [OF assms(1)] unfolding w_def by blast
  let ?s1 = "s\<lparr>alloc := a, pbufs := (pbufs s)(p \<mapsto> b)\<rparr>"
  define m where "m = mem_write (mem s) (p_payload b) (mem_read (mem s) (le_rxbuf E) (unat w))"
  let ?s2 = "?s1\<lparr>mem := m\<rparr>"
  have t: "pbuf_take p (le_rxbuf E) w ?s1 = Some (ERR_OK, ?s2)"
    using take_single [OF p assms(3), of ?s1 b w] b(2) by (simp add: ram_pbuf_def mem_copy_def m_def)
  have fr: "mem_read m (p_payload b) (14 + length body) = (hdr @ [8, t]) @ body"
    using mem_read_write_eq [of "mem_read (mem s) (le_rxbuf E) (unat w)" "unat w" "mem s" "p_payload b"] unat_u16_less [of w] assms(4,5) l len
    by (simp add: m_def)
  then have h: "mem_read m (p_payload b + 12) 2 = [8, t]" "mem_read m (p_payload b + 14) (length body) = body"
    using mem_read_add [of m "p_payload b" 12 2] mem_read_add [of m "p_payload b" 14 "length body"] assms(5)
    by (simp_all add: append_eq_append_conv del: append_Cons append.simps)
  have "14 < p_len b" using b(2) len assms(6) by (simp add: ram_pbuf_def word_less_nat_alt)
  then obtain b' where e: "ethernet_input E p (le_bmos_netif E) ?s2 =
        do {s1 \<leftarrow> up p (le_bmos_netif E) (?s2\<lparr>pbufs := (pbufs s)(p \<mapsto> b')\<rparr>); Some (ERR_OK, s1)}"
      "p_payload b' = p_payload b + 14" "p_len b' = w - 14" "p_tot_len b' = w - 14" "p_next b' = 0" "p_ref b' = 1"
      "p_type_internal b' = ucast PBUF_RAM" "p_flags b' AND PBUF_FLAG_IS_CUSTOM = 0"
    using ethernet_input_up [OF p, of ?s2 b "le_bmos_netif E" n t E up] assms(7,9,10) h(1) b(2) by (auto simp: ram_pbuf_def)
  have "receive_frame E len s = up p (le_bmos_netif E) (s\<lparr>alloc := a, mem := m, pbufs := (pbufs s)(p \<mapsto> b')\<rparr>)"
    using b(1) t e(1) p assms(7,8)
    by (cases "up p (le_bmos_netif E) (s\<lparr>alloc := a, mem := m, pbufs := (pbufs s)(p \<mapsto> b')\<rparr>)")
      (simp_all add: receive_frame_def w_def [symmetric] call_input_def)
  moreover have "unat (w - 14) = length body" using len by (subst unat_minus_small) (simp_all add: word_le_nat_alt)
  moreover have "p_payload b' = p + of_nat (d + 14)" "38 \<le> d + 14" "d + 14 + length body \<le> ram_size 0 w"
    using b(2) e(2) len by (simp_all add: ram_pbuf_def)
  ultimately show ?thesis
    using h(2) e(2-8) l len unfolding w_def [symmetric] by (intro exI [of _ b'] exI [of _ m] exI [of _ "d + 14"]) simp
qed

section \<open>The request\<close>

lemma arp_msg_fields:
  assumes "mem_read m x 28 = arp_msg opc hs sip ht dip" "length hs = 6" "length ht = 6"
  shows "arp_hdr_valid m x" "mem_read m (x + 8) 6 = hs" "of_le_bytes (mem_read m (x + 14) 4) = sip"
    "of_le_bytes (mem_read m (x + 24) 4) = dip" "of_le_bytes (mem_read m (x + 6) 2) = lwip_htons opc"
proof -
  have f: "mem_read m x 2 = [0, 1]" "mem_read m (x + 2) 2 = [8, 0]" "mem_read m (x + 4) 1 = [6]" "mem_read m (x + 5) 1 = [4]"
      "mem_read m (x + 6) 2 = rev (le_bytes 2 opc)" "mem_read m (x + 8) 6 = hs" "mem_read m (x + 14) 4 = le_bytes 4 sip"
      "mem_read m (x + 24) 4 = le_bytes 4 dip"
    using assms unfolding mem_read_28 arp_msg_def by (simp_all add: append_eq_append_conv del: append_Cons append.simps)
  have "m (x + 4) = 6" "m (x + 5) = 4" using f(3,4) by (simp_all add: mem_read_def)
  moreover have "of_le_bytes [0, 1] = lwip_htons (1 :: u16)" "of_le_bytes [8, 0] = lwip_htons (0x0800 :: u16)"
    using of_htons [of 1] of_htons [of "0x0800"] by (simp_all add: le_bytes_2_numerals)
  ultimately show "arp_hdr_valid m x" using f(1,2) by (simp add: arp_hdr_valid_def ETHTYPE_IP_def)
qed (use assms in \<open>simp_all add: mem_read_28 arp_msg_def append_eq_append_conv of_htons del: append_Cons append.simps\<close>)

text \<open>With no packet queued anywhere, an address that is no broadcast is always taken in.\<close>

lemma find_entry_returns:
  assumes "arp_ok s" "nif \<noteq> 0" "\<forall>e \<in> set (arp_table s). a_q e = 0"
  shows "\<exists>i t. etharp_find_entry E (Some ip) ETHARP_FLAG_TRY_HARD nif s = Some (int i, s\<lparr>arp_table := t\<rparr>) \<and> i < ARP_TABLE_SIZE \<and> a_q (t ! i) = 0"
proof (cases "find_sweep (Some ip) nif 0 (arp_table s) no_cands")
  have len: "length (arp_table s) = ARP_TABLE_SIZE" using assms(1) by (simp add: arp_ok_def table_ok_def)
  then have q: "a_q (entry s i) = 0" if "i < ARP_TABLE_SIZE" for i using assms(3) that by simp
  {
    case (Inl i)
    then show ?thesis
      using sweep_hit [OF Inl len [THEN eq_refl]] q len by (intro exI [of _ i] exI [of _ "arp_table s"]) (simp add: etharp_find_entry_def)
  next
    case (Inr c)
    note ok = sweep_miss(1) [OF Inr len [THEN eq_refl]]
    show ?thesis
    proof (cases "c_empty c < ARP_TABLE_SIZE")
      case True
      then show ?thesis
        using Inr q [OF True] len by (intro exI [of _ "c_empty c"]) (auto simp: etharp_find_entry_def arp_flags init_entry_def upd_entry_def)
    next
      case False
      then have full: "c_empty c = ARP_TABLE_SIZE" using ok first_empty_le [OF len] by (simp add: cands_ok_def)
      have "used (entry s 0)" using full ok first_empty_spec(2) [OF _ len, of "entry s 0"] len by (auto simp: cands_ok_def ARP_TABLE_SIZE_def)
      then have "is_stable (entry s 0) \<or> pending False (entry s 0)" using q [of 0] by (auto simp: state_preds ARP_TABLE_SIZE_def)
      then have "c_old_stable c < ARP_TABLE_SIZE \<or> c_old_pending c < ARP_TABLE_SIZE"
        using ok len unfolding cands_ok_def oldest_def by (metis ARP_TABLE_SIZE_def nth_mem zero_less_numeral)
      then obtain i where i: "recycle (arp_table s) c = Some (Some i)" "i < ARP_TABLE_SIZE"
        using q by (cases "c_old_stable c < ARP_TABLE_SIZE") (auto simp: recycle_def)
      then show ?thesis
        using Inr full q [OF i(2)] len
        by (intro exI [of _ i]) (auto simp: etharp_find_entry_def arp_flags etharp_free_entry_def init_entry_def upd_entry_def)
    qed
  }
qed

lemma update_entry_returns:
  assumes "arp_quiet E" "arp_ok s" "nif \<noteq> 0" "\<forall>e \<in> set (arp_table s). a_q e = 0" "netif_store s nif = Some n" "n_hwaddr_len n = 6"
    and "ip \<noteq> IPADDR_ANY" "\<not> ip4_addr_isbroadcast_u32 ip n" "\<not> ip4_addr_ismulticast ip" "length mac = 6"
  shows "\<exists>i t. etharp_update_arp_entry K E nif ip mac ETHARP_FLAG_TRY_HARD s = Some (ERR_OK, s\<lparr>arp_table := t\<rparr>) \<and>
    learnt nif ip mac i s (s\<lparr>arp_table := t\<rparr>)"
proof -
  obtain i t where f: "etharp_find_entry E (Some ip) ETHARP_FLAG_TRY_HARD nif s = Some (int i, s\<lparr>arp_table := t\<rparr>)" "a_q (t ! i) = 0"
    using find_entry_returns [OF assms(2-4)] by blast
  have "\<exists>t'. etharp_update_arp_entry K E nif ip mac ETHARP_FLAG_TRY_HARD s = Some (ERR_OK, s\<lparr>arp_table := t'\<rparr>)"
    using f assms(5-9) by (cases "i < length t") (auto simp: etharp_update_arp_entry_def upd_entry_def list_update_beyond)
  then obtain t' where u: "etharp_update_arp_entry K E nif ip mac ETHARP_FLAG_TRY_HARD s = Some (ERR_OK, s\<lparr>arp_table := t'\<rparr>)" ..
  then show ?thesis using update_entry_cases [OF assms(1) u assms(2,3,10)] by (auto simp: ERR_OK_def)
qed

definition usable :: "u32 \<Rightarrow> netif \<Rightarrow> bool" where
  "usable ip n \<longleftrightarrow> ip \<noteq> IPADDR_ANY \<and> ip \<noteq> n_ip_addr n \<and> \<not> ip4_addr_isbroadcast_u32 ip n \<and> \<not> ip4_addr_ismulticast ip"

text \<open>The frame of the reply.\<close>

definition arp_reply :: "netif \<Rightarrow> u8 list \<Rightarrow> u32 \<Rightarrow> u8 list" where
  "arp_reply n mac ip = mac @ n_hwaddr n @ [8, 6] @ arp_msg ARP_REPLY (n_hwaddr n) (n_ip_addr n) mac ip"

lemma etharp_input_request:
  assumes "arp_quiet E" "arp_ok s" "nif \<noteq> 0" "\<forall>e \<in> set (arp_table s). a_q e = 0" "netif_store s nif = Some n" "good_netif n"
    and "n_ip_addr n \<noteq> IPADDR_ANY" "usable sip n" "length hs = 6" "length ht = 6"
    and "p \<noteq> 0" "pbufs s p = Some b" "mem_read (mem s) (p_payload b) 28 = arp_msg ARP_REQUEST hs sip ht (n_ip_addr n)"
    and "LWIP_MEM_ALIGN p = p" "p_next b = 0" "p_ref b = 1" "p_flags b AND PBUF_FLAG_IS_CUSTOM = 0" "p_type_internal b = ucast PBUF_RAM"
    and "ram_block (le_pbuf E) PBUF_LINK 28 (alloc s) p2 a2" "p \<noteq> p2" "le_txbuf E \<noteq> 0" "sep (le_txbuf E) 42 p2 68"
  shows "\<exists>s' i. etharp_input K E p nif s = Some s' \<and> kern s' = k_net_tx K (arp_reply n hs sip) 0 (kern s) \<and>
    pbufs s' = (pbufs s)(p2 := None, p := None) \<and> learnt nif sip hs i s s'"
proof -
  note f = arp_msg_fields [OF assms(13,9,10)]
  obtain i t where u: "etharp_update_arp_entry K E nif sip hs ETHARP_FLAG_TRY_HARD s = Some (ERR_OK, s\<lparr>arp_table := t\<rparr>)"
      "learnt nif sip hs i s (s\<lparr>arp_table := t\<rparr>)"
    using update_entry_returns [OF assms(1-5), of sip hs K] assms(6,8,9) by (auto simp: good_netif_def usable_def)
  let ?s1 = "s\<lparr>arp_table := t\<rparr>"
  obtain m where m: "etharp_raw K E nif (n_hwaddr n) hs (n_hwaddr n) (n_ip_addr n) hs sip ARP_REPLY ?s1 =
      Some (ERR_OK, ?s1\<lparr>alloc := e_free (le_pbuf E) p2 a2, pbufs := (pbufs s)(p2 := None), mem := m, kern := k_net_tx K (arp_reply n hs sip) 0 (kern s)\<rparr>)"
    using etharp_raw_eq [of E ?s1 p2 a2 nif n "n_hwaddr n" hs "n_hwaddr n" hs K "n_ip_addr n" sip ARP_REPLY] assms(5,6,9,19,21,22)
    by (auto simp: good_netif_def arp_reply_def)
  let ?s2 = "?s1\<lparr>alloc := e_free (le_pbuf E) p2 a2, pbufs := (pbufs s)(p2 := None), mem := m, kern := k_net_tx K (arp_reply n hs sip) 0 (kern s)\<rparr>"
  have r: "etharp_respond K E nif (p_payload b) True False sip ?s1 = Some ?s2"
    using m f(2,5) assms(5) by (simp add: etharp_respond_def)
  have fr: "pbuf_free (le_pbuf E) p ?s2 =
      Some (1, ?s2\<lparr>alloc := e_free (le_pbuf E) p (alloc ?s2), pbufs := (pbufs s)(p2 := None, p := None)\<rparr>)"
    using ram_free [OF assms(11,14), of ?s2 b "le_pbuf E"] assms(12,15-18,20) by simp
  have "etharp_input K E p nif s = Some (?s2\<lparr>alloc := e_free (le_pbuf E) p (alloc ?s2), pbufs := (pbufs s)(p2 := None, p := None)\<rparr>)"
    using f u(1) r fr assms(3,5,7,8,12) by (simp add: etharp_input_def usable_def)
  then show ?thesis using learnt_same [OF u(2), of "?s2\<lparr>alloc := e_free (le_pbuf E) p (alloc ?s2), pbufs := (pbufs s)(p2 := None, p := None)\<rparr>"]
    by (auto simp: same_arp_def)
qed

section \<open>The answer\<close>

text \<open>
  The blocks that the C library hands out for the frame and for the reply, clear of each other and of
  the driver's two buffers.
\<close>

definition reply_room :: "('m, 's) link_env \<Rightarrow> u16 \<Rightarrow> 'm \<Rightarrow> addr \<Rightarrow> addr \<Rightarrow> bool" where
  "reply_room E len al p p2 \<longleftrightarrow> (\<exists>a a2. ram_block (le_pbuf E) PBUF_RAW len al p a \<and> ram_block (le_pbuf E) PBUF_LINK 28 a p2 a2) \<and>
     p \<noteq> p2 \<and> sep (le_rxbuf E) (unat len) p (ram_size 0 len) \<and> sep (le_txbuf E) 42 p2 68"

text \<open>
  C9.  ARP requests are answered.  When the kernel's buffer holds a frame with an ARP request for the
  address of the interface, from a host of the network, taking the frame in sends exactly one frame: the
  reply to that host, with the MAC address of the interface.  The host is in the table from then on, and
  the buffers used on the way are free again.  (No packet waits in the table, and the C library has
  room for the frame and the reply.)
\<close>

theorem arp_request_answered:
  assumes "arp_quiet E" "arp_ok s" "\<forall>e \<in> set (arp_table s). a_q e = 0"
    and "nif = le_bmos_netif E" "nif \<noteq> 0" "netif_store s nif = Some n" "good_netif n" "n_input n = Ethernet_input"
    and "n_flags n AND NETIF_FLAG_ETHARP \<noteq> 0" "n_ip_addr n \<noteq> IPADDR_ANY" "usable ip n"
    and "length hdr = 12" "length mac = 6" "length ht = 6" "unat len < 65536"
    and "mem_read (mem s) (le_rxbuf E) (unat len) = hdr @ [8, 6] @ arp_msg ARP_REQUEST mac ip ht (n_ip_addr n) @ pad"
    and "reply_room E (ucast len) (alloc s) p p2" "le_rxbuf E \<noteq> 0" "le_txbuf E \<noteq> 0" "pbufs s p = None" "pbufs s p2 = None"
  shows "\<exists>s' i. receive_frame (arp_env K E) len s = Some s' \<and> kern s' = k_net_tx K (arp_reply n mac ip) 0 (kern s) \<and>
    etharp_get_entry i s' = Some (ip, nif, mac) \<and> pbufs s' = pbufs s"
proof -
  obtain a a2 where bl: "ram_block (le_pbuf E) PBUF_RAW (ucast len) (alloc s) p a" "ram_block (le_pbuf E) PBUF_LINK 28 a p2 a2" "p \<noteq> p2"
      "sep (le_txbuf E) 42 p2 68"
    using assms(17) unfolding reply_room_def by blast
  have p: "p \<noteq> 0" "LWIP_MEM_ALIGN p = p" using bl(1) by (simp_all add: ram_block_def)
  have up: "upper_input (arp_env K E) 6 (etharp_input K E)" by (simp add: upper_input_def)
  let ?r = "arp_msg ARP_REQUEST mac ip ht (n_ip_addr n)"
  have ne: "?r @ pad \<noteq> []" by (simp add: arp_msg_def)
  obtain b m where b: "receive_frame (arp_env K E) len s = etharp_input K E p nif (s\<lparr>alloc := a, mem := m, pbufs := (pbufs s)(p \<mapsto> b)\<rparr>)"
      "mem_read m (p_payload b) (28 + length pad) = ?r @ pad" "p_next b = 0" "p_ref b = 1" "p_type_internal b = ucast PBUF_RAM"
      "p_flags b AND PBUF_FLAG_IS_CUSTOM = 0"
    using receive_frame_up [of "arp_env K E" len s p a, OF _ assms(15) _ _ assms(12) ne _ assms(8,9) up] bl(1) assms(4,6,13,14,16,18) by auto
  let ?s3 = "s\<lparr>alloc := a, mem := m, pbufs := (pbufs s)(p \<mapsto> b)\<rparr>"
  have h: "mem_read m (p_payload b) 28 = ?r"
    using b(2) mem_read_add [of m "p_payload b" 28 "length pad"] assms(13,14) by (simp add: append_eq_append_conv del: append_Cons append.simps)
  obtain s' i where r: "etharp_input K E p nif ?s3 = Some s'" "kern s' = k_net_tx K (arp_reply n mac ip) 0 (kern s)"
      "pbufs s' = (pbufs s)(p2 := None, p := None)" "learnt nif ip mac i ?s3 s'"
    using etharp_input_request [of E ?s3 nif n ip mac ht p b p2 a2 K] assms(1-3,5-7,10,11,13,14,19) h b(3-6) p bl(2,3,4)
    by (auto simp: arp_ok_def)
  have "receive_frame (arp_env K E) len s = Some s'" using b(1) r(1) by simp
  moreover have "pbufs s' = pbufs s" using r(3) assms(20,21) by auto
  moreover have "etharp_get_entry i s' = Some (ip, nif, mac)"
    using r(4) by (auto simp: learnt_def etharp_get_entry_def key_def at_least_stable_def)
  ultimately show ?thesis using r(2) by blast
qed

text \<open>A C library with two blocks, and a request, padded to the sixty bytes of the shortest frame.\<close>

definition two_blocks :: "(addr set, 's) pbuf_env" where
  "two_blocks = demo_malloc\<lparr>e_malloc := (\<lambda>n a. if n > 4096 then (0, a) else if 0x10000 \<notin> a then (0x10000, insert 0x10000 a)
     else if 0x20000 \<notin> a then (0x20000, insert 0x20000 a) else (0, a))\<rparr>"

definition demo_request :: "u8 list" where
  "demo_request = replicate 6 0xFF @ [2, 0, 0, 0, 0, 7] @ [8, 6] @ [0, 1, 8, 0, 6, 4, 0, 1, 2, 0, 0, 0, 0, 7, 10, 0, 0, 3] @
     [0, 0, 0, 0, 0, 0, 10, 0, 0, 2] @ replicate 18 0"

theorem arp_request_answered_witness:
  "\<exists>E s' i. receive_frame (arp_env sim_kernel E) 60
       ((demo_arp (replicate 10 blank_entry))\<lparr>mem := mem_write (\<lambda>_. 0) 0xA000 demo_request\<rparr>) = Some s' \<and>
     sim_tx (kern s') = [[2, 0, 0, 0, 0, 7] @ [2, 0, 0, 0, 0, 1] @ [8, 6] @ [0, 1, 8, 0, 6, 4, 0, 2, 2, 0, 0, 0, 0, 1, 10, 0, 0, 2] @
       [2, 0, 0, 0, 0, 7, 10, 0, 0, 3]] \<and>
     etharp_get_entry i s' = Some (0x0300000A, 0x3000, [2, 0, 0, 0, 0, 7])"
proof -
  define E :: "(addr set, (sim, addr set) arp) link_env" where
    "E = demo_arp_env\<lparr>le_netif := (le_netif demo_arp_env)\<lparr>ne_timer := (ne_timer (le_netif demo_arp_env))\<lparr>te_pbuf := two_blocks\<rparr>\<rparr>\<rparr>"
  define s where "s = (demo_arp (replicate 10 blank_entry))\<lparr>mem := mem_write (\<lambda>_. 0) 0xA000 demo_request\<rparr>"
  have E: "le_pbuf E = two_blocks" "le_txbuf E = 0x8000" "le_rxbuf E = 0xA000" "le_bmos_netif E = 0x3000" "arp_quiet E"
    by (simp_all add: E_def demo_arp_env_def arp_quiet_def env_quiet_def two_blocks_def demo_malloc_def same_arp_def)
  have t: "arp_table s = replicate ARP_TABLE_SIZE blank_entry" "etharp_cached_entry s = 0" "netif_store s 0x3000 = Some demo_arp_netif"
    "alloc s = {0x1000, 0x2000}" "pbufs s 0x10000 = None" "pbufs s 0x20000 = None" "kern s = sim_blank"
    by (simp_all add: s_def demo_arp_def ARP_TABLE_SIZE_def)
  have n: "n_input demo_arp_netif = Ethernet_input" "n_flags demo_arp_netif AND NETIF_FLAG_ETHARP \<noteq> 0" "n_ip_addr demo_arp_netif \<noteq> IPADDR_ANY"
    "usable 0x0300000A demo_arp_netif"
    using demo_unicast by (simp_all add: usable_def demo_arp_netif_def netif_flags IPADDR_ANY_def)
  have len: "length demo_request = 60" by (simp add: demo_request_def)
  have "demo_request = (replicate 6 0xFF @ [2, 0, 0, 0, 0, 7]) @ [8, 6] @
      arp_msg ARP_REQUEST [2, 0, 0, 0, 0, 7] 0x0300000A [0, 0, 0, 0, 0, 0] (n_ip_addr demo_arp_netif) @ replicate 18 0"
    by (simp add: demo_request_def arp_msg_def ARP_REQUEST_def le_bytes_2 le_bytes_4 demo_arp_netif_def)
  then have fr: "mem_read (mem s) (le_rxbuf E) (unat (60 :: u64)) = (replicate 6 0xFF @ [2, 0, 0, 0, 0, 7]) @ [8, 6] @
      arp_msg ARP_REQUEST [2, 0, 0, 0, 0, 7] 0x0300000A [0, 0, 0, 0, 0, 0] (n_ip_addr demo_arp_netif) @ replicate 18 0"
    using mem_read_write_eq [OF len, of "\<lambda>_. 0" "0xA000"] by (simp add: s_def E(3))
  have "ram_block two_blocks PBUF_RAW 60 {0x1000, 0x2000} 0x10000 {0x10000, 0x1000, 0x2000}"
    "ram_block two_blocks PBUF_LINK 28 {0x10000, 0x1000, 0x2000} 0x20000 {0x20000, 0x10000, 0x1000, 0x2000}"
    by (simp_all add: ram_block_def two_blocks_def ram_size_def LWIP_MEM_ALIGN_SIZE_def LWIP_MEM_ALIGN_def)
  then have room: "reply_room E (ucast (60 :: u64)) (alloc s) 0x10000 0x20000"
    unfolding reply_room_def E t(4) by (auto simp: sep_def ram_size_def LWIP_MEM_ALIGN_SIZE_def)
  have rep: "arp_reply demo_arp_netif [2, 0, 0, 0, 0, 7] 0x0300000A = [2, 0, 0, 0, 0, 7] @ [2, 0, 0, 0, 0, 1] @ [8, 6] @
      [0, 1, 8, 0, 6, 4, 0, 2, 2, 0, 0, 0, 0, 1, 10, 0, 0, 2] @ [2, 0, 0, 0, 0, 7, 10, 0, 0, 3]"
    by (simp add: arp_reply_def arp_msg_def ARP_REPLY_def le_bytes_2 le_bytes_4 demo_arp_netif_def)
  have "\<exists>s' i. receive_frame (arp_env sim_kernel E) 60 s = Some s' \<and>
      kern s' = k_net_tx sim_kernel (arp_reply demo_arp_netif [2, 0, 0, 0, 0, 7] 0x0300000A) 0 (kern s) \<and>
      etharp_get_entry i s' = Some (0x0300000A, 0x3000, [2, 0, 0, 0, 0, 7]) \<and> pbufs s' = pbufs s"
    by (rule arp_request_answered [OF E(5) blank_ok [OF t(1,2)] _ _ _ t(3) demo_good_netif n _ _ _ _ fr room _ _ t(5,6)])
      (simp_all add: t(1) E blank_entry_def)
  then show ?thesis unfolding rep t(7) by (auto simp: s_def [symmetric] sim_kernel_def sim_blank_def intro!: exI [of _ E])
qed

end
