(* ===== verification/BM_Stack.thy ===== *)
theory BM_Stack
  imports BM_Net_Props BM_Etharp_Props
begin

text \<open>
  The sockets over the Ethernet layer with ARP in place: what ARP leaves alone, and that a stack whose
  ARP is the code of \<^verbatim>\<open>etharp.c\<close> keeps the contract that the sockets rely on, so that of their environment only
  IP, TCP, UDP and DHCP remain assumed.
\<close>

section \<open>What ARP leaves alone\<close>

text \<open>A part of the state that neither the layers below ARP nor the ARP table belong to.\<close>

locale above_arp = own_state same for same :: "('k, 'm, 'z) arp_scheme \<Rightarrow> ('k, 'm, 'z) arp_scheme \<Rightarrow> bool" +
  assumes same_table: "same s (s\<lparr>arp_table := t\<rparr>)"
begin

lemma upd_entry_frame: "same s (upd_entry i f s)"
  unfolding upd_entry_def by (rule same_table)

lemma init_entry_frame: "same s (init_entry ip nif i s)"
  unfolding init_entry_def by (rule upd_entry_frame)

lemmas then_upd = same_trans [OF _ upd_entry_frame] same_trans [OF _ init_entry_frame]

lemma free_frame: "pbuf_free (le_pbuf E) p s = Some (r, s') \<Longrightarrow> env_quiet same E \<Longrightarrow> same s s'"
  by (erule free_same) (auto simp: env_quiet_def)

lemma output_frame: "ethernet_output K E i p src dst ty s = Some (e, s') \<Longrightarrow> env_quiet same E \<Longrightarrow> same s s'"
  by (erule ethernet_output_same) (auto simp: env_quiet_def)

lemma raw_frame:
  assumes "etharp_raw K E i es ed hs sip ht dip opc s = Some (e, s')" "env_quiet same E"
  shows "same s s'"
proof -
  obtain p s1 where 1: "pbuf_alloc (le_pbuf E) PBUF_LINK SIZEOF_ETHARP_HDR PBUF_RAM s = Some (p, s1)" "p = 0 \<longrightarrow> s' = s1"
      "p \<noteq> 0 \<longrightarrow> (\<exists>m e1 s2 r. ethernet_output K E i p es ed ETHTYPE_ARP (s1\<lparr>mem := m\<rparr>) = Some (e1, s2) \<and> pbuf_free (le_pbuf E) p s2 = Some (r, s'))"
    using assms(1) by (auto simp: etharp_raw_def bind_eq_Some_conv split: if_splits)
  have "same (s1\<lparr>mem := m\<rparr>) s' \<Longrightarrow> same s s'" for m
    using same_trans [OF same_trans [OF alloc_ram_same [OF 1(1)] same_mem]] .
  then show ?thesis using 1(2,3) alloc_ram_same [OF 1(1)] same_trans [OF output_frame [OF _ assms(2)] free_frame [OF _ assms(2)]] by blast
qed

lemma request_frame: "etharp_request K E i ip s = Some (e, s') \<Longrightarrow> env_quiet same E \<Longrightarrow> same s s'"
  by (auto simp: etharp_request_def etharp_request_dst_def bind_eq_Some_conv dest: raw_frame)

lemma gratuitous_frame: "etharp_gratuitous K E i s = Some (e, s') \<Longrightarrow> env_quiet same E \<Longrightarrow> same s s'"
  by (auto simp: etharp_gratuitous_def bind_eq_Some_conv dest: request_frame)

lemma free_entry_frame: "etharp_free_entry E i s = Some s' \<Longrightarrow> env_quiet same E \<Longrightarrow> same s s'"
  by (auto simp: etharp_free_entry_def bind_eq_Some_conv split: if_splits dest!: free_frame intro: upd_entry_frame then_upd)

lemma tmr_entry_frame: "etharp_tmr_entry K E i s = Some s' \<Longrightarrow> env_quiet same E \<Longrightarrow> same s s'"
  by (auto simp: etharp_tmr_entry_def Let_def bind_eq_Some_conv split: if_splits dest!: free_entry_frame request_frame
      intro: same_refl upd_entry_frame then_upd same_trans [OF upd_entry_frame])

lemma tmr_loop_frame: "etharp_tmr_loop K E is s = Some s' \<Longrightarrow> env_quiet same E \<Longrightarrow> same s s'"
  by (induction "is" arbitrary: s) (auto simp: bind_eq_Some_conv dest!: tmr_entry_frame intro: same_refl same_trans)

lemma tmr_frame: "BM_Etharp.etharp_tmr K E s = Some s' \<Longrightarrow> env_quiet same E \<Longrightarrow> same s s'"
  unfolding etharp_tmr_def by (rule tmr_loop_frame)

lemma find_frame: "etharp_find_entry E ip fl nif s = Some (r, s') \<Longrightarrow> env_quiet same E \<Longrightarrow> same s s'"
  by (auto simp: etharp_find_entry_def bind_eq_Some_conv split: sum.splits if_splits option.splits dest!: free_entry_frame
      intro: same_refl init_entry_frame then_upd)

lemma deliver_frame:
  assumes "ethernet_output K E i p src dst ty (upd_entry k f s) = Some (e, s1)" "pbuf_free (le_pbuf E) p s1 = Some (r, s')" "env_quiet same E"
  shows "same s s'"
  by (rule same_trans [OF upd_entry_frame same_trans [OF output_frame [OF assms(1,3)] free_frame [OF assms(2,3)]]])

lemma update_frame:
  assumes "etharp_update_arp_entry K E nif ip mac fl s = Some (e, s')" "env_quiet same E"
  shows "same s s'"
proof -
  consider "s' = s" | r s1 where "etharp_find_entry E (Some ip) fl nif s = Some (r, s1)"
      "s' = s1 \<or> (\<exists>f. s' = upd_entry (nat r) f s1) \<or> (\<exists>f. same (upd_entry (nat r) f s1) s')"
    using assms(1) unfolding etharp_update_arp_entry_def Let_def by (auto simp: bind_eq_Some_conv split: if_splits dest!: deliver_frame [OF _ _ assms(2)])
  then show ?thesis by cases (auto dest!: find_frame [OF _ assms(2)] intro: same_refl then_upd(1) same_trans [OF then_upd(1)])
qed

lemma cleanup_frame: "etharp_cleanup_netif E nif s = Some s' \<Longrightarrow> env_quiet same E \<Longrightarrow> same s s'"
proof -
  have "etharp_cleanup_loop E nif is s = Some s' \<Longrightarrow> env_quiet same E \<Longrightarrow> same s s'" for "is" s
    by (induction "is" arbitrary: s) (auto simp: bind_eq_Some_conv split: if_splits dest!: free_entry_frame intro: same_refl same_trans)
  then show "etharp_cleanup_netif E nif s = Some s' \<Longrightarrow> env_quiet same E \<Longrightarrow> same s s'" by (simp add: etharp_cleanup_netif_def)
qed

lemma respond_frame: "etharp_respond K E nif hdr fu fr ip s = Some s' \<Longrightarrow> env_quiet same E \<Longrightarrow> same s s'"
  by (auto simp: etharp_respond_def Let_def bind_eq_Some_conv split: if_splits dest: raw_frame intro: same_refl)

lemma input_frame: "etharp_input K E p nif s = Some s' \<Longrightarrow> env_quiet same E \<Longrightarrow> same s s'"
  unfolding etharp_input_def Let_def
  by (auto simp: bind_eq_Some_conv split: if_splits dest!: update_frame respond_frame free_frame intro: same_refl same_trans)

lemma env_frame: "upper_steps same E \<Longrightarrow> env_steps same (arp_env K E)"
  by (rule arp_env_steps) (auto simp: upper_steps_def Let_def dest: input_frame tmr_frame gratuitous_frame)

end

section \<open>Sockets over ARP\<close>

text \<open>The environment of the sockets with ARP in place.\<close>

definition with_arp :: "'k kernel \<Rightarrow> ('m, ('k, 'm, 'z) shim_scheme) tcp_env \<Rightarrow> ('m, ('k, 'm, 'z) shim_scheme) tcp_env" where
  "with_arp K E = E\<lparr>se_link := arp_env K (se_link E)\<rparr>"

lemma with_arp_simps [simp]:
  "se_link (with_arp K E) = arp_env K (se_link E)" "se_new (with_arp K E) = se_new E" "se_arg (with_arp K E) = se_arg E"
  "se_recv (with_arp K E) = se_recv E" "se_err (with_arp K E) = se_err E" "se_accept (with_arp K E) = se_accept E"
  "se_bind (with_arp K E) = se_bind E" "se_listen (with_arp K E) = se_listen E" "se_connect (with_arp K E) = se_connect E"
  "se_recved (with_arp K E) = se_recved E" "se_write (with_arp K E) = se_write E" "se_output (with_arp K E) = se_output E"
  "se_close (with_arp K E) = se_close E" "se_abort (with_arp K E) = se_abort E"
  by (simp_all add: with_arp_def)

interpretation run_above: above_arp "lwip_run E" for E
  by unfold_locales (auto intro!: run_quiet simp: same_socks_def)

lemma lwip_run_with_arp: "lwip_run (with_arp K E) = lwip_run E"
proof -
  have "on_recv (with_arp K E) = on_recv E" "on_accept (with_arp K E) = on_accept E"
    by (intro ext, simp add: on_recv_def on_accept_def cong: option.case_cong)+
  then have "lwip_step (with_arp K E) = lwip_step E"
    by (intro ext) (simp only: lwip_step.simps)
  then show ?thesis by simp
qed

text \<open>The part of the contract that is left: TCP, IP, UDP and DHCP.\<close>

definition upper_ok :: "('m, ('k, 'm, 'z) shim_scheme) tcp_env \<Rightarrow> bool" where
  "upper_ok E \<longleftrightarrow> setters_quiet E \<and> tcp_steps E \<and> upper_steps (lwip_run E) (se_link E)"

lemma with_arp_ok: "upper_ok E \<Longrightarrow> stack_ok (with_arp K E)"
  using run_above.env_frame [of E "se_link E" K]
  by (simp add: upper_ok_def stack_ok_def link_steps_def setters_quiet_def tcp_steps_def steps_def steps_val_def lwip_run_with_arp)



end
