(* ===== verification/Spec2Isabelle.thy ===== *)
theory Spec2Isabelle
  imports BM_Pbuf_Props BM_Posix BM_Crt0 BM_Etharp_Reply BM_Stack
begin

text \<open>
  A verification of the BareMetal application port kit: the code under \<^verbatim>\<open>src/app\<close> that lets programs written
  against a POSIX C library run on the BareMetal kernel.

  \<^bold>\<open>The program.\<close>  A program is linked with musl, whose system calls are redirected to one function,
  \<^verbatim>\<open>__bmos_syscall\<close> of \<^verbatim>\<open>posix_shim.c\<close>.  It serves memory from an arena behind the image, files through
  \<^verbatim>\<open>bmfs.c\<close> (a flat file system on the kernel's storage calls) and sockets through \<^verbatim>\<open>net_shim.c\<close>, which sits on
  the raw interface of lwIP; \<^verbatim>\<open>net_glue.c\<close> connects lwIP with the kernel's network calls, and lwIP only runs
  when a blocking socket call polls it.  \<^verbatim>\<open>crt0.c\<close> prepares memory and the initial stack for the C library.
  The kernel is not part of the repository.

  \<^bold>\<open>How the code is modelled.\<close>  Memory is a function from 64-bit addresses to bytes, machine integers are
  words of their width, and a C \<^verbatim>\<open>long\<close> is a 64-bit word read with its sign where the code compares.  The state
  is one record that the theories extend step by step (memory and kernel, files, heap, packet buffers,
  timers, interfaces, sockets), and every operation is a function on it that works for every extension.
  Negative results are the error numbers of the code.  An operation returns an option where C leaves the
  behaviour undefined (an access outside a table, a failed assertion, a signed overflow) or where a loop
  may run forever (\<^verbatim>\<open>partial_function\<close>); None never stands for an error of the program, and the theorems
  state that the result is Some.  Loops with a bound are structural, on a counter that is exactly the number
  of turns left in the code.

  \<^bold>\<open>Parameters.\<close>  The kernel is a record of functions on an opaque state (\<open>kernel\<close>); what the file system
  relies on is \<open>nvs_ok\<close>, what blocking calls rely on is \<open>clock_ok\<close> and \<open>poll_ok\<close>.  The C library's \<^verbatim>\<open>malloc\<close> and
  \<^verbatim>\<open>free\<close>, and the protocols of lwIP that are not modelled (TCP, UDP, IP, ARP, DHCP), are the functions of
  the records \<open>pbuf_env\<close>, \<open>timer_env\<close>, \<open>netif_env\<close>, \<open>link_env\<close> and \<open>tcp_env\<close>, each containing the one below it.  What
  is assumed of them is named in the theorems: \<open>malloc_ok\<close>, \<open>tmr_ok\<close>, \<open>stack_ok\<close> (the stack changes the
  socket table only by running callbacks of open sockets), \<open>setters_return\<close> and \<open>recved_keeps\<close>.  The
  instructions that the start code executes are the record \<open>cpu\<close>.  Each assumption is shown to hold of a
  concrete instance in the witness of the theorem that uses it.

  \<^bold>\<open>The theories.\<close>
  \<^item> \<open>BM_Prelude\<close>: words, memory, little-endian codes, separation of memory blocks.  \<open>BM_Kernel\<close>: the kernel and the
    wrappers of \<^verbatim>\<open>libBareMetal.c\<close>, with a simulated kernel.  \<open>BM_Cstring\<close>: the string routines that \<^verbatim>\<open>bmfs.c\<close> calls.
  \<^item> \<open>BM_Bmfs\<close>: every function of \<^verbatim>\<open>bmfs.c\<close>.  \<open>BM_Bmfs_Codec\<close>, \<open>BM_Bmfs_IO\<close>, \<open>BM_Bmfs_Dir\<close>, \<open>BM_Bmfs_File\<close>, \<open>BM_Bmfs_Inv\<close>,
    \<open>BM_Bmfs_Fs\<close> and \<open>BM_Bmfs_Props\<close>: the format on disk, sector-wise transfer, the directory, an abstract file
    that reading and writing refine, the invariant (files do not overlap, descriptors agree with the
    directory), and the properties: what is stored is what is loaded, every call keeps the invariant,
    unlinking removes one file and no other, and what open returns in every case.
  \<^item> \<open>BM_Heap\<close>: \<^verbatim>\<open>brk\<close> and \<^verbatim>\<open>mmap\<close>; blocks handed out by \<^verbatim>\<open>mmap\<close> are disjoint, and a \<^verbatim>\<open>brk\<close> between them breaks that.
  \<^item> \<open>BM_Lwip_Def\<close>, \<open>BM_Ip4_Addr\<close>, \<open>BM_Chksum\<close>: \<^verbatim>\<open>core/def.c\<close>, \<^verbatim>\<open>core/ipv4/ip4_addr.c\<close> and \<^verbatim>\<open>core/inet_chksum.c\<close>: printing and
    parsing addresses are inverse, netmasks, and the checksum is that of RFC 1071.
  \<^item> \<open>BM_Pbuf\<close>, \<open>BM_Pbuf_Data\<close> (the code of \<^verbatim>\<open>core/pbuf.c\<close>), \<open>BM_Pbuf_Chain\<close>, \<open>BM_Pbuf_Copy\<close>, \<open>BM_Pbuf_Search\<close>, \<open>BM_Pbuf_Props\<close>: the
    store of packet buffers, chains as lists, their data as a list of bytes, and what each routine does
    to both, reference counts included.
  \<^item> \<open>BM_Timeouts\<close>: \<^verbatim>\<open>core/timeouts.c\<close>; the list of timeouts is ordered although the clock wraps, and checking
    it returns with nothing due.  \<open>BM_Netif\<close>: \<^verbatim>\<open>core/netif.c\<close>; a new interface gets a number of its own.
  \<^item> \<open>BM_Ethernet\<close>: \<^verbatim>\<open>netif/ethernet.c\<close> and the driver of \<^verbatim>\<open>net_glue.c\<close>; a packet becomes the frame that the kernel gets.
    \<open>BM_Net_Glue\<close>: initialisation, polling and the loop of the blocking calls, which returns when the clock
    advances.
  \<^item> \<open>BM_Net_Shim\<close>: every function and callback of \<^verbatim>\<open>net_shim.c\<close>, and the accept queue as a bounded queue (locale
    \<open>bounded_fifo\<close>).  \<open>BM_Net_Inv\<close>: the steps that lwIP may take as a relation, that polling and initialisation
    consist of such steps, and that every call keeps the table well formed.  \<open>BM_Net_Props\<close>: reachable tables,
    the order and the return of \<^verbatim>\<open>accept\<close>.  \<open>BM_Net_Stream\<close>: the bytes of a connection, appended by the receive
    callback and taken from the front by \<^verbatim>\<open>recv\<close>.
  \<^item> \<open>BM_Posix\<close>: the other system calls and the dispatcher; descriptors have one owner (locale \<open>fd_tables\<close>), the
    console, bad descriptors, clocks.  \<open>BM_Crt0\<close>: \<^verbatim>\<open>crt0.c\<close> and what musl's start code makes of it.

  \<^bold>\<open>Bounds.\<close>  A transfer of the file system is at most the capacity of a file; the loops of \<^verbatim>\<open>pread\<close> and \<^verbatim>\<open>pwrite\<close>
  end because each turn takes at least one byte.  The storage has at most \<open>2 ^ 51\<close> sectors, so that positions
  fit a \<^verbatim>\<open>long\<close>.  Chains of packet buffers are finite lists without repetition, which is what makes the
  walks over them end; packets are below 65536 bytes, the range of \<^verbatim>\<open>tot_len\<close>.  Timeouts lie within \<open>2 ^ 31\<close> ms
  of the present, the range in which the comparison of the code is right, and a blocking call is at most
  that long.

  \<^bold>\<open>Not modelled.\<close>  TCP, IP, ARP, ICMP, UDP and DHCP of lwIP are parameters, as said above; of \<^verbatim>\<open>dhcp.c\<close> only
  \<^verbatim>\<open>dhcp_supplied_address\<close> is modelled, and of \<^verbatim>\<open>netif.c\<close> not what the program never calls.  The C library is
  modelled only where the port reads its code paths (strings, \<^verbatim>\<open>atoi\<close>, \<^verbatim>\<open>rand\<close>, the auxiliary vector); stdio and
  malloc are third-party code that the port only serves.  The assembly of \<^verbatim>\<open>_start\<close>, the example programs, the
  configuration headers and the build scripts have no state of their own.  Interrupts do not exist here:
  the program runs alone, and lwIP runs only when it is polled.
\<close>

end
